(* ===== verification/Prelude.thy ===== *)
theory Prelude
  imports Main "HOL-Library.Word" "HOL-Library.Sublist"
begin

text \<open>
  The shared vocabulary of the development: bytes and Go strings, the collections of
  rewrite rules the component proofs draw on, and generic facts on lists and options.

  A Go \<^verbatim>\<open>string\<close> or \<^verbatim>\<open>[]byte\<close> is a list of bytes, so it is HOL's \<open>string\<close> (a list of
  8-bit characters); \<open>length\<close> is Go's \<open>len\<close>. Fallible operations return \<open>error + result\<close>.
\<close>

named_theorems go_text \<open>what the string operations of the standard library compute\<close>
named_theorems utf8_simps \<open>decoding and encoding of single runes\<close>
named_theorems json_simps \<open>one token of JSON text, printed and read back\<close>
named_theorems trace_simps \<open>events of one step of a connection or a client\<close>

type_synonym gostring = "string"
type_synonym bytes = "8 word list"

text \<open>The numeric value of a byte.\<close>

abbreviation bv :: "char \<Rightarrow> nat" where
  "bv c \<equiv> of_char c"

abbreviation byte_char :: "nat \<Rightarrow> char" where
  "byte_char n \<equiv> char_of n"

abbreviation newline :: char where "newline \<equiv> CHR 0x0A"
abbreviation dquote :: char where "dquote \<equiv> CHR 0x22"
abbreviation backslash :: char where "backslash \<equiv> CHR 0x5C"

lemma bv_bound [simp]: "bv c < 256"
  using of_char_mod_256 [of c, where 'a = nat]
  by (metis mod_less_divisor zero_less_numeral)

lemma bv_le_255 [simp]: "bv c \<le> 255"
  using bv_bound [of c] by linarith

lemma bv_byte_char [simp]: "n < 256 \<Longrightarrow> bv (byte_char n) = n"
  by simp

lemma byte_char_eq_iff: "n < 256 \<Longrightarrow> byte_char n = c \<longleftrightarrow> n = bv c"
  by (metis bv_byte_char char_of_char)

text \<open>Conversions between a Go string and a slice of unsigned bytes.\<close>

definition bytes_of :: "gostring \<Rightarrow> bytes" where
  "bytes_of s = map of_char s"

definition string_of :: "bytes \<Rightarrow> gostring" where
  "string_of bs = map (\<lambda>b. byte_char (unat b)) bs"

lemma of_char_word [simp]: "unat (of_char c :: 8 word) = bv c"
proof -
  have "(of_char c :: 8 word) = word_of_nat (bv c)"
    by (simp add: of_nat_of_char)
  then show ?thesis
    by (simp add: unat_of_nat take_bit_nat_eq_self)
qed

lemma string_of_bytes_of [simp]: "string_of (bytes_of s) = s"
  by (induction s) (simp_all add: string_of_def bytes_of_def)

lemma length_bytes_of [simp]: "length (bytes_of s) = length s"
  by (simp add: bytes_of_def)

lemma length_string_of [simp]: "length (string_of bs) = length bs"
  by (simp add: string_of_def)

lemma unat_8_bound [simp]: "unat (b :: 8 word) < 256"
  using unsigned_less [of b, where 'a = nat] by simp

lemma bytes_of_string_of [simp]: "bytes_of (string_of bs) = bs"
proof (induction bs)
  case (Cons b bs)
  have "(of_char (byte_char (unat b)) :: 8 word) = b"
    by (rule unsigned_word_eqI [where 'a = nat]) simp
  with Cons show ?case by (simp add: string_of_def bytes_of_def)
qed (simp add: string_of_def bytes_of_def)

subsection \<open>Prefixes and suffixes\<close>

text \<open>\<open>strings.CutPrefix\<close> and \<open>strings.CutSuffix\<close>: the rest, or \<open>None\<close>.\<close>

fun cut_prefix :: "'a list \<Rightarrow> 'a list \<Rightarrow> 'a list option" where
  "cut_prefix [] s = Some s"
| "cut_prefix (p # ps) [] = None"
| "cut_prefix (p # ps) (c # s) = (if p = c then cut_prefix ps s else None)"

lemma cut_prefix_append [simp, go_text]: "cut_prefix p (p @ s) = Some s"
  by (induction p) simp_all

lemma cut_prefix_Some [simp]: "cut_prefix p s = Some r \<longleftrightarrow> s = p @ r"
  by (induction p s rule: cut_prefix.induct) auto

lemma cut_prefix_None: "cut_prefix p s = None \<longleftrightarrow> (\<forall>r. s \<noteq> p @ r)"
  by (metis cut_prefix_Some not_None_eq)

definition cut_suffix :: "'a list \<Rightarrow> 'a list \<Rightarrow> 'a list option" where
  "cut_suffix p s = map_option rev (cut_prefix (rev p) (rev s))"

lemma cut_suffix_append [simp, go_text]: "cut_suffix p (s @ p) = Some s"
  by (simp add: cut_suffix_def)

lemma cut_suffix_Some [simp]: "cut_suffix p s = Some r \<longleftrightarrow> s = r @ p"
  by (auto simp: cut_suffix_def) (metis rev_append rev_rev_ident)

lemma cut_suffix_None: "cut_suffix p s = None \<longleftrightarrow> (\<forall>r. s \<noteq> r @ p)"
  by (metis cut_suffix_Some not_None_eq)

subsection \<open>Spans\<close>

lemma takeWhile_append_stop [simp]:
  "\<forall>x\<in>set xs. P x \<Longrightarrow> \<not> P y \<Longrightarrow> takeWhile P (xs @ y # ys) = xs"
  by (induction xs) simp_all

lemma dropWhile_append_stop [simp]:
  "\<forall>x\<in>set xs. P x \<Longrightarrow> \<not> P y \<Longrightarrow> dropWhile P (xs @ y # ys) = y # ys"
  by (induction xs) simp_all

lemma dropWhile_eq_Cons: "dropWhile P xs = y # ys \<Longrightarrow> \<not> P y"
  by (metis hd_dropWhile list.distinct(1) list.sel(1))

lemma concat_map_bound: "(\<And>x. x \<in> set xs \<Longrightarrow> length (f x) \<le> k * w x) \<Longrightarrow>
    length (concat (map f xs)) \<le> k * sum_list (map w xs)"
  by (induction xs) (fastforce simp: algebra_simps)+

end
