(* ===== verification/Utf8.thy ===== *)
theory Utf8
  imports Prelude
begin

text \<open>
  The part of Go's \<open>unicode/utf8\<close>, \<open>unicode\<close> and rune-wise \<open>strings\<close> operations the program
  uses: ranging over a string decodes it rune by rune, and a byte that starts no valid
  encoding is the rune U+FFFD of width one.
\<close>

definition RuneError :: nat where "RuneError = 0xFFFD"

text \<open>\<open>utf8.ValidRune\<close>: a Unicode scalar value.\<close>

definition validRune :: "nat \<Rightarrow> bool" where
  "validRune r \<longleftrightarrow> r < 0xD800 \<or> (0xDFFF < r \<and> r \<le> 0x10FFFF)"

definition cont :: "nat \<Rightarrow> bool" where
  "cont b \<longleftrightarrow> 0x80 \<le> b \<and> b \<le> 0xBF"

definition lo2 :: "nat \<Rightarrow> nat" where
  "lo2 b0 = (if b0 = 0xE0 then 0xA0 else if b0 = 0xF0 then 0x90 else 0x80)"

definition hi2 :: "nat \<Rightarrow> nat" where
  "hi2 b0 = (if b0 = 0xED then 0x9F else if b0 = 0xF4 then 0x8F else 0xBF)"

text \<open>\<open>utf8.DecodeRuneInString\<close>: the rune and its width in bytes.\<close>

fun decodeRune :: "gostring \<Rightarrow> nat \<times> nat" where
  "decodeRune [] = (RuneError, 0)"
| "decodeRune (c0 # s) =
     (let b0 = bv c0 in
      if b0 < 0x80 then (b0, 1)
      else if 0xC2 \<le> b0 \<and> b0 \<le> 0xDF then
        (case s of
           c1 # _ \<Rightarrow> if cont (bv c1) then ((b0 - 0xC0) * 64 + (bv c1 - 0x80), 2)
                     else (RuneError, 1)
         | _ \<Rightarrow> (RuneError, 1))
      else if 0xE0 \<le> b0 \<and> b0 \<le> 0xEF then
        (case s of
           c1 # c2 # _ \<Rightarrow>
             if lo2 b0 \<le> bv c1 \<and> bv c1 \<le> hi2 b0 \<and> cont (bv c2)
             then ((b0 - 0xE0) * 4096 + (bv c1 - 0x80) * 64 + (bv c2 - 0x80), 3)
             else (RuneError, 1)
         | _ \<Rightarrow> (RuneError, 1))
      else if 0xF0 \<le> b0 \<and> b0 \<le> 0xF4 then
        (case s of
           c1 # c2 # c3 # _ \<Rightarrow>
             if lo2 b0 \<le> bv c1 \<and> bv c1 \<le> hi2 b0 \<and> cont (bv c2) \<and> cont (bv c3)
             then ((b0 - 0xF0) * 262144 + (bv c1 - 0x80) * 4096 + (bv c2 - 0x80) * 64
                     + (bv c3 - 0x80), 4)
             else (RuneError, 1)
         | _ \<Rightarrow> (RuneError, 1))
      else (RuneError, 1))"

text \<open>\<open>utf8.AppendRune\<close>: an invalid rune is written as U+FFFD.\<close>

definition encodeRune :: "nat \<Rightarrow> gostring" where
  "encodeRune r0 =
     (let r = (if validRune r0 then r0 else RuneError) in
      if r < 0x80 then [byte_char r]
      else if r < 0x800 then [byte_char (0xC0 + r div 64), byte_char (0x80 + r mod 64)]
      else if r < 0x10000 then
        [byte_char (0xE0 + r div 4096), byte_char (0x80 + r div 64 mod 64),
         byte_char (0x80 + r mod 64)]
      else
        [byte_char (0xF0 + r div 262144), byte_char (0x80 + r div 4096 mod 64),
         byte_char (0x80 + r div 64 mod 64), byte_char (0x80 + r mod 64)])"

subsection \<open>One rune\<close>

lemma decodeRune_width: "s \<noteq> [] \<Longrightarrow> 0 < snd (decodeRune s) \<and> snd (decodeRune s) \<le> length s"
  by (cases s) (auto simp: Let_def split: list.splits)

lemma decodeRune_width_pos [simp]: "0 < snd (decodeRune (c # s))"
  using decodeRune_width [of "c # s"] by simp

lemma encodeRune_nonempty [simp]: "encodeRune r \<noteq> []"
  by (simp add: encodeRune_def Let_def)

lemma decodeRune_ascii [simp, utf8_simps]: "bv c < 0x80 \<Longrightarrow> decodeRune (c # s) = (bv c, 1)"
  by simp

lemma decode_encode2:
  assumes "0x80 \<le> r" "r < (0x800::nat)"
  shows "decodeRune (byte_char (0xC0 + r div 64) # byte_char (0x80 + r mod 64) # s) = (r, 2)"
proof -
  have b0: "bv (byte_char (0xC0 + r div 64)) = 0xC0 + r div 64"
    and b1: "bv (byte_char (0x80 + r mod 64)) = 0x80 + r mod 64"
    using assms by simp_all
  have "0xC2 \<le> 0xC0 + r div 64" "0xC0 + r div 64 \<le> 0xDF"
    using assms by simp_all
  then show ?thesis
    by (simp add: b0 b1 cont_def del: of_char_of)
qed

lemma mod64_le: "r mod 64 \<le> (63::nat)"
proof -
  have "r mod 64 < 64" by simp
  then show ?thesis by linarith
qed

lemma digits64:
  fixes r :: nat
  shows "r div 4096 * 4096 + r div 64 mod 64 * 64 + r mod 64 = r"
    and "r div 262144 * 262144 + r div 4096 mod 64 * 4096 + r div 64 mod 64 * 64 + r mod 64 = r"
proof -
  define a b c where "a = r div 64" and "b = a div 64" and "c = b div 64"
  have r: "r = a * 64 + r mod 64" and a: "a = b * 64 + a mod 64" and b: "b = c * 64 + b mod 64"
    by (simp_all add: a_def b_def c_def)
  have q: "r div 4096 = b" "r div 262144 = c"
    by (simp_all add: a_def b_def c_def flip: div_mult2_eq)
  show "r div 4096 * 4096 + r div 64 mod 64 * 64 + r mod 64 = r"
    unfolding q a_def [symmetric] using r a by linarith
  show "r div 262144 * 262144 + r div 4096 mod 64 * 4096 + r div 64 mod 64 * 64 + r mod 64 = r"
    unfolding q a_def [symmetric] using r a b by linarith
qed

lemma decode_encode3:
  assumes "0x800 \<le> r" "r < (0x10000::nat)" "validRune r"
  shows "decodeRune (byte_char (0xE0 + r div 4096) # byte_char (0x80 + r div 64 mod 64)
           # byte_char (0x80 + r mod 64) # s) = (r, 3)"
proof -
  let ?q = "r div 4096" and ?m = "r div 64 mod 64" and ?l = "r mod 64"
  have b0: "bv (byte_char (0xE0 + ?q)) = 0xE0 + ?q"
    and b1: "bv (byte_char (0x80 + ?m)) = 0x80 + ?m"
    and b2: "bv (byte_char (0x80 + ?l)) = 0x80 + ?l"
    using assms by simp_all
  have q: "?q \<le> 0xF" using assms by simp
  have l: "?l \<le> 63" by (rule mod64_le)
  note sum = digits64(1) [of r]
  have "?q = 0 \<Longrightarrow> 0x20 \<le> ?m" using assms(1) sum l by linarith
  moreover have "?q = 0xD \<Longrightarrow> ?m \<le> 0x1F"
    using assms(3) sum unfolding validRune_def by linarith
  ultimately have "lo2 (0xE0 + ?q) \<le> 0x80 + ?m" "0x80 + ?m \<le> hi2 (0xE0 + ?q)"
    using q by (auto simp: lo2_def hi2_def)
  then show ?thesis
    using q sum l by (simp add: b0 b1 b2 cont_def del: of_char_of)
qed

lemma decode_encode4:
  assumes "0x10000 \<le> r" "r \<le> (0x10FFFF::nat)"
  shows "decodeRune (byte_char (0xF0 + r div 262144) # byte_char (0x80 + r div 4096 mod 64)
           # byte_char (0x80 + r div 64 mod 64) # byte_char (0x80 + r mod 64) # s) = (r, 4)"
proof -
  let ?q = "r div 262144" and ?k = "r div 4096 mod 64" and ?m = "r div 64 mod 64"
    and ?l = "r mod 64"
  have b: "bv (byte_char (0xF0 + ?q)) = 0xF0 + ?q" "bv (byte_char (0x80 + ?k)) = 0x80 + ?k"
    "bv (byte_char (0x80 + ?m)) = 0x80 + ?m" "bv (byte_char (0x80 + ?l)) = 0x80 + ?l"
    using assms by simp_all
  have q: "?q \<le> 4" using assms by simp
  have l: "?m \<le> 63" "?l \<le> 63" by (rule mod64_le)+
  note sum = digits64(2) [of r]
  have "?q = 0 \<Longrightarrow> 0x10 \<le> ?k" using assms(1) sum l by linarith
  moreover have "?q = 4 \<Longrightarrow> ?k \<le> 0xF" using assms(2) sum by linarith
  ultimately have "lo2 (0xF0 + ?q) \<le> 0x80 + ?k" "0x80 + ?k \<le> hi2 (0xF0 + ?q)"
    using q by (auto simp: lo2_def hi2_def)
  then show ?thesis
    using q sum l by (simp add: b cont_def del: of_char_of)
qed

text \<open>A rune written and read back is the same rune, whatever follows it.\<close>

lemma decode_encode [simp, utf8_simps]:
  assumes "validRune r"
  shows "decodeRune (encodeRune r @ s) = (r, length (encodeRune r))"
proof -
  consider "r < 0x80" | "0x80 \<le> r" "r < 0x800" | "0x800 \<le> r" "r < 0x10000"
    | "0x10000 \<le> r" "r \<le> 0x10FFFF"
    using assms unfolding validRune_def by linarith
  then show ?thesis
  proof cases
    case 1
    then show ?thesis using assms by (simp add: encodeRune_def)
  next
    case 2
    then show ?thesis
      using assms decode_encode2 [OF 2, of s] by (simp add: encodeRune_def del: decodeRune.simps)
  next
    case 3
    then show ?thesis
      using assms decode_encode3 [OF 3 assms, of s]
      by (simp add: encodeRune_def del: decodeRune.simps)
  next
    case 4
    then show ?thesis
      using assms decode_encode4 [OF 4, of s] by (simp add: encodeRune_def del: decodeRune.simps)
  qed
qed

text \<open>Decoding fails, or the bytes read are the encoding of the rune returned.\<close>

lemma undigits64:
  fixes a b c d :: nat
  assumes "b < 64" "c < 64" "d < 64"
  shows "(a * 64 + b) div 64 = a" "(a * 64 + b) mod 64 = b"
    and "(a * 4096 + b * 64 + c) div 4096 = a" "(a * 4096 + b * 64 + c) div 64 mod 64 = b"
      "(a * 4096 + b * 64 + c) mod 64 = c"
    and "(a * 262144 + b * 4096 + c * 64 + d) div 262144 = a"
      "(a * 262144 + b * 4096 + c * 64 + d) div 4096 mod 64 = b"
      "(a * 262144 + b * 4096 + c * 64 + d) div 64 mod 64 = c"
      "(a * 262144 + b * 4096 + c * 64 + d) mod 64 = d"
proof -
  have step: "(x * 64 + y) div 64 = x" "(x * 64 + y) mod 64 = y" if "y < 64" for x y :: nat
    using that by simp_all
  have e2: "a * 4096 + b * 64 + c = (a * 64 + b) * 64 + c" by simp
  have e3: "a * 262144 + b * 4096 + c * 64 + d = ((a * 64 + b) * 64 + c) * 64 + d" by simp
  have dd: "x div 4096 = x div 64 div 64" "x div 262144 = x div 64 div 64 div 64" for x :: nat
    by (simp_all flip: div_mult2_eq)
  show "(a * 64 + b) div 64 = a" "(a * 64 + b) mod 64 = b"
    by (rule step [OF assms(1)])+
  show "(a * 4096 + b * 64 + c) div 4096 = a" "(a * 4096 + b * 64 + c) div 64 mod 64 = b"
      "(a * 4096 + b * 64 + c) mod 64 = c"
    unfolding e2 dd by (simp_all only: step assms)
  show "(a * 262144 + b * 4096 + c * 64 + d) div 262144 = a"
      "(a * 262144 + b * 4096 + c * 64 + d) div 4096 mod 64 = b"
      "(a * 262144 + b * 4096 + c * 64 + d) div 64 mod 64 = c"
      "(a * 262144 + b * 4096 + c * 64 + d) mod 64 = d"
    unfolding e3 dd by (simp_all only: step assms)
qed

lemma encode2:
  assumes "0xC2 \<le> b0" "b0 \<le> 0xDF" "cont b1" "r = (b0 - 0xC0) * 64 + (b1 - 0x80)"
  shows "validRune r \<and> encodeRune r = [byte_char b0, byte_char b1]"
proof -
  obtain a b where ab: "b0 = 0xC0 + a" "b1 = 0x80 + b" "b < 64" "2 \<le> a" "a < 32"
    using assms(1-3) by (intro that [of "b0 - 0xC0" "b1 - 0x80"]) (auto simp: cont_def)
  then have r: "r = a * 64 + b" using assms(4) by simp
  have "0x80 \<le> r" "r < 0x800" using ab r by linarith+
  then show ?thesis
    using undigits64(1,2) [OF ab(3), of 0 0 a] ab r
    by (simp add: encodeRune_def validRune_def)
qed

lemma encode3:
  assumes "0xE0 \<le> b0" "b0 \<le> 0xEF" "lo2 b0 \<le> b1" "b1 \<le> hi2 b0" "cont b2"
    "r = (b0 - 0xE0) * 4096 + (b1 - 0x80) * 64 + (b2 - 0x80)"
  shows "validRune r \<and> encodeRune r = [byte_char b0, byte_char b1, byte_char b2]"
proof -
  define a b c where abc: "a = b0 - 0xE0" "b = b1 - 0x80" "c = b2 - 0x80"
  have bb: "b0 = 0xE0 + a" "b1 = 0x80 + b" "b2 = 0x80 + c" "b < 64" "c < 64" "a < 16"
    and lo: "a = 0 \<Longrightarrow> 0x20 \<le> b" and hi: "a = 0xD \<Longrightarrow> b < 0x20"
    using assms(1-5) by (auto simp: abc cont_def lo2_def hi2_def split: if_splits)
  have r: "r = a * 4096 + b * 64 + c" using assms(6) by (simp add: abc)
  have "0x800 \<le> r" "r < 0x10000" using bb lo r by (cases "a = 0"; linarith)+
  moreover have "validRune r"
    using bb(4-6) hi unfolding validRune_def r
    by (cases "a = 0xD"; cases "a < 0xD") linarith+
  ultimately show ?thesis
    using undigits64(3-5) [OF bb(4,5,5), of a] bb r by (simp add: encodeRune_def)
qed

lemma encode4:
  assumes "0xF0 \<le> b0" "b0 \<le> 0xF4" "lo2 b0 \<le> b1" "b1 \<le> hi2 b0" "cont b2" "cont b3"
    "r = (b0 - 0xF0) * 262144 + (b1 - 0x80) * 4096 + (b2 - 0x80) * 64 + (b3 - 0x80)"
  shows "validRune r \<and> encodeRune r = [byte_char b0, byte_char b1, byte_char b2, byte_char b3]"
proof -
  define a b c d where abcd: "a = b0 - 0xF0" "b = b1 - 0x80" "c = b2 - 0x80" "d = b3 - 0x80"
  have bb: "b0 = 0xF0 + a" "b1 = 0x80 + b" "b2 = 0x80 + c" "b3 = 0x80 + d"
      "b < 64" "c < 64" "d < 64" "a \<le> 4"
    and lo: "a = 0 \<Longrightarrow> 0x10 \<le> b" and hi: "a = 4 \<Longrightarrow> b < 0x10"
    using assms(1-6) by (auto simp: abcd cont_def lo2_def hi2_def split: if_splits)
  have r: "r = a * 262144 + b * 4096 + c * 64 + d" using assms(7) by (simp add: abcd)
  have "0x10000 \<le> r" using bb lo r by (cases "a = 0") linarith+
  moreover have "r \<le> 0x10FFFF" using bb hi r by (cases "a = 4") linarith+
  ultimately show ?thesis
    using undigits64(6-9) [OF bb(5-7), of a] bb r by (simp add: encodeRune_def validRune_def)
qed

lemma decodeRune_encoded:
  assumes "decodeRune s = (r, n)" "s \<noteq> []" "\<not> (r = RuneError \<and> n = 1)"
  shows "validRune r \<and> take n s = encodeRune r"
proof -
  obtain c0 t where s: "s = c0 # t" using assms(2) by (cases s) auto
  note dec = assms(1) [unfolded s decodeRune.simps Let_def]
  consider "bv c0 < 0x80" | "0xC2 \<le> bv c0" "bv c0 \<le> 0xDF" | "0xE0 \<le> bv c0" "bv c0 \<le> 0xEF"
    | "0xF0 \<le> bv c0" "bv c0 \<le> 0xF4"
    using dec assms(3) by (auto split: if_splits)
  then show ?thesis
  proof cases
    case 1
    then show ?thesis using dec by (auto simp: s validRune_def encodeRune_def)
  next
    case 2
    then obtain c1 u where t: "t = c1 # u" "cont (bv c1)"
        "r = (bv c0 - 0xC0) * 64 + (bv c1 - 0x80)" "n = 2"
      using dec assms(3) by (auto split: if_splits list.splits)
    show ?thesis using encode2 [OF 2 t(2,3)] t by (simp add: s)
  next
    case 3
    then obtain c1 c2 u where t: "t = c1 # c2 # u" "lo2 (bv c0) \<le> bv c1" "bv c1 \<le> hi2 (bv c0)"
        "cont (bv c2)" "n = 3"
        "r = (bv c0 - 0xE0) * 4096 + (bv c1 - 0x80) * 64 + (bv c2 - 0x80)"
      using dec assms(3) by (auto split: if_splits list.splits)
    show ?thesis using encode3 [OF 3 t(2,3,4,6)] t by (simp add: s)
  next
    case 4
    then obtain c1 c2 c3 u where t: "t = c1 # c2 # c3 # u" "lo2 (bv c0) \<le> bv c1"
        "bv c1 \<le> hi2 (bv c0)" "cont (bv c2)" "cont (bv c3)" "n = 4"
        "r = (bv c0 - 0xF0) * 262144 + (bv c1 - 0x80) * 4096 + (bv c2 - 0x80) * 64
               + (bv c3 - 0x80)"
      using dec assms(3) by (auto split: if_splits list.splits)
    show ?thesis using encode4 [OF 4 t(2,3,4,5,7)] t by (simp add: s)
  qed
qed

declare decodeRune.simps(2) [simp del]

lemma encodeRune_ascii: "r < 0x80 \<Longrightarrow> encodeRune r = [byte_char r]"
  by (simp add: encodeRune_def validRune_def)

lemma encodeRune_RuneError: "encodeRune RuneError = [CHR 0xEF, CHR 0xBF, CHR 0xBD]"
  by (simp add: encodeRune_def RuneError_def validRune_def byte_char_eq_iff)

lemma encodeRune_high:
  assumes "0x80 \<le> r" "c \<in> set (encodeRune r)"
  shows "0x80 \<le> bv c"
  using assms(2)
  by (cases "validRune r")
    (use assms(1) in \<open>auto simp: encodeRune_def Let_def validRune_def RuneError_def split: if_splits\<close>)

lemma length_encodeRune_bounds: "1 \<le> length (encodeRune r) \<and> length (encodeRune r) \<le> 4"
  by (simp add: encodeRune_def Let_def)

subsection \<open>A string as the runes it ranges over\<close>

text \<open>The bytes of each rune in turn, as \<open>for i, r := range s\<close> visits them.\<close>

function pieces :: "gostring \<Rightarrow> gostring list" where
  "pieces [] = []"
| "pieces (c # s) =
     (let n = snd (decodeRune (c # s)) in take n (c # s) # pieces (drop n (c # s)))"
  by pat_completeness auto
termination
  by (relation "measure length") (use decodeRune_width_pos in \<open>auto simp: Let_def\<close>)

definition runes :: "gostring \<Rightarrow> nat list" where
  "runes s = map (fst \<circ> decodeRune) (pieces s)"

text \<open>\<open>utf8.RuneCountInString\<close>.\<close>

definition runeCount :: "gostring \<Rightarrow> nat" where
  "runeCount s = length (pieces s)"

text \<open>
  Writing back the runes of a string: every byte that is not part of a valid encoding
  becomes U+FFFD. This is what \<open>strings.Map\<close> with the identity and a JSON round trip do.
\<close>

definition toValid :: "gostring \<Rightarrow> gostring" where
  "toValid s = concat (map encodeRune (runes s))"

definition validString :: "gostring \<Rightarrow> bool" where
  "validString s \<longleftrightarrow> toValid s = s"

declare pieces.simps(2) [simp del]

lemma pieces_step:
  "s \<noteq> [] \<Longrightarrow> pieces s = take (snd (decodeRune s)) s # pieces (drop (snd (decodeRune s)) s)"
  by (cases s) (simp_all only: pieces.simps Let_def list.simps)

text \<open>Induction along the runes of a string.\<close>

lemma rune_induct [case_names Nil Rune]:
  assumes "P []"
    and "\<And>s. s \<noteq> [] \<Longrightarrow> P (drop (snd (decodeRune s)) s) \<Longrightarrow> P s"
  shows "P s"
proof (induction s rule: pieces.induct)
  case (2 c s)
  then show ?case using assms(2) [of "c # s"] by blast
qed (rule assms(1))

lemma concat_pieces [simp]: "concat (pieces s) = s"
  by (induction s rule: rune_induct) (simp_all add: pieces_step)

lemma pieces_nonempty: "p \<in> set (pieces s) \<Longrightarrow> p \<noteq> []"
proof (induction s rule: rune_induct)
  case (Rune s)
  then show ?case
    using decodeRune_width [of s] by (cases "p \<in> set (pieces (drop (snd (decodeRune s)) s))")
      (auto simp: pieces_step)
qed simp

lemma runeCount_le_length: "runeCount s \<le> length s"
proof -
  have "length ps \<le> length (concat ps)" if "\<forall>p\<in>set ps. p \<noteq> []" for ps :: "gostring list"
    using that
  proof (induction ps)
    case (Cons p ps)
    then show ?case by (cases p) auto
  qed simp
  from this [of "pieces s"] show ?thesis
    using pieces_nonempty by (auto simp: runeCount_def)
qed

lemma length_le_runeCount: "length s \<le> 4 * runeCount s"
proof (induction s rule: rune_induct)
  case (Rune s)
  have "snd (decodeRune s) \<le> 4"
    by (cases s) (auto simp: decodeRune.simps Let_def split: list.splits)
  then show ?case using Rune by (simp add: runeCount_def pieces_step)
qed simp

lemma decodeRune_take:
  assumes "s \<noteq> []" "decodeRune s = (r, n)"
  shows "decodeRune (take n s) = (r, n)"
proof (cases "r = RuneError \<and> n = 1")
  case True
  with assms show ?thesis
    by (cases s) (auto simp: decodeRune.simps Let_def RuneError_def split: if_splits)
next
  case False
  with decodeRune_encoded [OF assms(2,1)] have "validRune r" "take n s = encodeRune r" by auto
  moreover have "length (take n s) = n"
    using decodeRune_width [OF assms(1)] assms(2) by simp
  ultimately show ?thesis
    using decode_encode [of r "[]"] by simp
qed

lemma runes_Nil [simp]: "runes [] = []" and pieces_single: "pieces [] = []"
  by (simp_all add: runes_def)

lemma runes_Cons:
  "s \<noteq> [] \<Longrightarrow> runes s = fst (decodeRune s) # runes (drop (snd (decodeRune s)) s)"
  using decodeRune_take [of s "fst (decodeRune s)" "snd (decodeRune s)"]
  by (simp add: runes_def pieces_step)

lemma pieces_encodeRune [simp, utf8_simps]:
  "validRune r \<Longrightarrow> pieces (encodeRune r @ s) = encodeRune r # pieces s"
  by (simp add: pieces_step)

lemma runes_encodeRune [simp, utf8_simps]: "validRune r \<Longrightarrow> runes (encodeRune r @ s) = r # runes s"
  using decode_encode [of r "[]"] by (simp add: runes_def)

lemma runes_concat: "\<forall>r\<in>set rs. validRune r \<Longrightarrow> runes (concat (map encodeRune rs)) = rs"
  by (induction rs) simp_all

lemma runes_valid: "r \<in> set (runes s) \<Longrightarrow> validRune r"
proof (induction s rule: rune_induct)
  case (Rune s)
  have "validRune (fst (decodeRune s))"
    using decodeRune_encoded [of s "fst (decodeRune s)" "snd (decodeRune s)"] Rune(1)
    by (cases "fst (decodeRune s) = RuneError") (auto simp: validRune_def RuneError_def)
  with Rune show ?case by (auto simp: runes_Cons)
qed simp

lemma runes_toValid [simp]: "runes (toValid s) = runes s"
  by (simp add: toValid_def runes_concat runes_valid)

lemma validString_toValid [simp]: "validString (toValid s)"
  using runes_toValid [of s] by (simp add: validString_def toValid_def)

lemma validString_iff: "validString s \<longleftrightarrow> (\<exists>rs. (\<forall>r\<in>set rs. validRune r) \<and> s = concat (map encodeRune rs))"
  by (metis runes_concat runes_valid toValid_def validString_def)

lemma validString_Nil [simp]: "validString []"
  by (simp add: validString_def toValid_def)

lemma validString_append:
  "validString s \<Longrightarrow> validString t \<Longrightarrow> validString (s @ t)"
  by (metis UnE concat_append map_append set_append validString_iff)

lemma validString_encodeRune: "validString (encodeRune r)"
proof -
  let ?r = "if validRune r then r else RuneError"
  have "validRune ?r" by (simp add: validRune_def RuneError_def)
  moreover have "encodeRune r = concat (map encodeRune [?r])"
    by (simp add: encodeRune_def validRune_def RuneError_def)
  ultimately show ?thesis by (metis empty_iff insert_iff list.set validString_iff)
qed

text \<open>A string is valid exactly when decoding never fails on it.\<close>

lemma decodeRune_validString:
  assumes "validString s" "s \<noteq> []"
  obtains r t where "validRune r" "s = encodeRune r @ t" "decodeRune s = (r, length (encodeRune r))"
    "validString t"
proof -
  from assms(1) obtain rs where rs: "\<forall>r\<in>set rs. validRune r" "s = concat (map encodeRune rs)"
    by (auto simp: validString_iff)
  with assms(2) obtain r ts where "rs = r # ts" by (cases rs) auto
  with rs have "validRune r" "s = encodeRune r @ concat (map encodeRune ts)"
    "validString (concat (map encodeRune ts))"
    by (auto simp: validString_iff)
  then show thesis using that decode_encode by blast
qed

end
