(* ===== verification/Go_Text.thy ===== *)
theory Go_Text
  imports Utf8
begin

text \<open>
  The text operations of Go's standard library that the program calls: \<open>strconv\<close> and
  \<open>fmt\<close> on integers, \<open>encoding/hex\<close>, \<open>strings\<close> and \<open>path/filepath\<close> (on a Unix system,
  where the separator is a slash and there are no volume names).
\<close>

subsection \<open>Decimal integers\<close>

definition is_digit :: "char \<Rightarrow> bool" where
  "is_digit c \<longleftrightarrow> 48 \<le> bv c \<and> bv c \<le> 57"

text \<open>The digits \<open>fmt\<close> prints with \<open>%d\<close>.\<close>

fun nat_dec :: "nat \<Rightarrow> gostring" where
  "nat_dec n = (if n < 10 then [byte_char (48 + n)]
                else nat_dec (n div 10) @ [byte_char (48 + n mod 10)])"

declare nat_dec.simps [simp del]

definition itoa :: "int \<Rightarrow> gostring" where
  "itoa i = (if i < 0 then CHR ''-'' # nat_dec (nat (- i)) else nat_dec (nat i))"

definition digits_val :: "gostring \<Rightarrow> nat" where
  "digits_val ds = foldl (\<lambda>a c. 10 * a + (bv c - 48)) 0 ds"

definition int64 :: "int \<Rightarrow> bool" where
  "int64 i \<longleftrightarrow> - (2 ^ 63) \<le> i \<and> i < 2 ^ 63"

text \<open>\<open>strconv.Atoi\<close> and \<open>strconv.ParseInt(s, 10, 64)\<close>: a sign, digits, and the 64-bit range.\<close>

definition atoi :: "gostring \<Rightarrow> int option" where
  "atoi s =
     (let (neg, ds) = (case s of
            c # t \<Rightarrow> if c = CHR ''-'' then (True, t) else if c = CHR ''+'' then (False, t)
                     else (False, s)
          | [] \<Rightarrow> (False, s));
          v = (if neg then - int (digits_val ds) else int (digits_val ds))
      in if ds \<noteq> [] \<and> list_all is_digit ds \<and> int64 v then Some v else None)"

lemma digit_char [simp]: "n < 10 \<Longrightarrow> is_digit (byte_char (48 + n))"
  by (simp add: is_digit_def)

lemma nat_dec_digits: "list_all is_digit (nat_dec n)"
proof (induction n rule: nat_dec.induct)
  case (1 n)
  then show ?case by (subst nat_dec.simps) simp
qed

lemma nat_dec_nonempty [simp]: "nat_dec n \<noteq> []"
  by (subst nat_dec.simps) simp

lemma digits_val_nat_dec [simp]: "digits_val (nat_dec n) = n"
proof (induction n rule: nat_dec.induct)
  case (1 n)
  show ?case
  proof (cases "n < 10")
    case False
    with 1 have "digits_val (nat_dec n) = 10 * (n div 10) + n mod 10"
      by (subst nat_dec.simps) (simp add: digits_val_def)
    then show ?thesis by simp
  qed (subst nat_dec.simps, simp add: digits_val_def)
qed

lemma hd_nat_dec: "is_digit (hd (nat_dec n))"
  using nat_dec_digits [of n] by (cases "nat_dec n") auto

lemma atoi_digits:
  assumes "list_all is_digit ds" "ds \<noteq> []"
  shows "atoi ds = (if int (digits_val ds) < 2 ^ 63 then Some (int (digits_val ds)) else None)"
proof -
  obtain c t where ds: "ds = c # t" using assms(2) by (cases ds) auto
  with assms(1) have "is_digit c" by simp
  then have "c \<noteq> CHR ''-''" "c \<noteq> CHR ''+''" by (auto simp: is_digit_def)
  then have "(case ds of c # t \<Rightarrow> if c = CHR ''-'' then (True, t) else if c = CHR ''+'' then (False, t)
                     else (False, ds) | [] \<Rightarrow> (False, ds)) = (False, ds)"
    by (simp add: ds)
  then show ?thesis using assms by (simp add: atoi_def int64_def)
qed

text \<open>What \<open>%d\<close> prints, \<open>Atoi\<close> reads back, over the whole 64-bit range.\<close>

lemma atoi_itoa [simp, go_text]: "int64 i \<Longrightarrow> atoi (itoa i) = Some i"
proof (cases "i < 0")
  case True
  assume "int64 i"
  with True show ?thesis
    by (simp add: atoi_def itoa_def Let_def nat_dec_digits)
next
  case False
  assume "int64 i"
  with False atoi_digits [OF nat_dec_digits, of "nat i"] show ?thesis
    by (simp add: itoa_def int64_def)
qed

lemma itoa_nonempty [simp]: "itoa i \<noteq> []"
  by (simp add: itoa_def)

lemma itoa_inject: "int64 i \<Longrightarrow> int64 j \<Longrightarrow> itoa i = itoa j \<longleftrightarrow> i = j"
  by (metis atoi_itoa option.inject)

lemma atoi_int64: "atoi s = Some i \<Longrightarrow> int64 i"
  by (auto simp: atoi_def Let_def split: prod.splits if_splits)

lemma length_nat_dec: "0 < d \<Longrightarrow> n < 10 ^ d \<Longrightarrow> length (nat_dec n) \<le> d"
proof (induction n arbitrary: d rule: nat_dec.induct)
  case (1 n)
  show ?case
  proof (cases "n < 10")
    case True
    then show ?thesis using "1.prems" by (subst nat_dec.simps) simp
  next
    case False
    then obtain e where d: "d = Suc e" "0 < e"
      using "1.prems" by (metis One_nat_def not0_implies_Suc not_gr_zero power_one_right)
    then have "n div 10 < 10 ^ e" using "1.prems" by (simp add: less_mult_imp_div_less mult.commute)
    with False "1.IH" d show ?thesis by (subst nat_dec.simps) simp
  qed
qed

subsection \<open>Hexadecimal\<close>

definition hex_digit :: "nat \<Rightarrow> char" where
  "hex_digit n = byte_char (if n < 10 then 48 + n else 87 + n)"

definition is_hex :: "char \<Rightarrow> bool" where
  "is_hex c \<longleftrightarrow> (48 \<le> bv c \<and> bv c \<le> 57) \<or> (97 \<le> bv c \<and> bv c \<le> 102)"

text \<open>\<open>hex.EncodeToString\<close>: two lower-case digits a byte.\<close>

definition hexEncode :: "bytes \<Rightarrow> gostring" where
  "hexEncode bs = concat (map (\<lambda>b. [hex_digit (unat b div 16), hex_digit (unat b mod 16)]) bs)"

lemma is_hex_digit [simp]: "n < 16 \<Longrightarrow> is_hex (hex_digit n)"
  by (auto simp: is_hex_def hex_digit_def)

lemma length_hexEncode [simp]: "length (hexEncode bs) = 2 * length bs"
  by (induction bs) (simp_all add: hexEncode_def)

lemma hexEncode_hex: "list_all is_hex (hexEncode bs)"
proof (induction bs)
  case (Cons b bs)
  have "unat b div 16 < 16" using unat_8_bound [of b] by linarith
  with Cons show ?case by (simp add: hexEncode_def)
qed (simp add: hexEncode_def)

lemma hex_digit_inject: "m < 16 \<Longrightarrow> n < 16 \<Longrightarrow> hex_digit m = hex_digit n \<longleftrightarrow> m = n"
  by (auto simp: hex_digit_def split: if_splits)

lemma hexEncode_inject [simp]: "hexEncode as = hexEncode bs \<longleftrightarrow> as = bs"
proof (induction as arbitrary: bs)
  case Nil
  then show ?case by (cases bs) (simp_all add: hexEncode_def)
next
  case (Cons a as)
  show ?case
  proof (cases bs)
    case (Cons b bs')
    have ab: "unat a div 16 < 16" "unat b div 16 < 16"
      using unat_8_bound [of a] unat_8_bound [of b] by linarith+
    have "a = b \<longleftrightarrow> unat a div 16 = unat b div 16 \<and> unat a mod 16 = unat b mod 16"
      by (metis div_mult_mod_eq unsigned_word_eqI)
    then show ?thesis
      using Cons.IH [of bs'] ab by (simp add: Cons hexEncode_def hex_digit_inject)
  qed (simp add: hexEncode_def)
qed

subsection \<open>White space and fields\<close>

text \<open>\<open>unicode.IsSpace\<close>: the White_Space property.\<close>

definition isSpace :: "nat \<Rightarrow> bool" where
  "isSpace r \<longleftrightarrow> r \<in> {0x09, 0x0A, 0x0B, 0x0C, 0x0D, 0x20, 0x85, 0xA0, 0x1680, 0x2028, 0x2029,
     0x202F, 0x205F, 0x3000} \<or> (0x2000 \<le> r \<and> r \<le> 0x200A)"

text \<open>\<open>unicode.Is(unicode.Cc, r)\<close>: the control characters.\<close>

definition isCc :: "nat \<Rightarrow> bool" where
  "isCc r \<longleftrightarrow> r \<le> 0x1F \<or> (0x7F \<le> r \<and> r \<le> 0x9F)"

definition trim :: "('a \<Rightarrow> bool) \<Rightarrow> 'a list \<Rightarrow> 'a list" where
  "trim P xs = rev (dropWhile P (rev (dropWhile P xs)))"

definition space_piece :: "gostring \<Rightarrow> bool" where
  "space_piece p \<longleftrightarrow> isSpace (fst (decodeRune p))"

definition TrimSpace :: "gostring \<Rightarrow> gostring" where
  "TrimSpace s = concat (trim space_piece (pieces s))"

text \<open>\<open>strings.TrimRight(s, "\\n")\<close>.\<close>

definition trim_right_newlines :: "gostring \<Rightarrow> gostring" where
  "trim_right_newlines s = rev (dropWhile (\<lambda>c. c = newline) (rev s))"

text \<open>\<open>strings.Fields\<close>: the maximal runs of runes that are not space.\<close>

fun fields_of :: "gostring \<Rightarrow> gostring list \<Rightarrow> gostring list" where
  "fields_of cur [] = (if cur = [] then [] else [cur])"
| "fields_of cur (p # ps) =
     (if space_piece p then (if cur = [] then fields_of [] ps else cur # fields_of [] ps)
      else fields_of (cur @ p) ps)"

definition Fields :: "gostring \<Rightarrow> gostring list" where
  "Fields s = fields_of [] (pieces s)"

text \<open>The text after the last occurrence of a byte (\<open>strings.LastIndexByte\<close> and a slice).\<close>

definition after_last :: "char \<Rightarrow> gostring \<Rightarrow> gostring option" where
  "after_last c s = (if c \<in> set s then Some (rev (takeWhile (\<lambda>d. d \<noteq> c) (rev s))) else None)"

text \<open>\<open>strings.Contains(s, sub)\<close>.\<close>

definition Contains :: "gostring \<Rightarrow> gostring \<Rightarrow> bool" where
  "Contains s sub \<longleftrightarrow> sublist sub s"

fun join_with :: "gostring \<Rightarrow> gostring list \<Rightarrow> gostring" where
  "join_with sep [] = []"
| "join_with sep [s] = s"
| "join_with sep (s # ss) = s @ sep @ join_with sep ss"

lemma join_with_Cons: "join_with sep (s # ss) = s @ (if ss = [] then [] else sep @ join_with sep ss)"
  by (cases ss) simp_all

lemma set_trim: "set (trim P xs) \<subseteq> set xs"
  by (auto simp: trim_def dest!: set_dropWhileD)

lemma trim_eq_Nil: "trim P xs = [] \<longleftrightarrow> (\<forall>x\<in>set xs. P x)"
proof
  assume "trim P xs = []"
  then have "\<forall>x\<in>set (dropWhile P xs). P x" by (simp add: trim_def dropWhile_eq_Nil_conv)
  then have "dropWhile P xs = []" by (metis hd_dropWhile hd_in_set)
  then show "\<forall>x\<in>set xs. P x" by (simp add: dropWhile_eq_Nil_conv)
next
  assume "\<forall>x\<in>set xs. P x"
  then have "dropWhile P xs = []" by (simp add: dropWhile_eq_Nil_conv)
  then show "trim P xs = []" unfolding trim_def by (simp only: rev.simps dropWhile.simps)
qed

lemma trim_idem: "trim P (trim P xs) = trim P xs"
proof (cases "trim P xs = []")
  case False
  let ?ys = "dropWhile P xs"
  have "rev (dropWhile P (rev ?ys)) \<noteq> []" using False by (simp add: trim_def)
  moreover have "\<exists>n. rev (dropWhile P (rev ?ys)) = take n ?ys"
    by (metis dropWhile_eq_drop rev_drop rev_rev_ident)
  ultimately have "hd (trim P xs) = hd ?ys" unfolding trim_def by (metis hd_take take_eq_Nil not_gr0)
  moreover have "?ys \<noteq> []" using False unfolding trim_def by (metis dropWhile.simps(1) rev.simps(1))
  ultimately have "\<not> P (hd (trim P xs))" by (simp add: hd_dropWhile)
  then have "dropWhile P (trim P xs) = trim P xs"
    using False by (cases "trim P xs") simp_all
  moreover have "dropWhile P (rev (trim P xs)) = rev (trim P xs)"
    by (simp add: trim_def)
  ultimately show ?thesis by (simp add: trim_def [of P "trim P xs"])
next
  case True
  then show ?thesis by (simp only: True) (simp add: trim_def)
qed

subsection \<open>Slash-separated paths\<close>

abbreviation slash :: char where "slash \<equiv> CHR ''/''"

fun split_on :: "char \<Rightarrow> gostring \<Rightarrow> gostring list" where
  "split_on c [] = [[]]"
| "split_on c (x # xs) =
     (if x = c then [] # split_on c xs
      else (case split_on c xs of h # t \<Rightarrow> (x # h) # t | [] \<Rightarrow> [[x]]))"

definition clean_step :: "bool \<Rightarrow> gostring list \<Rightarrow> gostring \<Rightarrow> gostring list" where
  "clean_step rooted st c =
     (if c = [] \<or> c = ''.'' then st
      else if c = ''..'' then
        (case st of
           t # ts \<Rightarrow> if t \<noteq> ''..'' then ts else if rooted then st else c # st
         | [] \<Rightarrow> if rooted then [] else [c])
      else c # st)"

text \<open>\<open>filepath.Clean\<close>: the shortest path lexically equivalent to the argument.\<close>

definition Clean :: "gostring \<Rightarrow> gostring" where
  "Clean path =
     (if path = [] then ''.''
      else let rooted = (hd path = slash);
               st = foldl (clean_step rooted) [] (split_on slash path);
               body = join_with ''/'' (rev st)
           in if rooted then slash # body else if st = [] then ''.'' else body)"

text \<open>\<open>filepath.Join\<close>: leading empty elements are dropped, the rest joined and cleaned.\<close>

definition path_join :: "gostring list \<Rightarrow> gostring" where
  "path_join elems =
     (case dropWhile (\<lambda>e. e = []) elems of [] \<Rightarrow> [] | es \<Rightarrow> Clean (join_with ''/'' es))"

definition path_base :: "gostring \<Rightarrow> gostring" where
  "path_base path =
     (if path = [] then ''.''
      else let p = rev (dropWhile (\<lambda>c. c = slash) (rev path))
           in if p = [] then ''/'' else rev (takeWhile (\<lambda>c. c \<noteq> slash) (rev p)))"

definition path_dir :: "gostring \<Rightarrow> gostring" where
  "path_dir path = Clean (rev (dropWhile (\<lambda>c. c \<noteq> slash) (rev path)))"

lemma dropWhile_rev_slash:
  assumes "slash \<notin> set name" "name \<noteq> []"
  shows "dropWhile (\<lambda>c. c = slash) (rev name @ xs) = rev name @ xs"
proof (cases "rev name")
  case (Cons c cs)
  then have "c \<in> set name" by (metis list.set_intros(1) set_rev)
  with assms(1) have "c \<noteq> slash" by auto
  then show ?thesis by (simp add: Cons)
qed (use assms in simp)

lemma path_base_join [simp, go_text]:
  assumes "slash \<notin> set name" "name \<noteq> []"
  shows "path_base (dir @ slash # name) = name"
proof -
  have "\<forall>c\<in>set (rev name). c \<noteq> slash" using assms(1) by auto
  then have "takeWhile (\<lambda>c. c \<noteq> slash) (rev name @ slash # rev dir) = rev name"
    by (rule takeWhile_append_stop) simp
  then show ?thesis
    using assms dropWhile_rev_slash [OF assms, of "slash # rev dir"] by (simp add: path_base_def)
qed

lemma path_base_plain [simp, go_text]:
  assumes "slash \<notin> set name" "name \<noteq> []"
  shows "path_base name = name"
proof -
  have "takeWhile (\<lambda>c. c \<noteq> slash) (rev name) = rev name"
    using assms(1) by (auto simp: takeWhile_eq_all_conv)
  with dropWhile_rev_slash [OF assms, of "[]"] show ?thesis
    using assms(2) by (simp add: path_base_def rev_swap)
qed

text \<open>A name that is one component of a path.\<close>

definition plain_name :: "gostring \<Rightarrow> bool" where
  "plain_name name \<longleftrightarrow> slash \<notin> set name \<and> name \<noteq> [] \<and> name \<noteq> ''.'' \<and> name \<noteq> ''..''"

lemma split_on_nonempty [simp]: "split_on c s \<noteq> []"
  by (induction s) (auto split: list.splits)

lemma split_on_append: "split_on c (s @ c # t) = split_on c s @ split_on c t"
  by (induction s) (auto split: list.splits)

lemma split_on_none [simp]: "c \<notin> set s \<Longrightarrow> split_on c s = [s]"
  by (induction s) auto

lemma join_with_snoc: "join_with sep (ss @ [s]) = (if ss = [] then s else join_with sep ss @ sep @ s)"
  by (induction ss) (auto simp: join_with_Cons)

lemma Clean_append_name:
  assumes "plain_name name"
  shows "Clean (dir @ slash # name) = name \<or> (\<exists>d. Clean (dir @ slash # name) = d @ slash # name)"
proof -
  have "foldl (clean_step r) [] (split_on slash (dir @ slash # name))
      = name # foldl (clean_step r) [] (split_on slash dir)" for r
    using assms by (simp add: split_on_append plain_name_def clean_step_def)
  then show ?thesis
    by (auto simp: Clean_def Let_def join_with_snoc)
qed

lemma Clean_name: "plain_name name \<Longrightarrow> Clean name = name"
  by (cases name) (auto simp: Clean_def plain_name_def clean_step_def)

lemma path_base_path_join [simp, go_text]:
  assumes "plain_name name"
  shows "path_base (path_join [dir, name]) = name"
proof -
  have n: "slash \<notin> set name" "name \<noteq> []" using assms by (auto simp: plain_name_def)
  show ?thesis
  proof (cases "dir = []")
    case True
    then show ?thesis using n Clean_name [OF assms] by (simp add: path_join_def)
  next
    case False
    then have "path_join [dir, name] = Clean (dir @ slash # name)" by (simp add: path_join_def)
    then show ?thesis using Clean_append_name [OF assms, of dir] n by auto
  qed
qed

lemma path_join_inject:
  "plain_name a \<Longrightarrow> plain_name b \<Longrightarrow> path_join [dir, a] = path_join [dir', b] \<Longrightarrow> a = b"
  by (metis path_base_path_join)

end
