(* ===== verification/Json.thy ===== *)
theory Json
  imports Go_Text
begin

text \<open>
  Go's \<open>encoding/json\<close>, as far as the two protocols use it: the text \<open>json.Marshal\<close> writes
  (compact, with HTML escaping on), the text \<open>json.Unmarshal\<close> accepts, and the values it
  denotes. A member of an object keeps the text of its value beside the value, because
  \<open>json.RawMessage\<close> fields receive exactly that text.
\<close>

datatype json =
    JNull
  | JBool bool
  | JNum gostring                               \<comment> \<open>the literal as written\<close>
  | JStr gostring                               \<comment> \<open>unquoted\<close>
  | JArr "json list"
  | JObj "(gostring \<times> gostring \<times> json) list"     \<comment> \<open>key, text of the value, value\<close>

subsection \<open>Writing\<close>

text \<open>One byte below 0x80, as \<open>appendString\<close> escapes it.\<close>

definition esc_ascii :: "char \<Rightarrow> gostring" where
  "esc_ascii c =
     (if c = backslash \<or> c = dquote then [backslash, c]
      else if c = CHR 0x08 then [backslash, CHR ''b'']
      else if c = CHR 0x0C then [backslash, CHR ''f'']
      else if c = CHR 0x0A then [backslash, CHR ''n'']
      else if c = CHR 0x0D then [backslash, CHR ''r'']
      else if c = CHR 0x09 then [backslash, CHR ''t'']
      else if bv c < 0x20 \<or> c = CHR ''<'' \<or> c = CHR ''>'' \<or> c = CHR ''&'' then
        [backslash, CHR ''u'', CHR ''0'', CHR ''0'', hex_digit (bv c div 16), hex_digit (bv c mod 16)]
      else [c])"

text \<open>One rune: a failed decoding, U+2028 and U+2029 are escaped, everything else is copied.\<close>

definition esc_piece :: "gostring \<Rightarrow> gostring" where
  "esc_piece p =
     (let (r, n) = decodeRune p in
      if r < 0x80 then esc_ascii (byte_char r)
      else if r = RuneError \<and> n = 1 then [backslash, CHR ''u'', CHR ''f'', CHR ''f'', CHR ''f'', CHR ''d'']
      else if r = 0x2028 \<or> r = 0x2029 then
        [backslash, CHR ''u'', CHR ''2'', CHR ''0'', CHR ''2'', hex_digit (r mod 16)]
      else p)"

definition json_escape :: "gostring \<Rightarrow> gostring" where
  "json_escape s = concat (map esc_piece (pieces s))"

definition json_quote :: "gostring \<Rightarrow> gostring" where
  "json_quote s = dquote # json_escape s @ [dquote]"

fun json_print :: "json \<Rightarrow> gostring" where
  "json_print JNull = ''null''"
| "json_print (JBool b) = (if b then ''true'' else ''false'')"
| "json_print (JNum l) = l"
| "json_print (JStr s) = json_quote s"
| "json_print (JArr vs) = CHR ''['' # join_with '','' (map json_print vs) @ '']''"
| "json_print (JObj ms) =
     CHR ''{'' # join_with '','' (map (\<lambda>(k, _, v). json_quote k @ CHR '':'' # json_print v) ms) @ ''}''"

subsection \<open>Reading\<close>

definition is_ws :: "char \<Rightarrow> bool" where
  "is_ws c \<longleftrightarrow> c = CHR '' '' \<or> c = CHR 0x09 \<or> c = CHR 0x0D \<or> c = CHR 0x0A"

definition skip_ws :: "gostring \<Rightarrow> gostring" where
  "skip_ws = dropWhile is_ws"

definition hex_val :: "char \<Rightarrow> nat option" where
  "hex_val c =
     (if 48 \<le> bv c \<and> bv c \<le> 57 then Some (bv c - 48)
      else if 97 \<le> bv c \<and> bv c \<le> 102 then Some (bv c - 87)
      else if 65 \<le> bv c \<and> bv c \<le> 70 then Some (bv c - 55)
      else None)"

text \<open>\<open>getu4\<close> without its leading \<open>\\u\<close>: four hexadecimal digits.\<close>

fun getu4 :: "gostring \<Rightarrow> (nat \<times> gostring) option" where
  "getu4 (a # b # c # d # t) =
     (case (hex_val a, hex_val b, hex_val c, hex_val d) of
        (Some w, Some x, Some y, Some z) \<Rightarrow> Some (4096 * w + 256 * x + 16 * y + z, t)
      | _ \<Rightarrow> None)"
| "getu4 _ = None"

definition isSurrogate :: "nat \<Rightarrow> bool" where
  "isSurrogate r \<longleftrightarrow> 0xD800 \<le> r \<and> r \<le> 0xDFFF"

text \<open>\<open>utf16.DecodeRune\<close> on a high and a low surrogate; \<open>None\<close> for any other pair.\<close>

definition decodeSurrogates :: "nat \<Rightarrow> nat \<Rightarrow> nat option" where
  "decodeSurrogates r1 r2 =
     (if 0xD800 \<le> r1 \<and> r1 \<le> 0xDBFF \<and> 0xDC00 \<le> r2 \<and> r2 \<le> 0xDFFF
      then Some ((r1 - 0xD800) * 1024 + (r2 - 0xDC00) + 0x10000) else None)"

text \<open>The single-character escapes the scanner accepts.\<close>

definition simple_esc :: "char \<Rightarrow> char option" where
  "simple_esc e =
     (if e = dquote \<or> e = backslash \<or> e = slash then Some e
      else if e = CHR ''b'' then Some (CHR 0x08)
      else if e = CHR ''f'' then Some (CHR 0x0C)
      else if e = CHR ''n'' then Some (CHR 0x0A)
      else if e = CHR ''r'' then Some (CHR 0x0D)
      else if e = CHR ''t'' then Some (CHR 0x09)
      else None)"

text \<open>The text of the second escape of a surrogate pair, if one follows.\<close>

definition low_escape :: "gostring \<Rightarrow> (nat \<times> gostring) option" where
  "low_escape t = (case t of b # u # t' \<Rightarrow> if b = backslash \<and> u = CHR ''u'' then getu4 t' else None
                   | _ \<Rightarrow> None)"

text \<open>A \<open>\\u\<close> escape: a valid surrogate pair is one rune, a lone surrogate is U+FFFD.\<close>

definition unicode_esc :: "gostring \<Rightarrow> (gostring \<times> gostring) option" where
  "unicode_esc t =
     (case getu4 t of
        None \<Rightarrow> None
      | Some (rr, t2) \<Rightarrow>
          if isSurrogate rr then
            (case low_escape t2 of
               Some (rr1, t3) \<Rightarrow>
                 (case decodeSurrogates rr rr1 of
                    Some r \<Rightarrow> Some (encodeRune r, t3)
                  | None \<Rightarrow> Some (encodeRune RuneError, t2))
             | None \<Rightarrow> Some (encodeRune RuneError, t2))
          else Some (encodeRune rr, t2))"

text \<open>
  One character of a string literal: the bytes it stands for and the text after it. The
  closing quote is not a character; a control character or a bad escape is an error.
\<close>

fun str_char :: "gostring \<Rightarrow> (gostring \<times> gostring) option" where
  "str_char [] = None"
| "str_char (c # t) =
     (if c = backslash then
        (case t of
           [] \<Rightarrow> None
         | e # t1 \<Rightarrow>
             if e = CHR ''u'' then unicode_esc t1
             else (case simple_esc e of None \<Rightarrow> None | Some d \<Rightarrow> Some ([d], t1)))
      else if bv c < 0x20 then None
      else (let (r, n) = decodeRune (c # t) in Some (encodeRune r, drop n (c # t))))"

lemma getu4_length: "getu4 s = Some (r, t) \<Longrightarrow> length t < length s"
  by (induction s rule: getu4.induct) (auto split: option.splits)

lemma low_escape_length: "low_escape s = Some (r, t) \<Longrightarrow> length t < length s"
  by (auto simp: low_escape_def split: list.splits if_splits dest: getu4_length)

lemma unicode_esc_length: "unicode_esc s = Some (x, t) \<Longrightarrow> length t < length s"
  by (auto simp: unicode_esc_def split: if_splits option.splits
      dest!: getu4_length low_escape_length)

lemma drop_rune_length: "length (drop (snd (decodeRune (c # t))) (c # t)) < length (c # t)"
  using decodeRune_width_pos [of c t] by (simp del: decodeRune_width_pos)

lemma str_char_length: "str_char s = Some (x, t) \<Longrightarrow> length t < length s"
proof (cases s)
  case (Cons c u)
  assume "str_char s = Some (x, t)"
  then show ?thesis
    using drop_rune_length [of c u] unfolding Cons
    by (auto simp del: length_drop split: if_splits list.splits option.splits prod.splits
        dest!: unicode_esc_length)
qed simp

declare str_char.simps [simp del]

text \<open>A string literal after its opening quote: the value and the text after the closing one.\<close>

function parse_str :: "gostring \<Rightarrow> (gostring \<times> gostring) option" where
  "parse_str s =
     (case s of
        [] \<Rightarrow> None
      | c # t \<Rightarrow>
          if c = dquote then Some ([], t)
          else (case str_char s of
                  None \<Rightarrow> None
                | Some (x, u) \<Rightarrow> map_option (apfst (append x)) (parse_str u)))"
  by pat_completeness auto
termination
  by (relation "measure length") (auto dest: str_char_length)

declare parse_str.simps [simp del]

lemma parse_str_length: "parse_str s = Some (x, t) \<Longrightarrow> length t < length s"
proof (induction s arbitrary: x rule: parse_str.induct)
  case (1 s)
  show ?case
  proof (cases s)
    case Nil
    then show ?thesis using "1.prems" by (simp add: parse_str.simps)
  next
    case (Cons c u)
    have "(if c = dquote then Some ([], u) else case str_char s of None \<Rightarrow> None
        | Some (x, u) \<Rightarrow> map_option (apfst (append x)) (parse_str u)) = Some (x, t)"
      using "1.prems" by (subst (asm) parse_str.simps) (simp add: Cons)
    then show ?thesis using "1.IH" [OF Cons] str_char_length [of s]
      by (fastforce simp: Cons split: if_splits option.splits prod.splits)
  qed
qed

text \<open>A maximal run of digits, and the number literals of the JSON grammar.\<close>

definition num_int :: "gostring \<Rightarrow> (gostring \<times> gostring) option" where
  "num_int s =
     (case s of
        [] \<Rightarrow> None
      | c # t \<Rightarrow>
          if c = CHR ''0'' then Some ([c], t)
          else if is_digit c then Some (takeWhile is_digit s, dropWhile is_digit s)
          else None)"

definition num_digits :: "gostring \<Rightarrow> gostring \<Rightarrow> (gostring \<times> gostring) option" where
  "num_digits pre s =
     (if takeWhile is_digit s = [] then None
      else Some (pre @ takeWhile is_digit s, dropWhile is_digit s))"

definition num_frac :: "gostring \<Rightarrow> (gostring \<times> gostring) option" where
  "num_frac s = (case s of c # t \<Rightarrow> if c = CHR ''.'' then num_digits [c] t else Some ([], s)
                 | [] \<Rightarrow> Some ([], s))"

definition num_exp :: "gostring \<Rightarrow> (gostring \<times> gostring) option" where
  "num_exp s =
     (case s of
        c # t \<Rightarrow>
          if c = CHR ''e'' \<or> c = CHR ''E'' then
            (case t of
               d # u \<Rightarrow> if d = CHR ''+'' \<or> d = CHR ''-'' then num_digits [c, d] u else num_digits [c] t
             | [] \<Rightarrow> None)
          else Some ([], s)
      | [] \<Rightarrow> Some ([], s))"

definition parse_num :: "gostring \<Rightarrow> (gostring \<times> gostring) option" where
  "parse_num s =
     (let (sign, s0) = (case s of c # t \<Rightarrow> if c = CHR ''-'' then ([c], t) else ([], s) | [] \<Rightarrow> ([], s))
      in case num_int s0 of None \<Rightarrow> None
       | Some (i, s1) \<Rightarrow>
           (case num_frac s1 of None \<Rightarrow> None
            | Some (f, s2) \<Rightarrow>
                (case num_exp s2 of None \<Rightarrow> None
                 | Some (e, s3) \<Rightarrow> Some (sign @ i @ f @ e, s3))))"

text \<open>\<open>encoding/json\<close> refuses a text nested deeper than this.\<close>

definition maxNestingDepth :: nat where "maxNestingDepth = 10000"

definition parse_scalar :: "gostring \<Rightarrow> (json \<times> gostring) option" where
  "parse_scalar s =
     (case s of
        [] \<Rightarrow> None
      | c # t \<Rightarrow>
          if c = dquote then map_option (apfst JStr) (parse_str t)
          else if c = CHR ''-'' \<or> is_digit c then map_option (apfst JNum) (parse_num s)
          else (case cut_prefix ''null'' s of
                  Some r \<Rightarrow> Some (JNull, r)
                | None \<Rightarrow>
                    (case cut_prefix ''true'' s of
                       Some r \<Rightarrow> Some (JBool True, r)
                     | None \<Rightarrow> map_option (Pair (JBool False)) (cut_prefix ''false'' s))))"

lemma length_skip_ws: "length (skip_ws s) \<le> length s"
  by (simp add: skip_ws_def length_dropWhile_le)

lemma skip_ws_Cons_length: "skip_ws s = c # t \<Longrightarrow> length t < length s"
  using length_skip_ws [of s] by simp

lemma skip_ws_measure: "length x \<le> n \<Longrightarrow> 2 * length (skip_ws x) < Suc (2 * n)"
  using length_skip_ws [of x] by linarith

text \<open>
  A value, the elements of an array after \<open>[\<close> and the members of an object after \<open>{\<close>
  (neither empty). \<open>d\<close> is the nesting still allowed. The comparison of lengths before the
  next element is always true (\<open>parse_consumes\<close> below): it is there for termination.
\<close>

function parse_value :: "nat \<Rightarrow> gostring \<Rightarrow> (json \<times> gostring) option"
  and parse_elems :: "nat \<Rightarrow> gostring \<Rightarrow> (json list \<times> gostring) option"
  and parse_members :: "nat \<Rightarrow> gostring \<Rightarrow> ((gostring \<times> gostring \<times> json) list \<times> gostring) option"
where
  "parse_value d s0 =
     (case skip_ws s0 of
        [] \<Rightarrow> None
      | c # t \<Rightarrow>
          if c = CHR ''['' then
            (if d = 0 then None
             else case skip_ws t of
                    [] \<Rightarrow> None
                  | e # u \<Rightarrow> if e = CHR '']'' then Some (JArr [], u)
                             else map_option (apfst JArr) (parse_elems (d - 1) t))
          else if c = CHR ''{'' then
            (if d = 0 then None
             else case skip_ws t of
                    [] \<Rightarrow> None
                  | e # u \<Rightarrow> if e = CHR ''}'' then Some (JObj [], u)
                             else map_option (apfst JObj) (parse_members (d - 1) t))
          else parse_scalar (c # t))"
| "parse_elems d s =
     (case parse_value d s of
        None \<Rightarrow> None
      | Some (v, u) \<Rightarrow>
          (case skip_ws u of
             [] \<Rightarrow> None
           | e # t \<Rightarrow>
               if e = CHR '']'' then Some ([v], t)
               else if e = CHR '','' \<and> length t < length s
               then map_option (apfst (Cons v)) (parse_elems d t)
               else None))"
| "parse_members d s =
     (case skip_ws s of
        [] \<Rightarrow> None
      | q # s1 \<Rightarrow>
          if q \<noteq> dquote then None
          else case parse_str s1 of
            None \<Rightarrow> None
          | Some (k, s2) \<Rightarrow>
              (case skip_ws s2 of
                 [] \<Rightarrow> None
               | e # s3 \<Rightarrow>
                   if e \<noteq> CHR '':'' then None
                   else case parse_value d (skip_ws s3) of
                     None \<Rightarrow> None
                   | Some (v, u) \<Rightarrow>
                       (let raw = take (length (skip_ws s3) - length u) (skip_ws s3) in
                        case skip_ws u of
                          [] \<Rightarrow> None
                        | f # t \<Rightarrow>
                            if f = CHR ''}'' then Some ([(k, raw, v)], t)
                            else if f = CHR '','' \<and> length t < length s
                            then map_option (apfst (Cons (k, raw, v))) (parse_members d t)
                            else None)))"
  by pat_completeness auto

termination
proof (relation "measure (\<lambda>x. case x of Inl (d, s) \<Rightarrow> 2 * length s
    | Inr (Inl (d, s)) \<Rightarrow> 2 * length s + 1 | Inr (Inr (d, s)) \<Rightarrow> 2 * length s + 1)", goal_cases)
qed (auto intro!: skip_ws_measure dest!: skip_ws_Cons_length parse_str_length)

text \<open>\<open>json.Unmarshal\<close> first checks that the whole text is one value.\<close>

definition json_parse :: "gostring \<Rightarrow> json option" where
  "json_parse s =
     (case parse_value maxNestingDepth s of
        Some (v, r) \<Rightarrow> if skip_ws r = [] then Some v else None
      | None \<Rightarrow> None)"

declare parse_value.simps [simp del] parse_elems.simps [simp del] parse_members.simps [simp del]

subsection \<open>String literals round-trip\<close>

lemma hex_val_hex_digit [simp, json_simps]: "n < 16 \<Longrightarrow> hex_val (hex_digit n) = Some n"
  by (auto simp: hex_val_def hex_digit_def)

lemma esc_ascii_shape:
  "esc_ascii c = [c] \<and> c \<noteq> dquote \<and> c \<noteq> backslash \<and> 0x20 \<le> bv c \<or>
   (\<exists>t. esc_ascii c = backslash # t)"
  by (auto simp: esc_ascii_def)

lemma str_char_esc_ascii:
  assumes "bv c < 0x80"
  shows "str_char (esc_ascii c @ rest) = Some ([c], rest)"
proof (cases "bv c < 0x20 \<or> c = CHR ''<'' \<or> c = CHR ''>'' \<or> c = CHR ''&''")
  case True
  have hv: "hex_val (hex_digit (bv c div 16)) = Some (bv c div 16)"
      "hex_val (hex_digit (bv c mod 16)) = Some (bv c mod 16)"
    using assms by (auto intro!: hex_val_hex_digit)
  have z: "hex_val (CHR ''0'') = Some 0" by (simp add: hex_val_def)
  have "unicode_esc (CHR ''0'' # CHR ''0'' # hex_digit (bv c div 16) # hex_digit (bv c mod 16) # rest)
      = Some ([c], rest)"
    using assms by (simp add: unicode_esc_def hv z isSurrogate_def encodeRune_ascii)
  with True show ?thesis
    by (auto simp: esc_ascii_def str_char.simps simple_esc_def)
next
  case False
  then show ?thesis
    using assms by (auto simp: esc_ascii_def str_char.simps simple_esc_def encodeRune_ascii)
qed

text \<open>One escaped rune is read as that rune.\<close>

lemma str_char_esc_piece:
  assumes "s \<noteq> []" "decodeRune s = (r, n)"
  shows "str_char (esc_piece (take n s) @ rest) = Some (encodeRune r, rest)"
    and "\<exists>c t. esc_piece (take n s) = c # t \<and> c \<noteq> dquote"
proof -
  have d: "decodeRune (take n s) = (r, n)" by (rule decodeRune_take [OF assms])
  consider "r < 0x80" | "0x80 \<le> r" "r = RuneError" "n = 1" | "r = 0x2028 \<or> r = 0x2029"
    | "0x80 \<le> r" "\<not> (r = RuneError \<and> n = 1)" "r \<noteq> 0x2028" "r \<noteq> 0x2029" by linarith
  then have "str_char (esc_piece (take n s) @ rest) = Some (encodeRune r, rest) \<and>
    (\<exists>c t. esc_piece (take n s) = c # t \<and> c \<noteq> dquote)"
  proof cases
    case 1
    then have "esc_piece (take n s) = esc_ascii (byte_char r)" by (simp add: esc_piece_def d)
    moreover have "byte_char r \<noteq> dquote \<or> esc_ascii (byte_char r) = [backslash, byte_char r]"
      by (auto simp: esc_ascii_def)
    ultimately show ?thesis
      using 1 str_char_esc_ascii [of "byte_char r" rest] esc_ascii_shape [of "byte_char r"]
      by (auto simp: encodeRune_ascii)
  next
    case 2
    then have "esc_piece (take n s) =
        [backslash, CHR ''u'', CHR ''f'', CHR ''f'', CHR ''f'', CHR ''d'']"
      unfolding esc_piece_def d by (simp add: RuneError_def)
    with 2 show ?thesis
      by (simp add: str_char.simps unicode_esc_def hex_val_def isSurrogate_def RuneError_def)
  next
    case 3
    then have e: "esc_piece (take n s) =
        [backslash, CHR ''u'', CHR ''2'', CHR ''0'', CHR ''2'', hex_digit (r mod 16)]"
      unfolding esc_piece_def d by (auto simp: RuneError_def)
    have hv: "hex_val (CHR ''2'') = Some 2" "hex_val (CHR ''0'') = Some 0"
        "hex_val (hex_digit (r mod 16)) = Some (r mod 16)"
      by (simp_all add: hex_val_def [of "CHR ''2''"] hex_val_def [of "CHR ''0''"])
    from 3 have r: "8224 + r mod 16 = r" "\<not> isSurrogate r"
      by (auto simp: isSurrogate_def)
    show ?thesis
      unfolding e by (simp add: str_char.simps unicode_esc_def hv r)
  next
    case 4
    have e: "esc_piece (take n s) = take n s" using 4 by (auto simp: esc_piece_def d)
    have v: "validRune r" "take n s = encodeRune r"
      using decodeRune_encoded [OF assms(2,1)] 4(2) by auto
    then obtain c t where ct: "take n s = c # t" by (cases "encodeRune r") auto
    then have hi: "0x80 \<le> bv c" using encodeRune_high [OF 4(1)] v by (metis list.set_intros(1))
    then have "c \<noteq> dquote" "c \<noteq> backslash" "\<not> bv c < 0x20" by auto
    moreover have er: "encodeRune r = c # t" using v ct by simp
    moreover have "decodeRune (c # t @ rest) = (r, length (encodeRune r))"
      using decode_encode [OF v(1), of rest] er by simp
    ultimately have "str_char (c # t @ rest) = Some (encodeRune r, rest)"
      by (simp add: str_char.simps)
    then show ?thesis using ct e er \<open>c \<noteq> dquote\<close> by simp
  qed
  then show "str_char (esc_piece (take n s) @ rest) = Some (encodeRune r, rest)"
    and "\<exists>c t. esc_piece (take n s) = c # t \<and> c \<noteq> dquote" by auto
qed

lemma json_escape_step:
  "s \<noteq> [] \<Longrightarrow> json_escape s = esc_piece (take (snd (decodeRune s)) s) @ json_escape (drop (snd (decodeRune s)) s)"
  by (simp add: json_escape_def pieces_step)

lemma toValid_step:
  "s \<noteq> [] \<Longrightarrow> toValid s = encodeRune (fst (decodeRune s)) @ toValid (drop (snd (decodeRune s)) s)"
  by (simp add: toValid_def runes_Cons)

lemma parse_str_char:
  assumes "str_char (x @ s) = Some (y, s)" "x = c # t" "c \<noteq> dquote"
  shows "parse_str (x @ s) = map_option (apfst (append y)) (parse_str s)"
  using assms by (subst parse_str.simps) simp

text \<open>What \<open>Marshal\<close> writes for a string, \<open>Unmarshal\<close> reads back, up to invalid UTF-8.\<close>

lemma parse_str_escape [simp, json_simps]:
  "parse_str (json_escape s @ dquote # rest) = Some (toValid s, rest)"
proof (induction s rule: rune_induct)
  case Nil
  show ?case by (simp add: json_escape_def toValid_def parse_str.simps)
next
  case (Rune s)
  let ?d = "decodeRune s" and ?t = "drop (snd (decodeRune s)) s"
  note step = str_char_esc_piece(1) [OF Rune(1) prod.collapse [symmetric],
      where rest = "json_escape ?t @ dquote # rest"]
  from str_char_esc_piece(2) [OF Rune(1) prod.collapse [symmetric]]
  obtain c u where "esc_piece (take (snd ?d) s) = c # u" "c \<noteq> dquote" by blast
  from parse_str_char [OF step this] Rune show ?case
    by (simp add: json_escape_step toValid_step)
qed

lemma toValid_id [simp]: "validString s \<Longrightarrow> toValid s = s"
  by (simp add: validString_def)

subsection \<open>How far escaping can inflate a string\<close>

text \<open>At most six bytes for one, the bound the size limits of \<open>deliver\<close> are built on.\<close>

lemma length_esc_piece:
  assumes "p \<noteq> []"
  shows "length (esc_piece p) \<le> 6 * length p"
proof -
  have "1 \<le> length p" using assms by (cases p) auto
  moreover have "length (esc_piece p) \<le> max 6 (length p)"
    by (auto simp: esc_piece_def esc_ascii_def split: prod.splits)
  ultimately show ?thesis by simp
qed

lemma length_json_escape: "length (json_escape s) \<le> 6 * length s"
proof -
  have "length (concat (map esc_piece (pieces s))) \<le> 6 * sum_list (map length (pieces s))"
    by (rule concat_map_bound) (simp add: length_esc_piece pieces_nonempty)
  also have "sum_list (map length (pieces s)) = length s"
    by (simp flip: length_concat)
  finally show ?thesis by (simp add: json_escape_def)
qed

lemma length_json_quote: "length (json_quote s) \<le> 6 * length s + 2"
  using length_json_escape [of s] by (simp add: json_quote_def)

subsection \<open>A printed value is one line\<close>

definition line_byte :: "char \<Rightarrow> bool" where
  "line_byte c \<longleftrightarrow> 0x20 \<le> bv c"

lemma line_byte_newline [simp]: "\<not> line_byte newline"
  by (simp add: line_byte_def)

lemma line_byte_punct [simp]:
  "line_byte (CHR ''{'')" "line_byte (CHR ''}'')" "line_byte (CHR ''['')" "line_byte (CHR '']'')"
  "line_byte (CHR '','')" "line_byte (CHR '':'')" "line_byte dquote" "line_byte backslash"
  "line_byte (CHR ''u'')" "line_byte (CHR ''0'')" "line_byte (CHR ''2'')"
  "line_byte (CHR ''f'')" "line_byte (CHR ''d'')"
  by (simp_all add: line_byte_def)

lemma hex_digit_line [simp]: "line_byte (hex_digit n)" if "n < 16" for n
  using that by (auto simp: line_byte_def hex_digit_def)

lemma esc_piece_line:
  assumes "p \<in> set (pieces s)"
  shows "list_all line_byte (esc_piece p)"
proof -
  have "\<exists>t. t \<noteq> [] \<and> p = take (snd (decodeRune t)) t"
    using assms
  proof (induction s rule: rune_induct)
    case (Rune s)
    then show ?case by (auto simp: pieces_step)
  qed simp
  then obtain t where t: "t \<noteq> []" "p = take (snd (decodeRune t)) t" by blast
  obtain r n where rn: "decodeRune t = (r, n)" by fastforce
  have d: "decodeRune p = (r, n)" using decodeRune_take [OF t(1) rn] t(2) rn by simp
  show ?thesis
  proof (cases "0x80 \<le> r \<and> \<not> (r = RuneError \<and> n = 1)")
    case True
    then have "p = encodeRune r" using decodeRune_encoded [OF rn t(1)] t rn by auto
    then have "\<forall>c\<in>set p. 0x80 \<le> bv c" using encodeRune_high True by metis
    then have "list_all line_byte p" by (force simp: list_all_iff line_byte_def)
    moreover have "list_all line_byte [backslash, CHR ''u'', CHR ''2'', CHR ''0'', CHR ''2'', hex_digit (r mod 16)]"
      by simp
    ultimately show ?thesis using True by (simp add: esc_piece_def d)
  next
    case False
    then show ?thesis
      by (auto simp: esc_piece_def d esc_ascii_def RuneError_def)
        (auto simp: line_byte_def hex_digit_def)
  qed
qed

lemma json_quote_line: "list_all line_byte (json_quote s)"
  using esc_piece_line [of _ s]
  by (auto simp: json_quote_def json_escape_def list_all_iff line_byte_def)

text \<open>The values this program prints: their numbers are integer literals.\<close>

fun printable :: "json \<Rightarrow> bool" where
  "printable (JNum l) \<longleftrightarrow> (\<exists>i. l = itoa i)"
| "printable (JArr vs) \<longleftrightarrow> (\<forall>v\<in>set vs. printable v)"
| "printable (JObj ms) \<longleftrightarrow> (\<forall>m\<in>set ms. printable (snd (snd m)))"
| "printable _ \<longleftrightarrow> True"

lemma itoa_line: "list_all line_byte (itoa i)"
  using nat_dec_digits [of "nat i"] nat_dec_digits [of "nat (- i)"]
  by (auto simp: itoa_def list_all_iff is_digit_def line_byte_def)

lemma list_all_join: "list_all P sep \<Longrightarrow> \<forall>s\<in>set ss. list_all P s \<Longrightarrow> list_all P (join_with sep ss)"
  by (induction sep ss rule: join_with.induct) auto

lemma json_print_line: "printable v \<Longrightarrow> list_all line_byte (json_print v)"
proof (induction v)
  case (JObj ms)
  have "list_all line_byte (join_with '','' (map (\<lambda>(k, _, v). json_quote k @ CHR '':'' # json_print v) ms))"
    using JObj json_quote_line by (intro list_all_join) fastforce+
  then show ?case by simp
next
  case (JArr vs)
  then have "list_all line_byte (join_with '','' (map json_print vs))"
    by (intro list_all_join) auto
  then show ?case by simp
next
  case (JBool b)
  show ?case by (simp add: line_byte_def)
next
  case JNull
  show ?case by (simp add: line_byte_def)
qed (use json_quote_line itoa_line in auto)

lemma json_print_no_newline: "printable v \<Longrightarrow> newline \<notin> set (json_print v)"
  using json_print_line [of v] by (auto simp: list_all_iff)

subsection \<open>Values round-trip\<close>

text \<open>Reading always consumes text, so the length test in the parser never fails.\<close>

lemma num_digits_length: "num_digits p s = Some (x, t) \<Longrightarrow> length t \<le> length s"
  by (auto simp: num_digits_def length_dropWhile_le split: if_splits)

lemma parse_num_length:
  assumes "parse_num s = Some (x, t)"
  shows "length t < length s"
proof -
  have i: "length u < length w" if "num_int w = Some (y, u)" for w y u
    using that length_dropWhile_le [of is_digit]
    by (auto simp: num_int_def le_imp_less_Suc split: list.splits if_splits)
  have f: "length u \<le> length w" if "num_frac w = Some (y, u)" for w y u
    using that by (auto simp: num_frac_def split: list.splits if_splits dest!: num_digits_length)
  have e: "length u \<le> length w" if "num_exp w = Some (y, u)" for w y u
    using that by (auto simp: num_exp_def split: list.splits if_splits dest!: num_digits_length)
  show ?thesis
    using assms by (auto simp: parse_num_def Let_def split: option.splits list.splits if_splits dest!: i f e)
qed

lemma parse_scalar_length: "parse_scalar s = Some (v, t) \<Longrightarrow> length t < length s"
  by (auto simp: parse_scalar_def split: list.splits if_splits option.splits
      dest!: parse_str_length parse_num_length)

lemma parse_consumes:
  shows "parse_value d s = Some (v, t) \<Longrightarrow> length t < length s"
    and "parse_elems d s = Some (vs, t) \<Longrightarrow> length t < length s"
    and "parse_members d s = Some (ms, t) \<Longrightarrow> length t < length s"
proof (induction d s and d s and d s arbitrary: v t and vs t and ms t
    rule: parse_value_parse_elems_parse_members.induct)
  case (1 d s0)
  note prem = "1.prems" [unfolded parse_value.simps [of d s0]]
  then obtain c t' where st: "skip_ws s0 = c # t'" by (auto split: list.splits)
  have "length t' < length s0" using skip_ws_Cons_length [OF st] .
  with prem "1.IH" [OF st] show ?case
    by (fastforce simp: st split: list.splits if_splits dest: skip_ws_Cons_length parse_scalar_length)
next
  case (2 d s)
  note prem = "2.prems" [unfolded parse_elems.simps [of d s]]
  then obtain v u where vu: "parse_value d s = Some (v, u)" by (auto split: option.splits)
  with prem obtain e t' where st: "skip_ws u = e # t'" by (auto split: list.splits)
  have "length t' < length s" using "2.IH"(1) [OF vu] skip_ws_Cons_length [OF st] by simp
  with prem "2.IH"(2) [OF vu refl st] show ?case
    by (fastforce simp: st vu split: if_splits)
next
  case (3 d s)
  note prem = "3.prems" [unfolded parse_members.simps [of d s] Let_def]
  then obtain s1 where s1: "skip_ws s = dquote # s1" by (auto split: list.splits if_splits)
  with prem obtain k s2 where s2: "parse_str s1 = Some (k, s2)" by (auto split: option.splits)
  with prem s1 obtain s3 where s3: "skip_ws s2 = CHR '':'' # s3" by (auto split: list.splits if_splits)
  with prem s1 s2 obtain v u where vu: "parse_value d (skip_ws s3) = Some (v, u)"
    by (auto split: option.splits)
  with prem s1 s2 s3 obtain f t' where st: "skip_ws u = f # t'" by (auto split: list.splits)
  have "length u < length (skip_ws s3)"
    using "3.IH"(1) [OF s1 _ s2 refl s3 _ vu] by simp
  then have len: "length t' < length s"
    using skip_ws_Cons_length [OF s1] parse_str_length [OF s2] skip_ws_Cons_length [OF s3]
      skip_ws_Cons_length [OF st] length_skip_ws [of s3] by linarith
  have "length t < length t'" if "f = CHR '',''" "parse_members d t' = Some (ms', t)" for ms'
    using "3.IH"(2) [OF s1 _ s2 refl s3 _ vu refl refl st] that len by simp
  with prem len show ?case
    by (fastforce simp: s1 s2 s3 vu st split: if_splits)
qed

text \<open>
  Text that cannot continue a number literal; what follows a value in printed JSON is such.
\<close>

definition delim :: "gostring \<Rightarrow> bool" where
  "delim s \<longleftrightarrow> (case s of [] \<Rightarrow> True
     | c # _ \<Rightarrow> \<not> is_digit c \<and> c \<noteq> CHR ''.'' \<and> c \<noteq> CHR ''e'' \<and> c \<noteq> CHR ''E'')"

lemma delim_simps [simp]:
  "delim []" "delim (CHR '','' # s)" "delim (CHR '']'' # s)" "delim (CHR ''}'' # s)"
  by (simp_all add: delim_def is_digit_def)

lemma hd_nat_dec_nonzero: "0 < n \<Longrightarrow> hd (nat_dec n) \<noteq> CHR ''0''"
proof (induction n rule: nat_dec.induct)
  case (1 n)
  then show ?case
    by (subst nat_dec.simps) (auto simp: byte_char_eq_iff div_greater_zero_iff)
qed

lemma num_int_nat_dec:
  assumes "delim rest"
  shows "num_int (nat_dec n @ rest) = Some (nat_dec n, rest)"
proof (cases "n = 0")
  case True
  then have "nat_dec n = ''0''" by (subst nat_dec.simps) (simp add: byte_char_eq_iff)
  then show ?thesis by (simp add: num_int_def)
next
  case False
  then have nz: "hd (nat_dec n) \<noteq> CHR ''0''" by (simp add: hd_nat_dec_nonzero)
  have all: "\<forall>c\<in>set (nat_dec n). is_digit c" using nat_dec_digits [of n] by (simp add: list_all_iff)
  have "takeWhile is_digit rest = []" "dropWhile is_digit rest = rest"
    using assms by (auto simp: delim_def split: list.splits)
  then have "takeWhile is_digit (nat_dec n @ rest) = nat_dec n" "dropWhile is_digit (nat_dec n @ rest) = rest"
    using all by (simp_all add: takeWhile_append2 dropWhile_append2)
  then show ?thesis
    using nz all by (cases "nat_dec n") (auto simp: num_int_def)
qed

lemma num_tail:
  assumes "delim rest"
  shows "num_frac rest = Some ([], rest)" and "num_exp rest = Some ([], rest)"
  using assms by (auto simp: num_frac_def num_exp_def delim_def split: list.splits)

lemma parse_num_itoa [simp, json_simps]: "delim rest \<Longrightarrow> parse_num (itoa i @ rest) = Some (itoa i, rest)"
proof (cases "i < 0")
  case False
  assume d: "delim rest"
  have "is_digit (hd (nat_dec (nat i)))" by (rule hd_nat_dec)
  moreover obtain c t where ct: "nat_dec (nat i) = c # t" by (cases "nat_dec (nat i)") auto
  ultimately have "c \<noteq> CHR ''-''" by (auto simp: is_digit_def)
  from num_int_nat_dec [OF d, of "nat i"] show ?thesis
    using False \<open>c \<noteq> CHR ''-''\<close> by (simp add: parse_num_def itoa_def ct num_tail [OF d])
qed (simp add: parse_num_def itoa_def num_int_nat_dec num_tail)

text \<open>What a printed value reads back as: the same value, with invalid UTF-8 replaced and
  each member's text filled in.\<close>

fun jnorm :: "json \<Rightarrow> json" where
  "jnorm (JStr s) = JStr (toValid s)"
| "jnorm (JArr vs) = JArr (map jnorm vs)"
| "jnorm (JObj ms) = JObj (map (\<lambda>(k, _, v). (toValid k, json_print v, jnorm v)) ms)"
| "jnorm v = v"

fun jdepth :: "json \<Rightarrow> nat" where
  "jdepth (JArr vs) = Suc (Max (insert 0 (set (map jdepth vs))))"
| "jdepth (JObj ms) = Suc (Max (insert 0 (set (map (\<lambda>(_, _, v). jdepth v) ms))))"
| "jdepth _ = 0"

lemma skip_ws_stop [simp]: "\<not> is_ws c \<Longrightarrow> skip_ws (c # s) = c # s"
  by (simp add: skip_ws_def)

lemma not_ws [simp]:
  "\<not> is_ws dquote" "\<not> is_ws (CHR ''['')" "\<not> is_ws (CHR ''{'')" "\<not> is_ws (CHR '','')"
  "\<not> is_ws (CHR '']'')" "\<not> is_ws (CHR ''}'')" "\<not> is_ws (CHR '':'')"
  by (simp_all add: is_ws_def)

lemma hd_itoa: "\<exists>c t. itoa i = c # t \<and> (c = CHR ''-'' \<or> is_digit c)"
  using hd_nat_dec [of "nat i"] by (cases "nat_dec (nat i)") (auto simp: itoa_def)

text \<open>The first byte of a printed value: never white space nor a closing bracket.\<close>

lemma hd_json_print:
  assumes "printable v"
  obtains c t where "json_print v = c # t" "\<not> is_ws c" "c \<noteq> CHR '']''" "c \<noteq> CHR ''}''"
proof (cases v)
  case (JNum l)
  with assms obtain i where "l = itoa i" by auto
  with hd_itoa [of i] JNum that show thesis by (fastforce simp: is_digit_def is_ws_def)
next
  case (JBool b)
  with that show thesis by (cases b) (auto simp: is_ws_def)
qed (use that in \<open>auto simp: json_quote_def is_ws_def\<close>)

lemma skip_ws_print [simp]: "printable v \<Longrightarrow> skip_ws (json_print v @ r) = json_print v @ r"
  by (rule hd_json_print [of v]) auto

text \<open>Scalars.\<close>

lemma parse_scalar_print:
  assumes "printable v" "delim rest" "\<nexists>vs. v = JArr vs" "\<nexists>ms. v = JObj ms"
  shows "parse_value d (json_print v @ rest) = Some (jnorm v, rest)"
proof (cases v)
  case (JNum l)
  with assms obtain i where l: "l = itoa i" by auto
  with hd_itoa [of i] obtain c t where ct: "itoa i = c # t" "c = CHR ''-'' \<or> is_digit c" by auto
  then have ne: "c \<noteq> dquote" "c \<noteq> CHR ''[''" "c \<noteq> CHR ''{''" "\<not> is_ws c"
    by (auto simp: is_digit_def is_ws_def)
  have "parse_scalar (itoa i @ rest) = Some (JNum (itoa i), rest)"
    using ct(2) ne parse_num_itoa [OF assms(2), of i] by (simp add: parse_scalar_def ct(1))
  then show ?thesis using ne by (simp add: JNum l parse_value.simps ct(1))
next
  case (JBool b)
  then show ?thesis
    by (cases b) (simp_all add: parse_value.simps parse_scalar_def is_ws_def is_digit_def)
qed (use assms in \<open>simp_all add: parse_value.simps parse_scalar_def json_quote_def is_ws_def is_digit_def\<close>)

text \<open>Arrays and objects: the separators and brackets, element by element.\<close>

lemma parse_elems_print:
  assumes "\<And>v rest. v \<in> set vs \<Longrightarrow> delim rest \<Longrightarrow> parse_value d (json_print v @ rest) = Some (jnorm v, rest)"
    and "vs \<noteq> []"
  shows "parse_elems d (join_with '','' (map json_print vs) @ CHR '']'' # rest) = Some (map jnorm vs, rest)"
  using assms
proof (induction vs rule: induct_list012)
  case (2 v)
  then show ?case by (subst parse_elems.simps) simp
next
  case (3 v w vs)
  let ?tl = "join_with '','' (map json_print (w # vs)) @ CHR '']'' # rest"
  have "parse_elems d ?tl = Some (map jnorm (w # vs), rest)" using 3 by simp
  moreover have "parse_value d (json_print v @ CHR '','' # ?tl) = Some (jnorm v, CHR '','' # ?tl)"
    using 3 by simp
  ultimately show ?case by (subst parse_elems.simps) simp
qed simp

definition member_text :: "gostring \<times> gostring \<times> json \<Rightarrow> gostring" where
  "member_text m = (case m of (k, _, v) \<Rightarrow> json_quote k @ CHR '':'' # json_print v)"

lemma parse_members_print:
  assumes "\<And>m rest. m \<in> set ms \<Longrightarrow> delim rest \<Longrightarrow>
      parse_value d (json_print (snd (snd m)) @ rest) = Some (jnorm (snd (snd m)), rest)"
    and "\<forall>m\<in>set ms. printable (snd (snd m))" and "ms \<noteq> []"
  shows "parse_members d (join_with '','' (map member_text ms) @ CHR ''}'' # rest)
    = Some (map (\<lambda>(k, _, v). (toValid k, json_print v, jnorm v)) ms, rest)"
  using assms
proof (induction ms rule: induct_list012)
  case (2 m)
  then show ?case
    by (cases m) (subst parse_members.simps, simp add: member_text_def json_quote_def)
next
  case (3 m n ms)
  obtain k r v where m: "m = (k, r, v)" by (cases m)
  let ?tl = "join_with '','' (map member_text (n # ms)) @ CHR ''}'' # rest"
  have "parse_members d ?tl
      = Some (map (\<lambda>(k, _, v). (toValid k, json_print v, jnorm v)) (n # ms), rest)" using 3 by simp
  moreover have "parse_value d (json_print v @ CHR '','' # ?tl) = Some (jnorm v, CHR '','' # ?tl)"
    using 3(3) [of m "CHR '','' # ?tl"] by (simp add: m)
  ultimately show ?case
    using 3(4) by (subst parse_members.simps) (simp add: m member_text_def json_quote_def)
qed simp

lemma jdepth_less:
  "v \<in> set vs \<Longrightarrow> jdepth (JArr vs) \<le> Suc d \<Longrightarrow> jdepth v \<le> d"
  "m \<in> set ms \<Longrightarrow> jdepth (JObj ms) \<le> Suc d \<Longrightarrow> jdepth (snd (snd m)) \<le> d"
  by (auto simp: split_beta)

lemma jdepth_JObj_le: "\<forall>m\<in>set ms. jdepth (snd (snd m)) \<le> n \<Longrightarrow> jdepth (JObj ms) \<le> Suc n"
  by (auto simp: split_beta)

lemma parse_print:
  "printable v \<Longrightarrow> jdepth v \<le> d \<Longrightarrow> delim rest \<Longrightarrow>
    parse_value d (json_print v @ rest) = Some (jnorm v, rest)"
proof (induction v arbitrary: d rest)
  case (JArr vs)
  from JArr.prems obtain e where d: "d = Suc e" by (cases d) auto
  show ?case
  proof (cases "vs = []")
    case True
    then show ?thesis by (simp add: d parse_value.simps)
  next
    case False
    then obtain x xs where vs: "vs = x # xs" by (cases vs) auto
    with JArr.prems have "printable x" by simp
    then obtain c t where "json_print x = c # t" "\<not> is_ws c" "c \<noteq> CHR '']''"
      by (rule hd_json_print)
    then obtain t where ct: "join_with '','' (map json_print vs) @ CHR '']'' # rest = c # t"
        "\<not> is_ws c" "c \<noteq> CHR '']''"
      by (simp add: vs join_with_Cons)
    have "parse_elems e (c # t) = Some (map jnorm vs, rest)"
      unfolding ct(1) [symmetric]
      by (rule parse_elems_print) (use JArr False d jdepth_less(1) in \<open>auto simp del: jdepth.simps\<close>)
    then show ?thesis using ct by (subst parse_value.simps) (simp add: d)
  qed
next
  case (JObj ms)
  from JObj.prems obtain e where d: "d = Suc e" by (cases d) auto
  have mt: "map (\<lambda>(k, _, v). json_quote k @ CHR '':'' # json_print v) ms = map member_text ms"
    by (simp add: member_text_def)
  show ?case
  proof (cases "ms = []")
    case True
    then show ?thesis by (simp add: d parse_value.simps)
  next
    case False
    then obtain t where ct: "join_with '','' (map member_text ms) @ CHR ''}'' # rest = dquote # t"
      by (cases ms) (auto simp: join_with_Cons member_text_def json_quote_def)
    have "parse_members e (dquote # t)
        = Some (map (\<lambda>(k, _, v). (toValid k, json_print v, jnorm v)) ms, rest)"
      unfolding ct [symmetric]
      by (rule parse_members_print)
        (use JObj False d jdepth_less(2) in \<open>auto simp del: jdepth.simps\<close>)
    then show ?thesis using ct by (subst parse_value.simps) (simp add: d mt)
  qed
qed (rule parse_scalar_print; simp)+

text \<open>\<open>Unmarshal\<close> of what \<open>Marshal\<close> wrote.\<close>

lemma json_parse_print:
  assumes "printable v" "jdepth v \<le> maxNestingDepth"
  shows "json_parse (json_print v) = Some (jnorm v)"
  using parse_print [OF assms, of "[]"] by (simp add: json_parse_def skip_ws_def)

subsection \<open>Decoding into a struct\<close>

text \<open>
  A key names a field if it is the field's name, or equal to it under the case folding of
  \<open>encoding/json\<close> (\<open>foldName\<close>: ASCII letters, U+017F for S and U+212A for K; no other rune
  folds to a letter of a field name). The names of one struct stay distinct under folding.
\<close>

definition foldRune :: "nat \<Rightarrow> nat" where
  "foldRune r = (if 97 \<le> r \<and> r \<le> 122 then r - 32 else if r = 0x17F then 83
                 else if r = 0x212A then 75 else r)"

definition foldName :: "gostring \<Rightarrow> nat list" where
  "foldName k = map foldRune (runes k)"

text \<open>
  Storing one value: \<open>null\<close> leaves the field alone, a value of another type is an error
  (\<open>None\<close>). The decoder goes on after a type error, but \<open>Unmarshal\<close> then returns it.
\<close>

definition dec_str :: "gostring \<Rightarrow> json \<Rightarrow> gostring option" where
  "dec_str cur v = (case v of JStr s \<Rightarrow> Some s | JNull \<Rightarrow> Some cur | _ \<Rightarrow> None)"

definition dec_int :: "int \<Rightarrow> json \<Rightarrow> int option" where
  "dec_int cur v = (case v of JNum l \<Rightarrow> atoi l | JNull \<Rightarrow> Some cur | _ \<Rightarrow> None)"

type_synonym 'a field_decoder = "'a \<Rightarrow> gostring \<times> gostring \<times> json \<Rightarrow> 'a option"

text \<open>The members are stored in the order of the text, so a repeated key overwrites.\<close>

fun dec_members :: "'a field_decoder \<Rightarrow> 'a \<Rightarrow> (gostring \<times> gostring \<times> json) list \<Rightarrow> 'a option" where
  "dec_members f a [] = Some a"
| "dec_members f a (m # ms) = (case f a m of None \<Rightarrow> None | Some b \<Rightarrow> dec_members f b ms)"

definition dec_struct :: "'a field_decoder \<Rightarrow> 'a \<Rightarrow> json \<Rightarrow> 'a option" where
  "dec_struct f a v = (case v of JObj ms \<Rightarrow> dec_members f a ms | JNull \<Rightarrow> Some a | _ \<Rightarrow> None)"

text \<open>A member to be printed; its text is what \<open>json_print\<close> gives.\<close>

definition jmember :: "gostring \<Rightarrow> json \<Rightarrow> gostring \<times> gostring \<times> json" where
  "jmember k v = (k, json_print v, v)"

text \<open>The \<open>omitempty\<close> option.\<close>

definition omit_str :: "gostring \<Rightarrow> gostring \<Rightarrow> (gostring \<times> gostring \<times> json) list" where
  "omit_str k s = (if s = [] then [] else [jmember k (JStr s)])"

definition omit_int :: "gostring \<Rightarrow> int \<Rightarrow> (gostring \<times> gostring \<times> json) list" where
  "omit_int k i = (if i = 0 then [] else [jmember k (JNum (itoa i))])"

lemma runes_ascii: "list_all (\<lambda>c. bv c < 0x80) s \<Longrightarrow> runes s = map of_char s"
  by (induction s) (simp_all add: runes_Cons)

lemma validString_ascii: "list_all (\<lambda>c. bv c < 0x80) s \<Longrightarrow> validString s"
proof -
  have "concat (map (\<lambda>c. encodeRune (bv c)) t) = t" if "list_all (\<lambda>c. bv c < 0x80) t" for t
    using that by (induction t) (simp_all add: encodeRune_ascii)
  moreover assume "list_all (\<lambda>c. bv c < 0x80) s"
  ultimately show ?thesis by (simp add: validString_def toValid_def runes_ascii comp_def)
qed

lemma toValid_ascii: "list_all (\<lambda>c. bv c < 0x80) s \<Longrightarrow> toValid s = s"
  by (simp add: validString_ascii)

lemma toValid_eq_Nil [simp]: "toValid s = [] \<longleftrightarrow> s = []"
  by (cases s) (auto simp: toValid_def runes_Cons)

lemma dec_members_append:
  "dec_members f a (ms @ ns) = (case dec_members f a ms of None \<Rightarrow> None | Some b \<Rightarrow> dec_members f b ns)"
  by (induction f a ms rule: dec_members.induct) (auto split: option.splits)

end
