(* ===== verification/Frame.thy ===== *)
theory Frame
  imports Json
begin

text \<open>
  \<open>udsmsg/frame.go\<close>: the lines of the Claude Code transport, their encoding and decoding,
  and the message ids (\<open>newUUID\<close> of \<open>udsmsg/session.go\<close>).
\<close>

definition MaxLineBytes :: nat where "MaxLineBytes = 2 ^ 20"

definition TypeAuth :: gostring where "TypeAuth = ''auth''"
definition TypeUser :: gostring where "TypeUser = ''user''"

type_synonym Mode = gostring

definition ModePrompting :: Mode where "ModePrompting = ''prompting''"

record UserMessage =
  Role :: gostring
  Content :: gostring

record Frame =
  MsgV :: int
  Type :: gostring
  MsgID :: gostring
  From :: gostring
  FromMode :: Mode
  Priority :: gostring
  Token :: gostring
  Message :: "UserMessage option"
  Raw :: gostring

text \<open>Go's zero values.\<close>

definition zero_UserMessage :: UserMessage where
  "zero_UserMessage = \<lparr>Role = [], Content = []\<rparr>"

definition zero_Frame :: Frame where
  "zero_Frame = \<lparr>MsgV = 0, Type = [], MsgID = [], From = [], FromMode = [], Priority = [],
     Token = [], Message = None, Raw = []\<rparr>"

definition IsAuth :: "Frame \<Rightarrow> bool" where
  "IsAuth f \<longleftrightarrow> Type f = TypeAuth"

definition Text :: "Frame \<Rightarrow> gostring" where
  "Text f = (case Message f of None \<Rightarrow> [] | Some m \<Rightarrow> Content m)"

subsection \<open>Decoding\<close>

datatype frame_error =
    ParseError               \<comment> \<open>parse JSON line\<close>
  | FrameTooLong nat         \<comment> \<open>over the line cap, with the size\<close>

definition dec_UserMessage :: "UserMessage field_decoder" where
  "dec_UserMessage m kv =
     (case kv of (k, _, v) \<Rightarrow>
        if foldName k = foldName ''role'' then map_option (\<lambda>s. m\<lparr>Role := s\<rparr>) (dec_str (Role m) v)
        else if foldName k = foldName ''content'' then
          map_option (\<lambda>s. m\<lparr>Content := s\<rparr>) (dec_str (Content m) v)
        else Some m)"

text \<open>A pointer field: \<open>null\<close> clears it, an object is decoded into what it points to.\<close>

definition dec_Message :: "UserMessage option \<Rightarrow> json \<Rightarrow> UserMessage option option" where
  "dec_Message cur v =
     (case v of
        JNull \<Rightarrow> Some None
      | _ \<Rightarrow> map_option Some
          (dec_struct dec_UserMessage (case cur of None \<Rightarrow> zero_UserMessage | Some m \<Rightarrow> m) v))"

definition dec_Frame :: "Frame field_decoder" where
  "dec_Frame f kv =
     (case kv of (k, _, v) \<Rightarrow>
        if foldName k = foldName ''msgV'' then map_option (\<lambda>x. f\<lparr>MsgV := x\<rparr>) (dec_int (MsgV f) v)
        else if foldName k = foldName ''type'' then map_option (\<lambda>x. f\<lparr>Type := x\<rparr>) (dec_str (Type f) v)
        else if foldName k = foldName ''msg_id'' then map_option (\<lambda>x. f\<lparr>MsgID := x\<rparr>) (dec_str (MsgID f) v)
        else if foldName k = foldName ''from'' then map_option (\<lambda>x. f\<lparr>From := x\<rparr>) (dec_str (From f) v)
        else if foldName k = foldName ''from_mode'' then
          map_option (\<lambda>x. f\<lparr>FromMode := x\<rparr>) (dec_str (FromMode f) v)
        else if foldName k = foldName ''priority'' then
          map_option (\<lambda>x. f\<lparr>Priority := x\<rparr>) (dec_str (Priority f) v)
        else if foldName k = foldName ''token'' then map_option (\<lambda>x. f\<lparr>Token := x\<rparr>) (dec_str (Token f) v)
        else if foldName k = foldName ''message'' then
          map_option (\<lambda>x. f\<lparr>Message := x\<rparr>) (dec_Message (Message f) v)
        else Some f)"

definition decodeFrame :: "gostring \<Rightarrow> frame_error + Frame" where
  "decodeFrame line =
     (case json_parse line of
        None \<Rightarrow> Inl ParseError
      | Some v \<Rightarrow>
          (case dec_struct dec_Frame zero_Frame v of
             None \<Rightarrow> Inl ParseError
           | Some f \<Rightarrow> Inr (f\<lparr>Raw := line\<rparr>)))"

subsection \<open>Encoding\<close>

definition json_of_UserMessage :: "UserMessage \<Rightarrow> json" where
  "json_of_UserMessage m = JObj [jmember ''role'' (JStr (Role m)), jmember ''content'' (JStr (Content m))]"

text \<open>The fields in the order of the struct, with \<open>omitempty\<close>; \<open>Raw\<close> is tagged \<open>"-"\<close>.\<close>

definition json_of_Frame :: "Frame \<Rightarrow> json" where
  "json_of_Frame f = JObj
     (omit_int ''msgV'' (MsgV f) @ [jmember ''type'' (JStr (Type f))] @ omit_str ''msg_id'' (MsgID f)
      @ omit_str ''from'' (From f) @ omit_str ''from_mode'' (FromMode f)
      @ omit_str ''priority'' (Priority f) @ omit_str ''token'' (Token f)
      @ (case Message f of None \<Rightarrow> [] | Some m \<Rightarrow> [jmember ''message'' (json_of_UserMessage m)]))"

text \<open>\<open>json.Marshal\<close> of a frame; it has no error case for these field types.\<close>

definition marshalFrame :: "Frame \<Rightarrow> gostring" where
  "marshalFrame f = json_print (json_of_Frame f)"

definition encodeFrame :: "Frame \<Rightarrow> frame_error + gostring" where
  "encodeFrame f =
     (let b = marshalFrame f in
      if MaxLineBytes < length b + 1 then Inl (FrameTooLong (length b + 1))
      else Inr (b @ [newline]))"

subsection \<open>Message ids\<close>

text \<open>\<open>newUUID\<close>, from sixteen random bytes: version 4, variant 10.\<close>

definition uuid_format :: "bytes \<Rightarrow> gostring" where
  "uuid_format b =
     (let h = hexEncode b in
      take 8 h @ ''-'' @ take 4 (drop 8 h) @ ''-'' @ take 4 (drop 12 h) @ ''-''
      @ take 4 (drop 16 h) @ ''-'' @ take 12 (drop 20 h))"

definition newUUID :: "bytes \<Rightarrow> gostring" where
  "newUUID rnd =
     (let b = rnd[6 := or (and (rnd ! 6) 0x0F) 0x40];
          b = b[8 := or (and (b ! 8) 0x3F) 0x80]
      in uuid_format b)"

definition newMsgID :: "bytes \<Rightarrow> gostring" where
  "newMsgID rnd = newUUID rnd"

text \<open>\<open>msgIDPattern\<close>: groups of 8, 4, 4, 4 and 12 lower-case digits.\<close>

definition msgIDPattern :: "gostring \<Rightarrow> bool" where
  "msgIDPattern s \<longleftrightarrow> map length (split_on (CHR ''-'') s) = [8, 4, 4, 4, 12]
     \<and> list_all (list_all is_hex) (split_on (CHR ''-'') s)"

subsection \<open>Field names\<close>

lemma field_names:
  "foldName ''msgV'' = [77, 83, 71, 86]"
  "foldName ''type'' = [84, 89, 80, 69]"
  "foldName ''msg_id'' = [77, 83, 71, 95, 73, 68]"
  "foldName ''from'' = [70, 82, 79, 77]"
  "foldName ''from_mode'' = [70, 82, 79, 77, 95, 77, 79, 68, 69]"
  "foldName ''priority'' = [80, 82, 73, 79, 82, 73, 84, 89]"
  "foldName ''token'' = [84, 79, 75, 69, 78]"
  "foldName ''message'' = [77, 69, 83, 83, 65, 71, 69]"
  "foldName ''role'' = [82, 79, 76, 69]"
  "foldName ''content'' = [67, 79, 78, 84, 69, 78, 84]"
  by (simp_all add: foldName_def runes_ascii foldRune_def)

lemma dec_Frame_keys [json_simps]:
  "dec_Frame f (''msgV'', r, v) = map_option (\<lambda>x. f\<lparr>MsgV := x\<rparr>) (dec_int (MsgV f) v)"
  "dec_Frame f (''type'', r, v) = map_option (\<lambda>x. f\<lparr>Type := x\<rparr>) (dec_str (Type f) v)"
  "dec_Frame f (''msg_id'', r, v) = map_option (\<lambda>x. f\<lparr>MsgID := x\<rparr>) (dec_str (MsgID f) v)"
  "dec_Frame f (''from'', r, v) = map_option (\<lambda>x. f\<lparr>From := x\<rparr>) (dec_str (From f) v)"
  "dec_Frame f (''from_mode'', r, v) = map_option (\<lambda>x. f\<lparr>FromMode := x\<rparr>) (dec_str (FromMode f) v)"
  "dec_Frame f (''priority'', r, v) = map_option (\<lambda>x. f\<lparr>Priority := x\<rparr>) (dec_str (Priority f) v)"
  "dec_Frame f (''token'', r, v) = map_option (\<lambda>x. f\<lparr>Token := x\<rparr>) (dec_str (Token f) v)"
  "dec_Frame f (''message'', r, v) = map_option (\<lambda>x. f\<lparr>Message := x\<rparr>) (dec_Message (Message f) v)"
  by (simp_all add: dec_Frame_def field_names)

lemma dec_UserMessage_keys [json_simps]:
  "dec_UserMessage m (''role'', r, v) = map_option (\<lambda>x. m\<lparr>Role := x\<rparr>) (dec_str (Role m) v)"
  "dec_UserMessage m (''content'', r, v) = map_option (\<lambda>x. m\<lparr>Content := x\<rparr>) (dec_str (Content m) v)"
  by (simp_all add: dec_UserMessage_def field_names)

lemma toValid_keys [json_simps]:
  "toValid ''msgV'' = ''msgV''" "toValid ''type'' = ''type''" "toValid ''msg_id'' = ''msg_id''"
  "toValid ''from'' = ''from''" "toValid ''from_mode'' = ''from_mode''"
  "toValid ''priority'' = ''priority''" "toValid ''token'' = ''token''"
  "toValid ''message'' = ''message''" "toValid ''role'' = ''role''" "toValid ''content'' = ''content''"
  by (simp_all add: toValid_ascii)

subsection \<open>The codec\<close>

text \<open>A frame with every invalid byte of its strings replaced by U+FFFD.\<close>

definition norm_UserMessage :: "UserMessage \<Rightarrow> UserMessage" where
  "norm_UserMessage m = \<lparr>Role = toValid (Role m), Content = toValid (Content m)\<rparr>"

definition norm_Frame :: "Frame \<Rightarrow> Frame" where
  "norm_Frame f = \<lparr>MsgV = MsgV f, Type = toValid (Type f), MsgID = toValid (MsgID f),
     From = toValid (From f), FromMode = toValid (FromMode f), Priority = toValid (Priority f),
     Token = toValid (Token f), Message = map_option norm_UserMessage (Message f), Raw = Raw f\<rparr>"

lemma printable_Frame: "printable (json_of_Frame f)"
  by (auto simp: json_of_Frame_def json_of_UserMessage_def omit_int_def omit_str_def jmember_def
      split: option.splits if_splits)

lemma jdepth_Frame: "jdepth (json_of_Frame f) \<le> maxNestingDepth"
proof -
  have "jdepth (json_of_Frame f) \<le> Suc 1"
    unfolding json_of_Frame_def
    by (rule jdepth_JObj_le)
      (auto simp: json_of_UserMessage_def omit_int_def omit_str_def jmember_def split: option.splits)
  then show ?thesis by (simp add: maxNestingDepth_def)
qed

text \<open>Decoding one optional field after printing it.\<close>

lemma dec_omit_str:
  assumes "toValid k = k" "\<And>r v. f a (k, r, v) = map_option (upd a) (dec_str (get a) v)"
    and "get a = []" "upd a [] = a"
  shows "dec_members f a (map (\<lambda>(k, _, v). (toValid k, json_print v, jnorm v)) (omit_str k s))
    = Some (upd a (toValid s))"
  using assms by (simp add: omit_str_def jmember_def dec_str_def)

lemma dec_omit_int:
  assumes "toValid k = k" "\<And>r v. f a (k, r, v) = map_option (upd a) (dec_int (get a) v)"
    and "get a = 0" "upd a 0 = a" "int64 i"
  shows "dec_members f a (map (\<lambda>(k, _, v). (toValid k, json_print v, jnorm v)) (omit_int k i))
    = Some (upd a i)"
  using assms by (simp add: omit_int_def jmember_def dec_int_def)

lemma dec_struct_Frame:
  assumes "int64 (MsgV f)"
  shows "dec_struct dec_Frame zero_Frame (jnorm (json_of_Frame f)) = Some ((norm_Frame f)\<lparr>Raw := []\<rparr>)"
  using assms
  by (cases "Message f")
    (simp_all add: json_of_Frame_def dec_struct_def dec_members_append json_simps
      dec_omit_int [where get = MsgV and upd = "\<lambda>f x. f\<lparr>MsgV := x\<rparr>"]
      dec_omit_str [where get = MsgID and upd = "\<lambda>f x. f\<lparr>MsgID := x\<rparr>"]
      dec_omit_str [where get = From and upd = "\<lambda>f x. f\<lparr>From := x\<rparr>"]
      dec_omit_str [where get = FromMode and upd = "\<lambda>f x. f\<lparr>FromMode := x\<rparr>"]
      dec_omit_str [where get = Priority and upd = "\<lambda>f x. f\<lparr>Priority := x\<rparr>"]
      dec_omit_str [where get = Token and upd = "\<lambda>f x. f\<lparr>Token := x\<rparr>"]
      zero_Frame_def norm_Frame_def jmember_def dec_str_def dec_Message_def json_of_UserMessage_def
      norm_UserMessage_def zero_UserMessage_def)

lemma decode_marshal:
  assumes "int64 (MsgV f)"
  shows "decodeFrame (marshalFrame f) = Inr ((norm_Frame f)\<lparr>Raw := marshalFrame f\<rparr>)"
  using json_parse_print [OF printable_Frame jdepth_Frame, of f] dec_struct_Frame [OF assms]
  by (simp add: decodeFrame_def marshalFrame_def)

lemma marshal_no_newline: "newline \<notin> set (marshalFrame f)"
  by (simp add: marshalFrame_def json_print_no_newline printable_Frame)

lemma encodeFrame_Inr:
  "encodeFrame f = Inr line \<longleftrightarrow> line = marshalFrame f @ [newline] \<and> length (marshalFrame f) < MaxLineBytes"
  by (auto simp: encodeFrame_def Let_def)

text \<open>
  (C19) What \<open>encodeFrame\<close> writes is what \<open>decodeFrame\<close> reads: the result is one line, its only
  newline is the last byte, it is within the cap of the receiver, and decoding the line gives
  the frame back, with U+FFFD in place of bytes that are not UTF-8.
\<close>

theorem frame_round_trip:
  assumes "encodeFrame f = Inr line" "int64 (MsgV f)"
  shows "\<exists>b. line = b @ [newline] \<and> newline \<notin> set b \<and> length line \<le> MaxLineBytes
    \<and> decodeFrame b = Inr ((norm_Frame f)\<lparr>Raw := b\<rparr>)"
  using assms decode_marshal marshal_no_newline by (auto simp: encodeFrame_Inr)

definition tiny_frame :: Frame where "tiny_frame = zero_Frame\<lparr>Type := ''x''\<rparr>"

lemma encode_tiny: "encodeFrame tiny_frame = Inr (marshalFrame tiny_frame @ [newline])"
  using length_json_quote [of "''type''"] length_json_quote [of "''x''"]
  by (simp add: encodeFrame_Inr marshalFrame_def json_of_Frame_def tiny_frame_def zero_Frame_def omit_int_def
      omit_str_def jmember_def MaxLineBytes_def)

theorem frame_round_trip_witness:
  "\<exists>b. marshalFrame tiny_frame @ [newline] = b @ [newline]
     \<and> decodeFrame b = Inr ((norm_Frame tiny_frame)\<lparr>Raw := b\<rparr>)"
  using frame_round_trip [OF encode_tiny] by (auto simp: tiny_frame_def zero_Frame_def int64_def)

subsection \<open>Ids match their pattern\<close>

lemma uuid_format_pattern:
  assumes "length b = 16"
  shows "msgIDPattern (uuid_format b)"
proof -
  let ?h = "hexEncode b" let ?g = "\<lambda>i n. take n (drop i ?h)"
  have hx: "\<forall>c\<in>set ?h. is_hex c" using hexEncode_hex [of b] by (simp add: list_all_iff)
  then have "\<forall>c\<in>set (?g i n). is_hex c" for i n by (auto dest: in_set_takeD in_set_dropD)
  moreover from this have d: "CHR ''-'' \<notin> set (?g i n)" for i n by (fastforce simp: is_hex_def)
  moreover have "split_on (CHR ''-'') (uuid_format b) = [?g 0 8, ?g 8 4, ?g 12 4, ?g 16 4, ?g 20 12]"
    using d [of 8 0] d [of 4 8] d [of 4 12] d [of 4 16] d [of 12 20]
    by (simp add: uuid_format_def Let_def split_on_append)
  ultimately show ?thesis using assms hx by (auto simp: msgIDPattern_def list_all_iff dest: in_set_takeD in_set_dropD)
qed

text \<open>
  A generated message id always has the shape \<open>BuildUserFrame\<close> insists on, whatever the
  sixteen random bytes are.
\<close>

theorem generated_ids_match_pattern:
  assumes "length rnd = 16"
  shows "msgIDPattern (newMsgID rnd)"
  using uuid_format_pattern assms by (simp add: newMsgID_def newUUID_def Let_def)

theorem generated_ids_match_pattern_witness:
  "msgIDPattern (newMsgID (replicate 16 0xFF))"
  by (rule generated_ids_match_pattern) simp

end
