(* ===== verification/Host.thy ===== *)
theory Host
  imports Go_Text
begin

text \<open>
  What the program asks of the operating system. The kernel and the file system are not
  code of the repository: a \<open>host\<close> is a parameter of every operation that makes a system
  call, and a file system is a map from paths to nodes. A system call that can fail for a
  reason the program cannot see from the rest of the host is made to fail by \<open>h_fault\<close>,
  so every error branch of the code is a branch of the model.
\<close>

datatype os_error = ENOENT | EFault

datatype file_kind = KFile | KDir | KSocket | KCharDevice

record fnode =
  n_kind :: file_kind
  n_perm :: nat              \<comment> \<open>the permission bits\<close>
  n_uid :: "32 word"
  n_data :: gostring

datatype syscall =
    SysStat | SysRead | SysReadlink | SysMkdir | SysChmod | SysWrite | SysRename | SysRemove
  | SysBind | SysConnect | SysSend | SysRecv

record host =
  h_env :: "gostring \<rightharpoonup> gostring"
  h_uid :: int
  h_pid :: int
  h_unix :: bool                         \<comment> \<open>the build tag that selects owner_unix.go\<close>
  h_now :: int                           \<comment> \<open>milliseconds\<close>
  h_fs :: "gostring \<rightharpoonup> fnode"
  h_links :: "gostring \<rightharpoonup> gostring"     \<comment> \<open>readlink\<close>
  h_real :: "gostring \<rightharpoonup> gostring"      \<comment> \<open>where the symbolic links of a path lead\<close>
  h_cwd :: "gostring option"
  h_exe :: "gostring option"
  h_fault :: "syscall \<Rightarrow> gostring \<Rightarrow> bool"
  h_wrote :: "gostring \<rightharpoonup> nat"          \<comment> \<open>what a failing write of a file leaves: the number of
    bytes, or nothing when the file could not even be opened\<close>

text \<open>\<open>os.Getenv\<close>: an unset variable reads as the empty string.\<close>

definition getenv :: "host \<Rightarrow> gostring \<Rightarrow> gostring" where
  "getenv h k = (case h_env h k of None \<Rightarrow> [] | Some v \<Rightarrow> v)"

definition os_stat :: "host \<Rightarrow> gostring \<Rightarrow> os_error + fnode" where
  "os_stat h p =
     (if h_fault h SysStat p then Inl EFault
      else case h_fs h p of None \<Rightarrow> Inl ENOENT | Some n \<Rightarrow> Inr n)"

definition os_readFile :: "host \<Rightarrow> gostring \<Rightarrow> os_error + gostring" where
  "os_readFile h p =
     (if h_fault h SysRead p then Inl EFault
      else case h_fs h p of
             None \<Rightarrow> Inl ENOENT
           | Some n \<Rightarrow> if n_kind n = KFile then Inr (n_data n) else Inl EFault)"

definition os_readlink :: "host \<Rightarrow> gostring \<Rightarrow> os_error + gostring" where
  "os_readlink h p =
     (if h_fault h SysReadlink p then Inl EFault
      else case h_links h p of None \<Rightarrow> Inl ENOENT | Some t \<Rightarrow> Inr t)"

text \<open>
  \<open>filepath.EvalSymlinks\<close> follows the links of a path to a file that exists: of a path at which
  there is nothing it reports an error, wherever its links would lead.
\<close>

definition evalSymlinks :: "host \<Rightarrow> gostring \<Rightarrow> gostring option" where
  "evalSymlinks h p = (case h_fs h p of None \<Rightarrow> None | Some _ \<Rightarrow> h_real h p)"

text \<open>\<open>os.UserHomeDir\<close> on Unix: \<open>$HOME\<close>, an error when it is empty.\<close>

definition userHomeDir :: "host \<Rightarrow> gostring option" where
  "userHomeDir h = (let v = getenv h ''HOME'' in if v = [] then None else Some v)"

text \<open>\<open>filepath.Abs\<close>.\<close>

definition path_abs :: "host \<Rightarrow> gostring \<Rightarrow> gostring option" where
  "path_abs h p =
     (if p \<noteq> [] \<and> hd p = slash then Some (Clean p)
      else map_option (\<lambda>wd. path_join [wd, p]) (h_cwd h))"

subsection \<open>Operations that change the file system\<close>

text \<open>
  \<open>os.WriteFile\<close> creates or truncates the file and writes the data; when it fails on the way,
  what it had written stays.
\<close>

definition store_file :: "host \<Rightarrow> gostring \<Rightarrow> gostring \<Rightarrow> nat \<Rightarrow> host option" where
  "store_file h p b perm =
     (case h_fs h p of
        Some n \<Rightarrow>
          if n_kind n = KFile then Some (h\<lparr>h_fs := (h_fs h)(p \<mapsto> n\<lparr>n_data := b\<rparr>)\<rparr>) else None
      | None \<Rightarrow> Some (h\<lparr>h_fs := (h_fs h)(p \<mapsto>
          \<lparr>n_kind = KFile, n_perm = perm, n_uid = word_of_int (h_uid h), n_data = b\<rparr>)\<rparr>))"

definition os_writeFile :: "host \<Rightarrow> gostring \<Rightarrow> gostring \<Rightarrow> nat \<Rightarrow> os_error option \<times> host" where
  "os_writeFile h p b perm =
     (if h_fault h SysWrite p
      then (Some EFault,
        case Option.bind (h_wrote h p) (\<lambda>n. store_file h p (take n b) perm) of None \<Rightarrow> h | Some h' \<Rightarrow> h')
      else case store_file h p b perm of None \<Rightarrow> (Some EFault, h) | Some h' \<Rightarrow> (None, h'))"

definition os_rename :: "host \<Rightarrow> gostring \<Rightarrow> gostring \<Rightarrow> os_error + host" where
  "os_rename h p q =
     (if h_fault h SysRename p then Inl EFault
      else case h_fs h p of
             None \<Rightarrow> Inl ENOENT
           | Some n \<Rightarrow>
               if map_option n_kind (h_fs h q) = Some KDir \<and> n_kind n \<noteq> KDir then Inl EFault
               else Inr (h\<lparr>h_fs := if p = q then h_fs h else (h_fs h)(q \<mapsto> n, p := None)\<rparr>))"

definition os_remove :: "host \<Rightarrow> gostring \<Rightarrow> os_error + host" where
  "os_remove h p =
     (if h_fault h SysRemove p then Inl EFault
      else case h_fs h p of
             None \<Rightarrow> Inl ENOENT
           | Some n \<Rightarrow> Inr (h\<lparr>h_fs := (h_fs h)(p := None)\<rparr>))"

text \<open>
  \<open>os.MkdirAll\<close>: an existing directory is left as it is. Of the parents only the effect on
  the path itself matters here; each one that is made gets the same permissions.
\<close>

definition os_mkdirAll :: "host \<Rightarrow> gostring \<Rightarrow> nat \<Rightarrow> os_error + host" where
  "os_mkdirAll h p perm =
     (if h_fault h SysMkdir p then Inl EFault
      else case h_fs h p of
             Some n \<Rightarrow> if n_kind n = KDir then Inr h else Inl EFault
           | None \<Rightarrow> Inr (h\<lparr>h_fs := (h_fs h)(p \<mapsto>
               \<lparr>n_kind = KDir, n_perm = perm, n_uid = word_of_int (h_uid h), n_data = []\<rparr>)\<rparr>))"

definition os_chmod :: "host \<Rightarrow> gostring \<Rightarrow> nat \<Rightarrow> os_error + host" where
  "os_chmod h p perm =
     (if h_fault h SysChmod p then Inl EFault
      else case h_fs h p of
             None \<Rightarrow> Inl ENOENT
           | Some n \<Rightarrow> Inr (h\<lparr>h_fs := (h_fs h)(p \<mapsto> n\<lparr>n_perm := perm\<rparr>)\<rparr>))"

subsection \<open>Publishing a file through a temporary name\<close>

text \<open>
  \<open>os.WriteFile\<close> is not atomic: a reader of \<open>p\<close> may see any prefix of the data. These are
  the hosts a concurrent reader can see while it runs.
\<close>

definition write_states :: "host \<Rightarrow> gostring \<Rightarrow> gostring \<Rightarrow> nat \<Rightarrow> host list" where
  "write_states h p b perm =
     (case if h_fault h SysWrite p then h_wrote h p else Some (length b) of
        None \<Rightarrow> []
      | Some n \<Rightarrow> List.map_filter (\<lambda>i. store_file h p (take i b) perm) [0..<Suc n])"

text \<open>
  The write, the rename and the removal after a failed rename that \<open>writeKey\<close> and
  \<open>PublishSession\<close> share, with every host a reader can see, the last one being the result.
  After a failed write the code returns at once: what was written under the temporary name stays.
\<close>

definition put_file :: "host \<Rightarrow> gostring \<Rightarrow> gostring \<Rightarrow> gostring \<Rightarrow> os_error option \<times> host list" where
  "put_file h tmp final b =
     (case os_writeFile h tmp b 384 of
        (Some e, h1) \<Rightarrow> (Some e, h # write_states h tmp b 384 @ [h1])
      | (None, h1) \<Rightarrow>
          (case os_rename h1 tmp final of
             Inr h2 \<Rightarrow> (None, h # write_states h tmp b 384 @ [h2])
           | Inl e \<Rightarrow>
               (Some e, h # write_states h tmp b 384
                  @ [case os_remove h1 tmp of Inl _ \<Rightarrow> h1 | Inr h2 \<Rightarrow> h2])))"

text \<open>Everything of a host but its files.\<close>

definition same_host :: "host \<Rightarrow> host \<Rightarrow> bool" where
  "same_host h h' \<longleftrightarrow> h' = h\<lparr>h_fs := h_fs h'\<rparr>"

lemma same_host_refl [simp, intro]: "same_host h h"
  by (simp add: same_host_def)

lemma same_host_trans [trans]: "same_host a b \<Longrightarrow> same_host b c \<Longrightarrow> same_host a c"
  unfolding same_host_def by (cases a; cases b; cases c) simp

lemma store_file_Some:
  assumes "store_file h p b m = Some h'"
  shows "same_host h h' \<and> (\<forall>q. q \<noteq> p \<longrightarrow> h_fs h' q = h_fs h q)"
  using assms by (auto simp: store_file_def same_host_def split: if_splits option.splits)

lemma os_writeFile_frame:
  assumes "os_writeFile h p b m = (r, h')"
  shows "same_host h h' \<and> (\<forall>q. q \<noteq> p \<longrightarrow> h_fs h' q = h_fs h q)"
  using assms store_file_Some by (auto simp: os_writeFile_def bind_eq_Some_conv split: if_splits option.splits)

lemma same_host_ops:
  "os_writeFile h p b m = (r, h') \<Longrightarrow> same_host h h'"
  "os_rename h p q = Inr h' \<Longrightarrow> same_host h h'"
  "os_remove h p = Inr h' \<Longrightarrow> same_host h h'"
  "os_mkdirAll h p m = Inr h' \<Longrightarrow> same_host h h'"
  "os_chmod h p m = Inr h' \<Longrightarrow> same_host h h'"
  using os_writeFile_frame
  by (auto simp: same_host_def os_rename_def os_remove_def os_mkdirAll_def os_chmod_def
      split: if_splits option.splits)

lemma same_hostD:
  assumes "same_host h h'"
  shows "h_env h' = h_env h" "h_uid h' = h_uid h" "h_pid h' = h_pid h" "h_unix h' = h_unix h"
    "h_now h' = h_now h" "h_links h' = h_links h" "h_real h' = h_real h" "h_cwd h' = h_cwd h"
    "h_exe h' = h_exe h" "h_fault h' = h_fault h" "h_wrote h' = h_wrote h"
  using assms by (cases h; cases h'; simp add: same_host_def)+

lemma write_states_frame:
  assumes "h' \<in> set (write_states h tmp b m)"
  shows "same_host h h' \<and> (\<forall>q. q \<noteq> tmp \<longrightarrow> h_fs h' q = h_fs h q)"
proof -
  obtain n where "store_file h tmp (take n b) m = Some h'"
    using assms by (auto simp: write_states_def List.map_filter_def simp del: upt_Suc split: option.splits)
  then show ?thesis by (rule store_file_Some)
qed

text \<open>What \<open>put_file\<close> leaves: the temporary name is the only other path it touches.\<close>

lemma put_file_frame:
  assumes "put_file h tmp final b = (r, hs)" "h' \<in> set hs"
  shows "same_host h h' \<and> (\<forall>q. q \<noteq> tmp \<longrightarrow> q \<noteq> final \<longrightarrow> h_fs h' q = h_fs h q)"
proof -
  have m: "same_host h1 h2 \<and> (\<forall>q. q \<noteq> tmp \<longrightarrow> q \<noteq> final \<longrightarrow> h_fs h2 q = h_fs h1 q)"
    if "os_rename h1 tmp final = Inr h2" for h1 h2
    using that same_host_ops(2) by (auto simp: os_rename_def split: if_splits option.splits)
  have d: "same_host h1 h2 \<and> (\<forall>q. q \<noteq> tmp \<longrightarrow> h_fs h2 q = h_fs h1 q)" if "os_remove h1 tmp = Inr h2" for h1 h2
    using that same_host_ops(3) by (auto simp: os_remove_def split: if_splits option.splits)
  show ?thesis
    using assms
    by (auto simp: put_file_def split: sum.splits prod.splits option.splits
        dest!: os_writeFile_frame m d write_states_frame intro: same_host_trans)
qed

text \<open>A reader of the final name sees the old file or the complete new one, never a part.\<close>

lemma put_file_atomic:
  assumes "put_file h tmp final b = (r, hs)" "h' \<in> set hs" "tmp \<noteq> final" "h_fs h tmp = None"
  shows "h_fs h' final = h_fs h final \<or>
    h_fs h' final = Some \<lparr>n_kind = KFile, n_perm = 384, n_uid = word_of_int (h_uid h), n_data = b\<rparr>"
proof -
  obtain e h1 where w: "os_writeFile h tmp b 384 = (e, h1)" by force
  have o: "h_fs h1 final = h_fs h final" using os_writeFile_frame [OF w] assms(3) by simp
  have n: "h_fs h1 = (h_fs h)(tmp \<mapsto> \<lparr>n_kind = KFile, n_perm = 384, n_uid = word_of_int (h_uid h), n_data = b\<rparr>)"
    if "e = None"
    using w that assms(4) by (auto simp: os_writeFile_def store_file_def split: if_splits)
  have m: "h_fs h2 = (h_fs h1)(final \<mapsto> the (h_fs h1 tmp), tmp := None)" if "os_rename h1 tmp final = Inr h2" for h1 h2
    using that assms(3) by (auto simp: os_rename_def split: if_splits option.splits)
  have d: "h_fs h2 = (h_fs h1)(tmp := None)" if "os_remove h1 tmp = Inr h2" for h1 h2
    using that by (auto simp: os_remove_def split: if_splits option.splits)
  show ?thesis
    using assms(1-3) w o n
    by (auto simp: put_file_def split: sum.splits option.splits dest!: m d write_states_frame)
qed

lemma put_file_done:
  assumes "put_file h tmp final b = (None, hs)" "tmp \<noteq> final" "h_fs h tmp = None"
  shows "h_fs (last hs) = (h_fs h)(final \<mapsto> \<lparr>n_kind = KFile, n_perm = 384, n_uid = word_of_int (h_uid h), n_data = b\<rparr>)"
  using assms
  by (auto simp: put_file_def os_writeFile_def store_file_def os_rename_def fun_upd_twist
      split: sum.splits if_splits option.splits)

lemma put_file_nonempty [simp]: "put_file h tmp final b = (r, hs) \<Longrightarrow> hs \<noteq> []"
  by (auto simp: put_file_def split: sum.splits prod.splits option.splits)

text \<open>A host on which nothing fails and no file exists yet, for the concrete examples.\<close>

definition idle_host :: host where
  "idle_host = \<lparr>h_env = [''HOME'' \<mapsto> ''/home/u''], h_uid = 1000, h_pid = 7, h_unix = True, h_now = 0,
     h_fs = Map.empty, h_links = Map.empty, h_real = Map.empty, h_cwd = Some ''/'', h_exe = None,
     h_fault = (\<lambda>_ _. False), h_wrote = Map.empty\<rparr>"

end
