(* ===== verification/Addr.thy ===== *)
theory Addr
  imports Host
begin

text \<open>
  \<open>udsmsg/addr.go\<close> with \<open>owner_unix.go\<close> and \<open>owner_other.go\<close>: the shape of reply addresses
  and socket names, and the check of a socket directory.
\<close>

definition schemeUDS :: gostring where "schemeUDS = ''uds''"

definition maxSocketPath :: nat where "maxSocketPath = 107"

text \<open>
  \<open>addrRe\<close>, \<open>^uds:.{1,107}$\<close>: the dot is any rune but a newline, and the repetition counts
  runes.
\<close>

definition addrRe :: "gostring \<Rightarrow> bool" where
  "addrRe addr \<longleftrightarrow>
     (case cut_prefix (schemeUDS @ '':'') addr of
        None \<Rightarrow> False
      | Some p \<Rightarrow> 1 \<le> runeCount p \<and> runeCount p \<le> maxSocketPath \<and> newline \<notin> set p)"

definition name_char :: "char \<Rightarrow> bool" where
  "name_char c \<longleftrightarrow> (65 \<le> bv c \<and> bv c \<le> 90) \<or> (97 \<le> bv c \<and> bv c \<le> 122) \<or> is_digit c
     \<or> c = CHR ''.'' \<or> c = CHR ''_'' \<or> c = CHR ''-''"

text \<open>\<open>dialNameRe\<close>, \<open>^[A-Za-z0-9._-]{1,64}\.sock$\<close>.\<close>

definition dialNameRe :: "gostring \<Rightarrow> bool" where
  "dialNameRe name \<longleftrightarrow>
     (case cut_suffix ''.sock'' name of
        None \<Rightarrow> False
      | Some b \<Rightarrow> 1 \<le> length b \<and> length b \<le> 64 \<and> list_all name_char b)"

definition validAddress :: "gostring \<Rightarrow> bool" where
  "validAddress addr \<longleftrightarrow> addrRe addr"

definition udsAddress :: "gostring \<Rightarrow> gostring" where
  "udsAddress path = schemeUDS @ '':'' @ path"

definition validSocketName :: "gostring \<Rightarrow> bool" where
  "validSocketName name \<longleftrightarrow> name \<noteq> ''.sock'' \<and> \<not> Contains name ''..'' \<and> dialNameRe name"

text \<open>\<open>PIDFromSocketName\<close>: \<open>None\<close> is the \<open>(0, false)\<close> of the code.\<close>

definition PIDFromSocketName :: "gostring \<Rightarrow> int option" where
  "PIDFromSocketName name =
     (if \<not> validSocketName name then None
      else let base = (case cut_suffix ''.sock'' name of None \<Rightarrow> name | Some b \<Rightarrow> b);
               base = (if CHR ''-'' \<in> set base then takeWhile (\<lambda>c. c \<noteq> CHR ''-'') base else base)
           in atoi base)"

subsection \<open>Directories\<close>

datatype dir_error = DirStat os_error | NotDir | BadPerm nat | NoOwner | BadOwner "32 word"

definition mode_0700 :: nat where "mode_0700 = 7 * 64"

definition ownerUID :: "host \<Rightarrow> fnode \<Rightarrow> dir_error + 32 word" where
  "ownerUID h fi = (if h_unix h then Inr (n_uid fi) else Inl NoOwner)"

definition checkDir :: "host \<Rightarrow> gostring \<Rightarrow> dir_error option" where
  "checkDir h dir =
     (case os_stat h dir of
        Inl e \<Rightarrow> Some (DirStat e)
      | Inr fi \<Rightarrow>
          if n_kind fi \<noteq> KDir then Some NotDir
          else if n_perm fi \<noteq> mode_0700 then Some (BadPerm (n_perm fi))
          else (case ownerUID h fi of
                  Inl e \<Rightarrow> Some e
                | Inr uid \<Rightarrow> if uid \<noteq> word_of_int (h_uid h) \<and> uid \<noteq> 0 then Some (BadOwner uid) else None))"

subsection \<open>Names and the pid they carry\<close>

lemma no_dotdot:
  assumes "CHR ''.'' \<notin> set b"
  shows "\<not> Contains (b @ ''.sock'') ''..''"
proof
  assume "Contains (b @ ''.sock'') ''..''"
  then obtain p q where "b @ ''.sock'' = p @ ''..'' @ q" by (auto simp: Contains_def sublist_def)
  then have "count_list (b @ ''.sock'') (CHR ''.'') = count_list (p @ ''..'' @ q) (CHR ''.'')" by simp
  moreover have "count_list b (CHR ''.'') = 0" using assms by (simp add: count_list_0_iff)
  ultimately show False by simp
qed

lemma validSocketNameI:
  assumes "list_all name_char b" "CHR ''.'' \<notin> set b" "b \<noteq> []" "length b \<le> 64"
  shows "validSocketName (b @ ''.sock'')"
proof -
  have "1 \<le> length b" using assms(3) by (cases b) auto
  with assms no_dotdot [OF assms(2)] show ?thesis
    by (auto simp: validSocketName_def dialNameRe_def simp del: cut_suffix_Some)
qed

lemma digit_name_char: "is_digit c \<Longrightarrow> name_char c" by (simp add: name_char_def)

lemma hex_name_char: "is_hex c \<Longrightarrow> name_char c"
  by (auto simp: name_char_def is_hex_def is_digit_def)

lemma digits_no_punct:
  assumes "list_all is_digit ds"
  shows "CHR ''.'' \<notin> set ds" "CHR ''-'' \<notin> set ds"
  using assms by (auto simp: list_all_iff is_digit_def)

lemma hex_no_punct:
  assumes "list_all is_hex ds"
  shows "CHR ''.'' \<notin> set ds" "CHR ''-'' \<notin> set ds"
  using assms by (auto simp: list_all_iff is_hex_def)

lemma pid_digits:
  assumes "0 \<le> pid" "pid < 2 ^ 63"
  shows "list_all is_digit (itoa pid)" "length (itoa pid) \<le> 19"
proof -
  have i: "itoa pid = nat_dec (nat pid)" using assms(1) by (simp add: itoa_def)
  have "nat pid < 10 ^ 19" using assms by (simp add: nat_less_iff)
  then show "list_all is_digit (itoa pid)" "length (itoa pid) \<le> 19"
    using length_nat_dec [of 19 "nat pid"] by (simp_all add: i nat_dec_digits)
qed

text \<open>The name of a session's inbox, and the name \<open>allocSocketPath\<close> gives to one of ours.\<close>

definition session_name :: "int \<Rightarrow> gostring" where
  "session_name pid = itoa pid @ ''.sock''"

definition alloc_name :: "int \<Rightarrow> bytes \<Rightarrow> gostring" where
  "alloc_name pid disc = itoa pid @ ''-'' @ hexEncode disc @ ''.sock''"

lemma pid_of_session_name:
  assumes "0 \<le> pid" "pid < 2 ^ 63"
  shows "PIDFromSocketName (session_name pid) = Some pid"
proof -
  note d = pid_digits [OF assms]
  have "validSocketName (itoa pid @ ''.sock'')"
    by (rule validSocketNameI)
      (use d digits_no_punct [OF d(1)] digit_name_char in \<open>auto simp: list_all_iff\<close>)
  moreover have "int64 pid" using assms by (simp add: int64_def)
  ultimately show ?thesis
    using digits_no_punct(2) [OF d(1)]
    by (simp add: PIDFromSocketName_def session_name_def del: cut_suffix_Some)
qed

lemma pid_of_alloc_name:
  assumes "0 \<le> pid" "pid < 2 ^ 63" "length disc = 4"
  shows "PIDFromSocketName (alloc_name pid disc) = Some pid"
proof -
  note d = pid_digits [OF assms(1,2)]
  note no = digits_no_punct [OF d(1)] hex_no_punct [OF hexEncode_hex [of disc]]
  let ?b = "itoa pid @ CHR ''-'' # hexEncode disc"
  have "list_all name_char ?b"
    using d(1) hexEncode_hex [of disc] digit_name_char hex_name_char
    by (auto simp: list_all_iff name_char_def [of "CHR ''-''"])
  then have "validSocketName (?b @ ''.sock'')"
    by (rule validSocketNameI) (use d assms(3) no in auto)
  moreover have "takeWhile (\<lambda>c. c \<noteq> CHR ''-'') ?b = itoa pid"
    by (rule takeWhile_append_stop) (use no(2) in auto)
  moreover have "cut_suffix ''.sock'' (?b @ ''.sock'') = Some ?b" by (rule cut_suffix_append)
  moreover have "int64 pid" using assms by (simp add: int64_def)
  ultimately show ?thesis
    by (simp add: PIDFromSocketName_def alloc_name_def del: cut_suffix_Some)
qed

lemma PIDFromSocketName_nonneg:
  assumes "PIDFromSocketName name = Some n"
  shows "0 \<le> n \<and> n < 2 ^ 63"
proof -
  obtain b where b: "name = b @ ''.sock''" "list_all name_char b"
    using assms by (auto simp: PIDFromSocketName_def validSocketName_def dialNameRe_def
        split: if_splits option.splits)
  let ?c = "if CHR ''-'' \<in> set b then takeWhile (\<lambda>c. c \<noteq> CHR ''-'') b else b"
  have a: "atoi ?c = Some n"
    using assms by (auto simp: PIDFromSocketName_def b Let_def simp del: cut_suffix_Some split: if_splits)
  have "CHR ''-'' \<notin> set ?c" by (auto dest: set_takeWhileD)
  moreover have "CHR ''+'' \<notin> set ?c"
    using b(2) by (auto simp: list_all_iff name_char_def is_digit_def dest!: set_takeWhileD)
  ultimately have "0 \<le> n"
    using a by (auto simp: atoi_def Let_def split: list.splits if_splits)
  then show ?thesis using atoi_int64 [OF a] by (simp add: int64_def)
qed

end
