(* ===== verification/Attrib.thy ===== *)
theory Attrib
  imports Frame Addr
begin

text \<open>
  \<open>udsmsg/attrib.go\<close>: the \<open>cross-session-message\<close> element a user frame carries in its
  content, written by \<open>Wrap\<close> and read by \<open>Unwrap\<close>. The regular expressions of the file are
  deterministic on every input (each repetition ends at the first byte outside its class,
  or at the end of the text), so each is written as the function that computes its match.
\<close>

definition msgVersion :: int where "msgVersion = 1"
definition priorityNext :: gostring where "priorityNext = ''next''"

definition csElement :: gostring where "csElement = ''cross-session-message''"
definition attrFrom :: gostring where "attrFrom = ''from''"
definition attrName :: gostring where "attrName = ''from-name''"
definition attrMode :: gostring where "attrMode = ''from-mode''"

definition from_char :: "char \<Rightarrow> bool" where
  "from_char c \<longleftrightarrow> name_char c \<or> c = CHR '':'' \<or> c = CHR ''/''"

text \<open>\<open>fromRe\<close>, \<open>^[A-Za-z0-9:_/.-]{1,111}$\<close>.\<close>

definition fromRe :: "gostring \<Rightarrow> bool" where
  "fromRe s \<longleftrightarrow> 1 \<le> length s \<and> length s \<le> length schemeUDS + 1 + maxSocketPath \<and> list_all from_char s"

record CrossSession =
  cs_From :: gostring
  cs_Name :: gostring
  cs_Mode :: Mode

definition zero_CrossSession :: CrossSession where
  "zero_CrossSession = \<lparr>cs_From = [], cs_Name = [], cs_Mode = []\<rparr>"

text \<open>The runes \<open>scrubName\<close> keeps.\<close>

definition name_rune :: "nat \<Rightarrow> bool" where
  "name_rune r \<longleftrightarrow> r \<noteq> 0x22 \<and> r \<noteq> 0x3C \<and> r \<noteq> 0x3E \<and> \<not> isCc r"

definition scrubName :: "gostring \<Rightarrow> gostring" where
  "scrubName name = TrimSpace (concat (map (\<lambda>r. if name_rune r then encodeRune r else []) (runes name)))"

definition attr :: "gostring \<Rightarrow> gostring \<Rightarrow> gostring" where
  "attr k v = (if v = [] then [] else '' '' @ k @ [CHR ''='', dquote] @ v @ [dquote])"

definition open_attrs :: "CrossSession \<Rightarrow> gostring" where
  "open_attrs cs =
     (if fromRe (cs_From cs) then attr attrFrom (cs_From cs) else [])
     @ attr attrName (scrubName (cs_Name cs))
     @ (if cs_Mode cs = ModePrompting then attr attrMode (cs_Mode cs) else [])"

definition close_tag :: gostring where
  "close_tag = newline # ''</'' @ csElement @ ''>''"

definition Wrap :: "CrossSession \<Rightarrow> gostring \<Rightarrow> gostring" where
  "Wrap cs text = ''<'' @ csElement @ open_attrs cs @ [CHR ''>'', newline] @ text @ close_tag"

subsection \<open>Reading\<close>

definition word_char :: "char \<Rightarrow> bool" where
  "word_char c \<longleftrightarrow> (65 \<le> bv c \<and> bv c \<le> 90) \<or> (97 \<le> bv c \<and> bv c \<le> 122) \<or> is_digit c \<or> c = CHR ''_''"

text \<open>\<open>wrapperRe\<close>: the attributes and the body of a content that is one element.\<close>

definition wrapperRe :: "gostring \<Rightarrow> (gostring \<times> gostring) option" where
  "wrapperRe content =
     (case cut_prefix (''<'' @ csElement) content of
        None \<Rightarrow> None
      | Some r \<Rightarrow>
          if r \<noteq> [] \<and> word_char (hd r) then None
          else (case cut_prefix [CHR ''>'', newline] (dropWhile (\<lambda>c. c \<noteq> CHR ''>'') r) of
                  None \<Rightarrow> None
                | Some b \<Rightarrow>
                    map_option (Pair (takeWhile (\<lambda>c. c \<noteq> CHR ''>'') r)) (cut_suffix close_tag b)))"

definition attr_char :: "char \<Rightarrow> bool" where
  "attr_char c \<longleftrightarrow> (97 \<le> bv c \<and> bv c \<le> 122) \<or> c = CHR ''-''"

text \<open>\<open>attrRe\<close> at the beginning of a text: the key, the value and the text after the match.\<close>

definition attrRe_at :: "gostring \<Rightarrow> ((gostring \<times> gostring) \<times> gostring) option" where
  "attrRe_at s =
     (if takeWhile attr_char s = [] then None
      else case cut_prefix [CHR ''='', dquote] (dropWhile attr_char s) of
             None \<Rightarrow> None
           | Some v \<Rightarrow>
               if dquote \<in> set v
               then Some ((takeWhile attr_char s, takeWhile (\<lambda>c. c \<noteq> dquote) v),
                          tl (dropWhile (\<lambda>c. c \<noteq> dquote) v))
               else None)"

lemma attrRe_at_length: "attrRe_at s = Some (kv, t) \<Longrightarrow> length t < length s"
proof -
  assume "attrRe_at s = Some (kv, t)"
  then obtain v where v: "dropWhile attr_char s = [CHR ''='', dquote] @ v"
      "t = tl (dropWhile (\<lambda>c. c \<noteq> dquote) v)"
    by (auto simp: attrRe_at_def split: if_splits option.splits)
  have "length (dropWhile attr_char s) \<le> length s" "length (dropWhile (\<lambda>c. c \<noteq> dquote) v) \<le> length v"
    by (rule length_dropWhile_le)+
  with v show ?thesis by simp
qed

text \<open>\<open>FindAllStringSubmatch\<close>: leftmost matches that do not overlap.\<close>

function findAttrs :: "gostring \<Rightarrow> (gostring \<times> gostring) list" where
  "findAttrs s =
     (case s of
        [] \<Rightarrow> []
      | c # t \<Rightarrow> (case attrRe_at s of None \<Rightarrow> findAttrs t | Some (kv, r) \<Rightarrow> kv # findAttrs r))"
  by pat_completeness auto
termination
  by (relation "measure length") (auto dest: attrRe_at_length)

declare findAttrs.simps [simp del]

definition set_attr :: "CrossSession \<Rightarrow> gostring \<times> gostring \<Rightarrow> CrossSession" where
  "set_attr cs kv =
     (case kv of (k, v) \<Rightarrow>
        if k = attrFrom then cs\<lparr>cs_From := v\<rparr>
        else if k = attrName then cs\<lparr>cs_Name := v\<rparr>
        else if k = attrMode then cs\<lparr>cs_Mode := v\<rparr>
        else cs)"

definition Unwrap :: "gostring \<Rightarrow> CrossSession \<times> gostring \<times> bool" where
  "Unwrap content =
     (case wrapperRe content of
        None \<Rightarrow> (zero_CrossSession, content, False)
      | Some (attrs, body) \<Rightarrow> (foldl set_attr zero_CrossSession (findAttrs attrs), body, True))"

subsection \<open>What scrubbing leaves\<close>

lemma space_piece_encode [simp]: "validRune r \<Longrightarrow> space_piece (encodeRune r) = isSpace r"
  using decode_encode [of r "[]"] by (simp add: space_piece_def)

lemma pieces_concat: "\<forall>r\<in>set rs. validRune r \<Longrightarrow> pieces (concat (map encodeRune rs)) = map encodeRune rs"
  by (induction rs) simp_all

lemma trim_map: "trim P (map f xs) = map f (trim (P \<circ> f) xs)"
  by (simp add: trim_def dropWhile_map rev_map)

lemma trim_cong: "\<forall>x\<in>set xs. P x = Q x \<Longrightarrow> trim P xs = trim Q xs"
  unfolding trim_def by (metis (no_types, lifting) dropWhile_cong set_dropWhileD set_rev)

lemma TrimSpace_runes:
  assumes "\<forall>r\<in>set rs. validRune r"
  shows "TrimSpace (concat (map encodeRune rs)) = concat (map encodeRune (trim isSpace rs))"
  using assms by (simp add: TrimSpace_def pieces_concat trim_map trim_cong [of rs "space_piece \<circ> encodeRune" isSpace])

text \<open>A scrubbed name, rune by rune.\<close>

lemma scrubName_runes:
  "scrubName name = concat (map encodeRune (trim isSpace (filter name_rune (runes name))))"
proof -
  have "concat (map (\<lambda>r. if name_rune r then encodeRune r else []) rs) = concat (map encodeRune (filter name_rune rs))"
    for rs by (induction rs) simp_all
  then show ?thesis
    using TrimSpace_runes [of "filter name_rune (runes name)"] runes_valid by (auto simp: scrubName_def)
qed

lemma runes_scrubName: "runes (scrubName name) = trim isSpace (filter name_rune (runes name))"
  unfolding scrubName_runes by (rule runes_concat) (use set_trim runes_valid in fastforce)

lemma scrubName_idem: "scrubName (scrubName name) = scrubName name"
proof -
  have "filter name_rune (trim isSpace (filter name_rune (runes name))) = trim isSpace (filter name_rune (runes name))"
    by (rule filter_True) (use set_trim in fastforce)
  then show ?thesis by (simp add: scrubName_runes [of "scrubName name"] runes_scrubName trim_idem flip: scrubName_runes)
qed

lemma scrubName_bytes:
  assumes "c \<in> set (scrubName name)"
  shows "c \<noteq> dquote" "c \<noteq> CHR ''<''" "c \<noteq> CHR ''>''" "c \<noteq> newline"
proof -
  obtain r where r: "r \<in> set (trim isSpace (filter name_rune (runes name)))" "c \<in> set (encodeRune r)"
    using assms by (auto simp: scrubName_runes)
  then have "name_rune r" using set_trim by fastforce
  moreover have "0x80 \<le> bv c \<or> bv c = r"
    using r(2) encodeRune_high [of r c] by (cases "r < 0x80") (auto simp: encodeRune_ascii)
  ultimately show "c \<noteq> dquote" "c \<noteq> CHR ''<''" "c \<noteq> CHR ''>''" "c \<noteq> newline"
    by (auto simp: name_rune_def isCc_def)
qed

subsection \<open>Wrapping and unwrapping\<close>

lemma attrRe_at_attr:
  assumes "list_all attr_char k" "k \<noteq> []" "dquote \<notin> set v"
  shows "attrRe_at (k @ [CHR ''='', dquote] @ v @ dquote # rest) = Some ((k, v), rest)"
proof -
  have k: "\<forall>c\<in>set k. attr_char c" using assms(1) by (simp add: list_all_iff)
  have e: "\<not> attr_char (CHR ''='')" by (simp add: attr_char_def)
  have v: "\<forall>c\<in>set v. c \<noteq> dquote" using assms(3) by auto
  have "takeWhile attr_char (k @ CHR ''='' # dquote # v @ dquote # rest) = k"
    "dropWhile attr_char (k @ CHR ''='' # dquote # v @ dquote # rest) = CHR ''='' # dquote # v @ dquote # rest"
    by (rule takeWhile_append_stop [OF k e] dropWhile_append_stop [OF k e])+
  moreover have "takeWhile (\<lambda>c. c \<noteq> dquote) (v @ dquote # rest) = v"
    "dropWhile (\<lambda>c. c \<noteq> dquote) (v @ dquote # rest) = dquote # rest"
    using takeWhile_append_stop [OF v] dropWhile_append_stop [OF v] by simp_all
  ultimately show ?thesis using assms(2) by (simp add: attrRe_at_def)
qed

lemma findAttrs_attr:
  assumes "list_all attr_char k" "k \<noteq> []" "dquote \<notin> set v"
  shows "findAttrs (attr k v @ rest) = (if v = [] then [] else [(k, v)]) @ findAttrs rest"
proof (cases "v = []")
  case True
  then show ?thesis by (simp add: attr_def)
next
  case False
  have "attrRe_at (CHR '' '' # t) = None" for t by (simp add: attrRe_at_def attr_char_def)
  then have "findAttrs (attr k v @ rest) = findAttrs (k @ [CHR ''='', dquote] @ v @ dquote # rest)"
    using False by (subst findAttrs.simps) (simp add: attr_def)
  also have "\<dots> = (k, v) # findAttrs rest"
    using attrRe_at_attr [OF assms, of rest] assms(2)
    by (subst findAttrs.simps) (cases k, auto)
  finally show ?thesis using False by simp
qed

lemma attr_keys:
  "list_all attr_char attrFrom" "list_all attr_char attrName" "list_all attr_char attrMode"
  "attrFrom \<noteq> []" "attrName \<noteq> []" "attrMode \<noteq> []"
  by (simp_all add: attrFrom_def attrName_def attrMode_def attr_char_def)

lemma from_char_safe: "fromRe s \<Longrightarrow> c \<in> set s \<Longrightarrow> c \<noteq> dquote \<and> c \<noteq> CHR ''>''"
  by (auto simp: fromRe_def list_all_iff from_char_def name_char_def is_digit_def)

text \<open>The attribution that survives: each attribute by its own guard.\<close>

definition attributed :: "CrossSession \<Rightarrow> CrossSession" where
  "attributed cs = \<lparr>cs_From = (if fromRe (cs_From cs) then cs_From cs else []),
     cs_Name = scrubName (cs_Name cs),
     cs_Mode = (if cs_Mode cs = ModePrompting then ModePrompting else [])\<rparr>"

lemma findAttrs_Nil [simp]: "findAttrs [] = []"
  by (simp add: findAttrs.simps)

lemma findAttrs_open_attrs:
  "foldl set_attr zero_CrossSession (findAttrs (open_attrs cs)) = attributed cs"
proof -
  have q: "dquote \<notin> set (scrubName (cs_Name cs))" using scrubName_bytes(1) by blast
  have f: "dquote \<notin> set (cs_From cs)" if "fromRe (cs_From cs)" using from_char_safe [OF that] by blast
  have m: "dquote \<notin> set ModePrompting" "ModePrompting \<noteq> []" by (simp_all add: ModePrompting_def)
  note mode = findAttrs_attr [OF attr_keys(3,6) m(1), of "[]", simplified]
  note name = findAttrs_attr [OF attr_keys(2,5) q, of "[]", simplified]
  have ne: "attrName \<noteq> attrFrom" "attrMode \<noteq> attrFrom" "attrMode \<noteq> attrName"
    by (simp_all add: attrFrom_def attrName_def attrMode_def)
  have fne: "cs_From cs \<noteq> []" if "fromRe (cs_From cs)" using that by (auto simp: fromRe_def)
  show ?thesis
    by (cases "fromRe (cs_From cs)"; cases "cs_Mode cs = ModePrompting")
      (simp_all add: open_attrs_def findAttrs_attr attr_keys q f fne m mode name set_attr_def ne
        attributed_def zero_CrossSession_def)
qed

lemma open_attrs_no_gt: "c \<in> set (open_attrs cs) \<Longrightarrow> c \<noteq> CHR ''>''"
  using scrubName_bytes(3) from_char_safe
  by (fastforce simp: open_attrs_def attr_def attrFrom_def attrName_def attrMode_def ModePrompting_def
      split: if_splits)

lemma hd_open_attrs: "open_attrs cs = [] \<or> (\<exists>t. open_attrs cs = CHR '' '' # t)"
  by (auto simp: open_attrs_def attr_def)

lemma wrapperRe_Wrap: "wrapperRe (Wrap cs text) = Some (open_attrs cs, text)"
proof -
  let ?r = "open_attrs cs @ CHR ''>'' # newline # text @ close_tag"
  have g: "\<forall>c\<in>set (open_attrs cs). c \<noteq> CHR ''>''" using open_attrs_no_gt by blast
  have "Wrap cs text = (''<'' @ csElement) @ ?r" by (simp add: Wrap_def)
  moreover have "\<not> word_char (hd ?r)"
    using hd_open_attrs [of cs] by (auto simp: word_char_def is_digit_def)
  moreover have "takeWhile (\<lambda>c. c \<noteq> CHR ''>'') ?r = open_attrs cs"
    "dropWhile (\<lambda>c. c \<noteq> CHR ''>'') ?r = CHR ''>'' # newline # text @ close_tag"
    using takeWhile_append_stop [OF g] dropWhile_append_stop [OF g] by simp_all
  ultimately show ?thesis
    unfolding wrapperRe_def by (simp only: cut_prefix_append) (simp del: cut_suffix_Some)
qed

lemma Unwrap_Wrap: "Unwrap (Wrap cs text) = (attributed cs, text, True)"
  by (simp add: Unwrap_def wrapperRe_Wrap findAttrs_open_attrs)

text \<open>An accepted content is one element from its first byte to its last.\<close>

lemma wrapperRe_shape:
  assumes "wrapperRe content = Some (attrs, body)"
  shows "content = ''<'' @ csElement @ attrs @ [CHR ''>'', newline] @ body @ close_tag
    \<and> CHR ''>'' \<notin> set attrs"
proof -
  from assms obtain r b where r: "content = (''<'' @ csElement) @ r"
      "dropWhile (\<lambda>c. c \<noteq> CHR ''>'') r = [CHR ''>'', newline] @ b"
      "attrs = takeWhile (\<lambda>c. c \<noteq> CHR ''>'') r" "b = body @ close_tag"
    by (auto simp: wrapperRe_def split: option.splits if_splits)
  have "r = attrs @ [CHR ''>'', newline] @ b"
    using takeWhile_dropWhile_id [of "\<lambda>c. c \<noteq> CHR ''>''" r] r(2,3) by simp
  moreover have "CHR ''>'' \<notin> set attrs" using r(3) by (auto dest: set_takeWhileD)
  ultimately show ?thesis using r(1,4) by simp
qed

text \<open>
  (C18) An envelope always opens to what was put in it: for every attribution and every text,
  even one that contains a closing tag of its own, \<open>Unwrap\<close> of \<open>Wrap\<close> gives the text back
  unchanged, with each attribute exactly as its own guard leaves it. No name can add, hide or
  alter an attribute or end the element early.
\<close>

theorem wrap_round_trip: "Unwrap (Wrap cs text) = (attributed cs, text, True)"
  by (rule Unwrap_Wrap)

text \<open>
  \<open>Unwrap\<close> attributes only whole elements: when it reports an attribution, the content is
  one cross-session element from its first byte to its last and the body is everything between
  the tags; otherwise the content comes back untouched with no attribution.
\<close>

theorem unwrap_whole_elements:
  "case Unwrap content of (cs, body, ok) \<Rightarrow>
     if ok then \<exists>attrs. content = ''<'' @ csElement @ attrs @ [CHR ''>'', newline] @ body @ close_tag
            \<and> CHR ''>'' \<notin> set attrs \<and> cs = foldl set_attr zero_CrossSession (findAttrs attrs)
     else body = content \<and> cs = zero_CrossSession"
  by (auto simp: Unwrap_def split: option.splits dest!: wrapperRe_shape)

end
