(* ===== verification/Proc.thy ===== *)
theory Proc
  imports Attrib
begin

text \<open>
  \<open>udsmsg/proc.go\<close> and the platform files \<open>peer_linux.go\<close>, \<open>peer_darwin.go\<close> and
  \<open>peer_other.go\<close> with \<open>peer.go\<close>: who a process is, read from \<open>/proc\<close> and from the
  credentials the kernel attaches to a connection.
\<close>

datatype proc_error = ProcOS os_error | ProcMalformed | ProcFields nat | NoMachineID

text \<open>Index 19 of the fields after the last parenthesis is field 22 of the file.\<close>

definition startTimeIdx :: nat where "startTimeIdx = 19"

definition proc_path :: "int \<Rightarrow> gostring \<Rightarrow> gostring" where
  "proc_path pid leaf = ''/proc/'' @ itoa pid @ ''/'' @ leaf"

definition ProcStart :: "host \<Rightarrow> int \<Rightarrow> proc_error + gostring" where
  "ProcStart h pid =
     (case os_readFile h (proc_path pid ''stat'') of
        Inl e \<Rightarrow> Inl (ProcOS e)
      | Inr b \<Rightarrow>
          (case after_last (CHR '')'') b of
             None \<Rightarrow> Inl ProcMalformed
           | Some t \<Rightarrow>
               (let fields = Fields t in
                if length fields \<le> startTimeIdx then Inl (ProcFields (length fields))
                else Inr (fields ! startTimeIdx))))"

text \<open>The first of the two files with something other than white space in it.\<close>

fun first_id :: "host \<Rightarrow> gostring list \<Rightarrow> proc_error + gostring" where
  "first_id h [] = Inl NoMachineID"
| "first_id h (p # ps) =
     (case os_readFile h p of
        Inl _ \<Rightarrow> first_id h ps
      | Inr b \<Rightarrow> (let mid = TrimSpace b in if mid \<noteq> [] then Inr mid else first_id h ps))"

definition machineID :: "host \<Rightarrow> proc_error + gostring" where
  "machineID h = first_id h [''/etc/machine-id'', ''/var/lib/dbus/machine-id'']"

definition pidDomain :: "host \<Rightarrow> int \<Rightarrow> proc_error + gostring" where
  "pidDomain h pid =
     (case machineID h of
        Inl e \<Rightarrow> Inl e
      | Inr mid \<Rightarrow>
          (case os_readlink h (proc_path pid ''ns/pid'') of
             Inl e \<Rightarrow> Inl (ProcOS e)
           | Inr ns \<Rightarrow> Inr (''linux:'' @ mid @ '':'' @ ns)))"

definition Alive :: "host \<Rightarrow> int \<Rightarrow> gostring \<Rightarrow> bool" where
  "Alive h pid procStart =
     (case ProcStart h pid of
        Inl _ \<Rightarrow> False
      | Inr got \<Rightarrow> procStart = [] \<or> got = procStart)"

definition EnvMessagingSocket :: gostring where "EnvMessagingSocket = ''CLAUDE_CODE_MESSAGING_SOCKET''"
definition EnvMessagingToken :: gostring where "EnvMessagingToken = ''CLAUDE_CODE_MESSAGING_TOKEN''"

datatype mode_error = NoParent | NoParentPID | ParentUnreadable os_error

definition DetectParentMode :: "host \<Rightarrow> mode_error + Mode" where
  "DetectParentMode h =
     (let sock = getenv h EnvMessagingSocket in
      if sock = [] then Inl NoParent
      else case PIDFromSocketName (path_base sock) of
             None \<Rightarrow> Inl NoParentPID
           | Some pid \<Rightarrow>
               (case os_readFile h (proc_path pid ''cmdline'') of
                  Inl e \<Rightarrow> Inl (ParentUnreadable e)
                | Inr _ \<Rightarrow> Inr ModePrompting))"

subsection \<open>Peers\<close>

record Peer =
  PID :: int                \<comment> \<open>an int32\<close>
  UID :: "32 word"
  GID :: "32 word"
  PeerProcStart :: gostring
  Authed :: bool
  Addr :: gostring
  Identified :: bool

definition zero_Peer :: Peer where
  "zero_Peer = \<lparr>PID = 0, UID = 0, GID = 0, PeerProcStart = [], Authed = False, Addr = [],
     Identified = False\<rparr>"

definition Authenticated :: "Peer \<Rightarrow> bool" where
  "Authenticated p \<longleftrightarrow> Authed p"

text \<open>
  What the kernel answers: a pid, a uid and the groups, or an error. Linux answers in one
  struct with one gid, macOS in two calls with a list of groups, other systems not at all.
\<close>

datatype kernel_cred =
    LinuxCred int "32 word" "32 word"
  | DarwinCred int "32 word" "32 word list"
  | CredError
  | NoCreds

datatype cred_error = CredFailed | ErrPeerCredsUnavailable

definition peer_start :: "host \<Rightarrow> int \<Rightarrow> gostring" where
  "peer_start h pid = (case ProcStart h pid of Inl _ \<Rightarrow> [] | Inr ps \<Rightarrow> ps)"

definition int32 :: "int \<Rightarrow> int" where
  "int32 i = (i + 2 ^ 31) mod 2 ^ 32 - 2 ^ 31"

definition peerCred_linux :: "host \<Rightarrow> int \<Rightarrow> 32 word \<Rightarrow> 32 word \<Rightarrow> Peer" where
  "peerCred_linux h pid uid gid =
     zero_Peer\<lparr>PID := pid, UID := uid, GID := gid, Identified := True, PeerProcStart := peer_start h pid\<rparr>"

definition peerCred_darwin :: "host \<Rightarrow> int \<Rightarrow> 32 word \<Rightarrow> 32 word list \<Rightarrow> Peer" where
  "peerCred_darwin h pid uid groups =
     zero_Peer\<lparr>PID := int32 pid, UID := uid, Identified := True,
       GID := (case groups of [] \<Rightarrow> 0 | g # _ \<Rightarrow> g), PeerProcStart := peer_start h pid\<rparr>"

definition peerCred :: "host \<Rightarrow> kernel_cred \<Rightarrow> cred_error + Peer" where
  "peerCred h k =
     (case k of
        LinuxCred pid uid gid \<Rightarrow> Inr (peerCred_linux h pid uid gid)
      | DarwinCred pid uid gs \<Rightarrow> Inr (peerCred_darwin h pid uid gs)
      | CredError \<Rightarrow> Inl CredFailed
      | NoCreds \<Rightarrow> Inl ErrPeerCredsUnavailable)"

lemma peerCred_fresh: "peerCred h k = Inr p \<Longrightarrow> \<not> Authed p \<and> Identified p"
  by (auto simp: peerCred_def peerCred_linux_def peerCred_darwin_def zero_Peer_def
      split: kernel_cred.splits)

subsection \<open>The start time survives any command name\<close>

text \<open>A word of the file: printable ASCII without white space.\<close>

definition plain_word :: "gostring \<Rightarrow> bool" where
  "plain_word w \<longleftrightarrow> w \<noteq> [] \<and> list_all (\<lambda>c. 0x20 < bv c \<and> bv c < 0x7F \<and> c \<noteq> CHR '')'') w"

lemma plain_wordD:
  assumes "plain_word w"
  shows "w \<noteq> []" "list_all (\<lambda>c. 0x20 < bv c \<and> bv c < 0x7F) w" "list_all (\<lambda>c. bv c < 0x80) w"
    "CHR '')'' \<notin> set w"
proof -
  have *: "w \<noteq> []" "\<And>c. c \<in> set w \<Longrightarrow> 0x20 < bv c" "\<And>c. c \<in> set w \<Longrightarrow> bv c < 0x7F"
      "\<And>c. c \<in> set w \<Longrightarrow> c \<noteq> CHR '')''"
    using assms unfolding plain_word_def list_all_iff by blast+
  then show "w \<noteq> []" "CHR '')'' \<notin> set w" by blast+
  show "list_all (\<lambda>c. 0x20 < bv c \<and> bv c < 0x7F) w" using *(2,3) unfolding list_all_iff by blast
  show "list_all (\<lambda>c. bv c < 0x80) w"
    unfolding list_all_iff by (rule ballI, drule *(3)) linarith
qed

lemma pieces_ascii_Cons: "bv c < 0x80 \<Longrightarrow> pieces (c # t) = [c] # pieces t"
  by (subst pieces_step) simp_all

lemma pieces_ascii: "list_all (\<lambda>c. bv c < 0x80) s \<Longrightarrow> pieces (s @ t) = map (\<lambda>c. [c]) s @ pieces t"
  by (induction s) (simp_all add: pieces_ascii_Cons)

lemma pieces_space: "pieces (CHR '' '' # t) = '' '' # pieces t" "space_piece '' ''"
  by (simp_all add: pieces_ascii_Cons space_piece_def isSpace_def)

lemma pieces_newline: "pieces [newline] = [[newline]]" "space_piece [newline]"
  by (simp_all add: pieces_ascii_Cons space_piece_def isSpace_def)

lemma space_piece_ascii: "bv c < 0x80 \<Longrightarrow> space_piece [c] = isSpace (bv c)"
  by (simp add: space_piece_def)

lemma fields_word:
  "list_all (\<lambda>c. 0x20 < bv c \<and> bv c < 0x7F) w \<Longrightarrow> fields_of cur (map (\<lambda>c. [c]) w @ ps) = fields_of (cur @ w) ps"
proof (induction w arbitrary: cur)
  case (Cons c w)
  then have "\<not> space_piece [c]" by (auto simp: space_piece_ascii isSpace_def)
  with Cons show ?case by simp
qed simp

lemma Fields_words:
  assumes "\<forall>w\<in>set ws. plain_word w"
  shows "fields_of [] (pieces (join_with '' '' ws @ [newline])) = ws"
  using assms
proof (induction ws)
  case Nil
  show ?case by (simp add: pieces_newline)
next
  case (Cons w ws)
  have "plain_word w" using Cons.prems by simp
  note w = plain_wordD [OF this]
  have cut: "fields_of [] (pieces (w @ t)) = fields_of w (pieces t)" for t
    unfolding pieces_ascii [OF w(3)] fields_word [OF w(2)] by simp
  show ?case
  proof (cases "ws = []")
    case True
    then show ?thesis using w(1) by (simp only: join_with.simps append_assoc cut) (simp add: pieces_newline)
  next
    case False
    have "fields_of [] (pieces (join_with '' '' ws @ [newline])) = ws" using Cons by simp
    then show ?thesis
      using w(1) by (simp only: join_with_Cons False if_False append_assoc append.simps cut pieces_space) (simp add: pieces_space)
  qed
qed

text \<open>A \<open>stat\<close> line: the pid, the command in parentheses, and the remaining fields.\<close>

definition stat_line :: "int \<Rightarrow> gostring \<Rightarrow> gostring list \<Rightarrow> gostring" where
  "stat_line pid comm ws = itoa pid @ '' ('' @ comm @ '') '' @ join_with '' '' ws @ [newline]"

lemma after_last_stop: "c \<notin> set t \<Longrightarrow> after_last c (s @ c # t) = Some t"
proof -
  assume "c \<notin> set t"
  then have "takeWhile (\<lambda>d. d \<noteq> c) (rev t @ c # rev s) = rev t"
    by (intro takeWhile_append_stop) auto
  then show ?thesis by (simp add: after_last_def)
qed

lemma join_words_no_paren:
  "\<forall>w\<in>set ws. plain_word w \<Longrightarrow> CHR '')'' \<notin> set (join_with '' '' ws)"
  by (induction ws) (simp_all add: join_with_Cons plain_wordD(4))

lemma ProcStart_stat_line:
  assumes "os_readFile h (proc_path pid ''stat'') = Inr (stat_line pid comm ws)"
    and "\<forall>w\<in>set ws. plain_word w" and "startTimeIdx < length ws"
  shows "ProcStart h pid = Inr (ws ! startTimeIdx)"
proof -
  let ?t = "CHR '' '' # join_with '' '' ws @ [newline]"
  have "stat_line pid comm ws = (itoa pid @ '' ('' @ comm) @ CHR '')'' # ?t" by (simp add: stat_line_def)
  moreover have "CHR '')'' \<notin> set ?t" using join_words_no_paren [OF assms(2)] by simp
  ultimately have "after_last (CHR '')'') (stat_line pid comm ws) = Some ?t"
    using after_last_stop by metis
  moreover have "Fields ?t = ws"
    using Fields_words [OF assms(2)]
    by (simp add: Fields_def pieces_space)
  ultimately show ?thesis using assms(1,3) by (simp add: ProcStart_def)
qed

text \<open>
  The start time of a process is read correctly whatever the process is called: from a
  \<open>stat\<close> file whose command field holds any bytes, closing parentheses, spaces and newlines
  included, \<open>ProcStart\<close> returns the twenty-second field of the line.
\<close>

theorem proc_start_any_command:
  assumes "os_readFile h (proc_path pid ''stat'') = Inr (stat_line pid comm ws)"
    and "\<forall>w\<in>set ws. plain_word w" and "20 \<le> length ws"
  shows "ProcStart h pid = Inr (ws ! 19)"
  using ProcStart_stat_line [OF assms(1,2)] assms(3) by (simp add: startTimeIdx_def)

theorem proc_start_any_command_witness:
  "ProcStart (idle_host\<lparr>h_fs := [proc_path 7 ''stat'' \<mapsto> \<lparr>n_kind = KFile, n_perm = 292, n_uid = 0,
     n_data = stat_line 7 '') 1 (x'' (replicate 19 ''0'' @ [''555''])\<rparr>]\<rparr>) 7 = Inr ''555''"
  by (rule trans [OF proc_start_any_command [where ws = "replicate 19 ''0'' @ [''555'']" and comm = "'') 1 (x''"]])
    (simp_all add: os_readFile_def idle_host_def plain_word_def nth_append)

end
