(* ===== verification/Sha.thy ===== *)
theory Sha
  imports Prelude
begin

text \<open>
  The two digests the program takes from Go's \<open>crypto\<close> packages: \<open>sha256.Sum256\<close>, which
  names a key file after its socket, and \<open>sha1.Sum\<close>, which the WebSocket handshake compares.
  Both are written from FIPS 180-4 over 32-bit words and compute.
\<close>

unbundle bit_operations_syntax

type_synonym w32 = "32 word"

subsection \<open>Padding and words\<close>

definition be64 :: "nat \<Rightarrow> bytes" where
  "be64 n = map (\<lambda>i. ucast (drop_bit (8 * (7 - i)) (word_of_nat n :: 64 word))) [0..<8]"

definition sha_pad :: "bytes \<Rightarrow> bytes" where
  "sha_pad m = m @ [0x80] @ replicate ((119 - length m mod 64) mod 64) 0 @ be64 (8 * length m)"

definition be_word :: "bytes \<Rightarrow> w32" where
  "be_word bs = foldl (\<lambda>w b. push_bit 8 w OR ucast b) 0 bs"

fun be_words :: "bytes \<Rightarrow> w32 list" where
  "be_words (a # b # c # d # r) = be_word [a, b, c, d] # be_words r"
| "be_words _ = []"

definition word_be :: "w32 \<Rightarrow> bytes" where
  "word_be w = map (\<lambda>i. ucast (drop_bit (8 * (3 - i)) w)) [0..<4]"

function blocks :: "'a list \<Rightarrow> 'a list list" where
  "blocks ws = (if ws = [] then [] else take 16 ws # blocks (drop 16 ws))"
  by pat_completeness auto
termination
  by (relation "measure length") auto

declare blocks.simps [simp del]

text \<open>The message schedule: a window of sixteen words, each step emits its head.\<close>

fun schedule :: "(w32 list \<Rightarrow> w32) \<Rightarrow> nat \<Rightarrow> w32 list \<Rightarrow> w32 list" where
  "schedule nxt 0 ws = []"
| "schedule nxt (Suc n) ws = hd ws # schedule nxt n (tl ws @ [nxt ws])"

subsection \<open>SHA-256\<close>

text \<open>The constants of the standard, in decimal.\<close>

definition sha256_K :: "w32 list" where
  "sha256_K =
    [1116352408, 1899447441, 3049323471, 3921009573, 961987163, 1508970993, 2453635748,
     2870763221, 3624381080, 310598401, 607225278, 1426881987, 1925078388, 2162078206,
     2614888103, 3248222580, 3835390401, 4022224774, 264347078, 604807628, 770255983,
     1249150122, 1555081692, 1996064986, 2554220882, 2821834349, 2952996808, 3210313671,
     3336571891, 3584528711, 113926993, 338241895, 666307205, 773529912, 1294757372,
     1396182291, 1695183700, 1986661051, 2177026350, 2456956037, 2730485921, 2820302411,
     3259730800, 3345764771, 3516065817, 3600352804, 4094571909, 275423344, 430227734,
     506948616, 659060556, 883997877, 958139571, 1322822218, 1537002063, 1747873779,
     1955562222, 2024104815, 2227730452, 2361852424, 2428436474, 2756734187, 3204031479,
     3329325298]"

definition sha256_init :: "w32 list" where
  "sha256_init =
    [1779033703, 3144134277, 1013904242, 2773480762, 1359893119, 2600822924, 528734635,
     1541459225]"

definition small0 :: "w32 \<Rightarrow> w32" where
  "small0 x = word_rotr 7 x XOR word_rotr 18 x XOR drop_bit 3 x"

definition small1 :: "w32 \<Rightarrow> w32" where
  "small1 x = word_rotr 17 x XOR word_rotr 19 x XOR drop_bit 10 x"

definition big0 :: "w32 \<Rightarrow> w32" where
  "big0 x = word_rotr 2 x XOR word_rotr 13 x XOR word_rotr 22 x"

definition big1 :: "w32 \<Rightarrow> w32" where
  "big1 x = word_rotr 6 x XOR word_rotr 11 x XOR word_rotr 25 x"

definition sha256_next :: "w32 list \<Rightarrow> w32" where
  "sha256_next ws = small1 (ws ! 14) + ws ! 9 + small0 (ws ! 1) + ws ! 0"

definition sha_ch :: "w32 \<Rightarrow> w32 \<Rightarrow> w32 \<Rightarrow> w32" where
  "sha_ch e f g = (e AND f) XOR (NOT e AND g)"

definition sha_maj :: "w32 \<Rightarrow> w32 \<Rightarrow> w32 \<Rightarrow> w32" where
  "sha_maj a b c = (a AND b) XOR (a AND c) XOR (b AND c)"

fun sha256_round :: "w32 list \<Rightarrow> w32 \<times> w32 \<Rightarrow> w32 list" where
  "sha256_round [a, b, c, d, e, f, g, h] (k, w) =
     (let t1 = h + big1 e + sha_ch e f g + k + w;
          t2 = big0 a + sha_maj a b c
      in [t1 + t2, a, b, c, d + t1, e, f, g])"
| "sha256_round st _ = st"

definition sha256_block :: "w32 list \<Rightarrow> w32 list \<Rightarrow> w32 list" where
  "sha256_block st ws =
     map2 (+) st (foldl sha256_round st (zip sha256_K (schedule sha256_next 64 ws)))"

definition sha256_Sum256 :: "bytes \<Rightarrow> bytes" where
  "sha256_Sum256 m =
     concat (map word_be (foldl sha256_block sha256_init (blocks (be_words (sha_pad m)))))"

subsection \<open>SHA-1\<close>

definition sha1_init :: "w32 list" where
  "sha1_init = [1732584193, 4023233417, 2562383102, 271733878, 3285377520]"

definition sha1_next :: "w32 list \<Rightarrow> w32" where
  "sha1_next ws = word_rotl 1 (ws ! 13 XOR ws ! 8 XOR ws ! 2 XOR ws ! 0)"

definition sha1_K :: "w32 list" where
  "sha1_K = replicate 20 1518500249 @ replicate 20 1859775393 @ replicate 20 2400959708
     @ replicate 20 3395469782"

definition sha1_fs :: "(w32 \<Rightarrow> w32 \<Rightarrow> w32 \<Rightarrow> w32) list" where
  "sha1_fs = replicate 20 sha_ch @ replicate 20 (\<lambda>b c d. b XOR c XOR d) @ replicate 20 sha_maj
     @ replicate 20 (\<lambda>b c d. b XOR c XOR d)"

fun sha1_round ::
    "w32 list \<Rightarrow> (w32 \<Rightarrow> w32 \<Rightarrow> w32 \<Rightarrow> w32) \<times> w32 \<times> w32 \<Rightarrow> w32 list" where
  "sha1_round [a, b, c, d, e] (f, k, w) = [word_rotl 5 a + f b c d + e + k + w, a, word_rotl 30 b, c, d]"
| "sha1_round st _ = st"

definition sha1_block :: "w32 list \<Rightarrow> w32 list \<Rightarrow> w32 list" where
  "sha1_block st ws =
     map2 (+) st (foldl sha1_round st (zip sha1_fs (zip sha1_K (schedule sha1_next 80 ws))))"

definition sha1_Sum :: "bytes \<Rightarrow> bytes" where
  "sha1_Sum m = concat (map word_be (foldl sha1_block sha1_init (blocks (be_words (sha_pad m)))))"

subsection \<open>Sizes\<close>

lemma length_word_be [simp]: "length (word_be w) = 4"
  by (simp add: word_be_def)

lemma length_concat_word_be: "length (concat (map word_be ws)) = 4 * length ws"
  by (induction ws) simp_all

lemma length_sha256_round [simp]: "length (sha256_round st kw) = length st"
  by (induction st kw rule: sha256_round.induct) (simp_all add: Let_def)

lemma length_foldl_round:
  assumes "\<And>st x. length (f st x) = length (st :: w32 list)"
  shows "length (foldl f st xs) = length st"
  by (induction xs arbitrary: st) (simp_all add: assms)

lemma length_sha256 [simp]: "length (sha256_Sum256 m) = 32"
proof -
  have "length (sha256_block st ws) = length st" for st ws
    by (simp add: sha256_block_def length_foldl_round)
  then show ?thesis
    by (simp add: sha256_Sum256_def length_concat_word_be length_foldl_round sha256_init_def)
qed

lemma length_sha1_round [simp]: "length (sha1_round st kw) = length st"
  by (induction st kw rule: sha1_round.induct) simp_all

lemma length_sha1 [simp]: "length (sha1_Sum m) = 20"
proof -
  have "length (sha1_block st ws) = length st" for st ws
    by (simp add: sha1_block_def length_foldl_round)
  then show ?thesis
    by (simp add: sha1_Sum_def length_concat_word_be length_foldl_round sha1_init_def)
qed

end
