(* ===== verification/Keyfile.thy ===== *)
theory Keyfile
  imports Proc Sha
begin

text \<open>
  \<open>udsmsg/keyfile.go\<close>: the file in which a session publishes the token of its inbox. Random
  suffixes and tokens are arguments.
\<close>

definition maxKeyFileBytes :: nat where "maxKeyFileBytes = 4096"

record Key =
  PeerToken :: gostring
  KeyProcStart :: gostring
  PIDDomain :: gostring

definition zero_Key :: Key where "zero_Key = \<lparr>PeerToken = [], KeyProcStart = [], PIDDomain = []\<rparr>"

datatype key_error =
    KeyOS os_error
  | KeyNoCwd                     \<comment> \<open>\<open>filepath.Abs\<close> found no working directory\<close>
  | KeyTooLarge nat
  | KeyParse

definition sessionsDir :: "host \<Rightarrow> gostring" where
  "sessionsDir h =
     (case userHomeDir h of
        None \<Rightarrow> path_join [''/root'', ''.claude'', ''sessions'']
      | Some home \<Rightarrow> path_join [home, ''.claude'', ''sessions''])"

text \<open>
  The name of a key file is made from the canonical path of the socket; a socket that has gone
  away cannot be resolved, and the lexical path stands in for it.
\<close>

definition key_name_of :: "host \<Rightarrow> int \<Rightarrow> gostring \<Rightarrow> key_error + gostring" where
  "key_name_of h pid canon =
     (case path_abs h canon of
        None \<Rightarrow> Inl KeyNoCwd
      | Some a \<Rightarrow> Inr (itoa pid @ ''.'' @ hexEncode (sha256_Sum256 (bytes_of a)) @ ''.key''))"

definition keyFileName :: "host \<Rightarrow> int \<Rightarrow> gostring \<Rightarrow> key_error + gostring" where
  "keyFileName h pid socketPath =
     key_name_of h pid (case evalSymlinks h socketPath of Some q \<Rightarrow> q | None \<Rightarrow> Clean socketPath)"

definition dec_Key :: "Key field_decoder" where
  "dec_Key k kv =
     (case kv of (n, _, v) \<Rightarrow>
        if foldName n = foldName ''peerToken'' then map_option (\<lambda>x. k\<lparr>PeerToken := x\<rparr>) (dec_str (PeerToken k) v)
        else if foldName n = foldName ''procStart'' then
          map_option (\<lambda>x. k\<lparr>KeyProcStart := x\<rparr>) (dec_str (KeyProcStart k) v)
        else if foldName n = foldName ''pidDomain'' then
          map_option (\<lambda>x. k\<lparr>PIDDomain := x\<rparr>) (dec_str (PIDDomain k) v)
        else Some k)"

definition unmarshalKey :: "gostring \<Rightarrow> Key option" where
  "unmarshalKey b = (case json_parse b of None \<Rightarrow> None | Some v \<Rightarrow> dec_struct dec_Key zero_Key v)"

definition json_of_Key :: "Key \<Rightarrow> json" where
  "json_of_Key k = JObj [jmember ''peerToken'' (JStr (PeerToken k)),
     jmember ''procStart'' (JStr (KeyProcStart k)), jmember ''pidDomain'' (JStr (PIDDomain k))]"

definition marshalKey :: "Key \<Rightarrow> gostring" where
  "marshalKey k = json_print (json_of_Key k)"

text \<open>\<open>ReadKey\<close>: \<open>Inr None\<close> is the \<open>(nil, nil)\<close> of a session that published no key.\<close>

definition ReadKey :: "host \<Rightarrow> int \<Rightarrow> gostring \<Rightarrow> key_error + Key option" where
  "ReadKey h pid socketPath =
     (case keyFileName h pid socketPath of
        Inl e \<Rightarrow> Inl e
      | Inr name \<Rightarrow>
          (let path = path_join [sessionsDir h, name] in
           case os_stat h path of
             Inl ENOENT \<Rightarrow> Inr None
           | Inl e \<Rightarrow> Inl (KeyOS e)
           | Inr fi \<Rightarrow>
               if maxKeyFileBytes < length (n_data fi) then Inl (KeyTooLarge (length (n_data fi)))
               else (case os_readFile h path of
                       Inl e \<Rightarrow> Inl (KeyOS e)
                     | Inr b \<Rightarrow>
                         (case unmarshalKey b of None \<Rightarrow> Inl KeyParse | Some k \<Rightarrow> Inr (Some k)))))"

text \<open>\<open>writeKey\<close>: the error, if any, and the hosts a reader can see meanwhile.\<close>

definition key_tmp :: "host \<Rightarrow> gostring \<Rightarrow> bytes \<Rightarrow> gostring" where
  "key_tmp h name sfx = path_join [sessionsDir h, name @ ''.tmp.'' @ hexEncode sfx]"

definition writeKey :: "bytes \<Rightarrow> host \<Rightarrow> int \<Rightarrow> gostring \<Rightarrow> Key \<Rightarrow> key_error option \<times> host list" where
  "writeKey sfx h pid socketPath k =
     (case keyFileName h pid socketPath of
        Inl e \<Rightarrow> (Some e, [h])
      | Inr name \<Rightarrow>
          (case os_mkdirAll h (sessionsDir h) mode_0700 of
             Inl e \<Rightarrow> (Some (KeyOS e), [h])
           | Inr h1 \<Rightarrow>
               (let b = marshalKey k in
                if maxKeyFileBytes < length b then (Some (KeyTooLarge (length b)), [h, h1])
                else (case put_file h1 (key_tmp h name sfx) (path_join [sessionsDir h, name]) b of
                        (e, hs) \<Rightarrow> (map_option KeyOS e, h # hs)))))"

definition removeKey :: "host \<Rightarrow> int \<Rightarrow> gostring \<Rightarrow> key_error option \<times> host" where
  "removeKey h pid socketPath =
     (case keyFileName h pid socketPath of
        Inl e \<Rightarrow> (Some e, h)
      | Inr name \<Rightarrow>
          (case os_remove h (path_join [sessionsDir h, name]) of
             Inl ENOENT \<Rightarrow> (None, h)
           | Inl e \<Rightarrow> (Some (KeyOS e), h)
           | Inr h' \<Rightarrow> (None, h')))"

definition newToken :: "bytes \<Rightarrow> gostring" where
  "newToken rnd = hexEncode rnd"

subsection \<open>The content of a key file\<close>

definition norm_Key :: "Key \<Rightarrow> Key" where
  "norm_Key k = \<lparr>PeerToken = toValid (PeerToken k), KeyProcStart = toValid (KeyProcStart k),
     PIDDomain = toValid (PIDDomain k)\<rparr>"

lemma key_names:
  "foldName ''peerToken'' = [80, 69, 69, 82, 84, 79, 75, 69, 78]"
  "foldName ''procStart'' = [80, 82, 79, 67, 83, 84, 65, 82, 84]"
  "foldName ''pidDomain'' = [80, 73, 68, 68, 79, 77, 65, 73, 78]"
  by (simp_all add: foldName_def runes_ascii foldRune_def)

lemma dec_Key_keys [json_simps]:
  "dec_Key k (''peerToken'', r, v) = map_option (\<lambda>x. k\<lparr>PeerToken := x\<rparr>) (dec_str (PeerToken k) v)"
  "dec_Key k (''procStart'', r, v) = map_option (\<lambda>x. k\<lparr>KeyProcStart := x\<rparr>) (dec_str (KeyProcStart k) v)"
  "dec_Key k (''pidDomain'', r, v) = map_option (\<lambda>x. k\<lparr>PIDDomain := x\<rparr>) (dec_str (PIDDomain k) v)"
  by (simp_all add: dec_Key_def key_names)

lemma unmarshal_marshal_Key: "unmarshalKey (marshalKey k) = Some (norm_Key k)"
proof -
  have p: "printable (json_of_Key k)" by (simp add: json_of_Key_def jmember_def)
  have "jdepth (json_of_Key k) \<le> Suc 1"
    unfolding json_of_Key_def by (rule jdepth_JObj_le) (simp add: jmember_def)
  then have d: "jdepth (json_of_Key k) \<le> maxNestingDepth" by (simp add: maxNestingDepth_def)
  have v: "toValid ''peerToken'' = ''peerToken''" "toValid ''procStart'' = ''procStart''"
    "toValid ''pidDomain'' = ''pidDomain''" by (simp_all add: toValid_ascii)
  show ?thesis
    unfolding unmarshalKey_def marshalKey_def json_parse_print [OF p d]
    by (simp add: json_of_Key_def jmember_def dec_struct_def json_simps v dec_str_def zero_Key_def norm_Key_def)
qed

subsection \<open>Publishing, reading and removing\<close>

lemma key_name_of_cong:
  assumes "same_host h h'"
  shows "key_name_of h' pid q = key_name_of h pid q"
  by (simp only: key_name_of_def path_abs_def same_hostD [OF assms])

text \<open>The name depends on the files only through whether the socket is there.\<close>

lemma keyFileName_cong:
  assumes "same_host h h'" "h_fs h' p = None \<longleftrightarrow> h_fs h p = None"
  shows "keyFileName h' pid p = keyFileName h pid p"
proof -
  have "evalSymlinks h' p = evalSymlinks h p"
    using assms(2) same_hostD(7) [OF assms(1)]
    by (cases "h_fs h p"; cases "h_fs h' p") (simp_all add: evalSymlinks_def)
  then show ?thesis by (simp add: keyFileName_def key_name_of_cong [OF assms(1)])
qed

lemma keyFileName_gone: "h_fs h p = None \<Longrightarrow> keyFileName h pid p = key_name_of h pid (Clean p)"
  by (simp add: keyFileName_def evalSymlinks_def)

lemma key_name_of_shape:
  "key_name_of h pid q = Inr name \<Longrightarrow> \<exists>a. name = itoa pid @ ''.'' @ hexEncode (sha256_Sum256 a) @ ''.key''"
  by (auto simp: key_name_of_def split: option.splits)

lemma key_name_of_total: "h_cwd h = Some wd \<Longrightarrow> \<exists>name. key_name_of h pid q = Inr name"
  by (simp add: key_name_of_def path_abs_def)

lemma keyFileName_shape:
  "keyFileName h pid p = Inr name \<Longrightarrow> \<exists>a. name = itoa pid @ ''.'' @ hexEncode (sha256_Sum256 a) @ ''.key''"
  unfolding keyFileName_def by (rule key_name_of_shape)

lemma keyFileName_total: "h_cwd h = Some wd \<Longrightarrow> \<exists>name. keyFileName h pid p = Inr name"
  unfolding keyFileName_def by (rule key_name_of_total)

lemma sessionsDir_cong:
  assumes "same_host h h'"
  shows "sessionsDir h' = sessionsDir h"
  by (simp only: sessionsDir_def userHomeDir_def getenv_def same_hostD [OF assms])

lemma itoa_no_slash: "slash \<notin> set (itoa i)"
proof -
  have "slash \<notin> set (nat_dec n)" for n
    using nat_dec_digits [of n] by (auto simp: list_all_iff is_digit_def)
  then show ?thesis by (simp add: itoa_def)
qed

lemma hexEncode_no_slash: "slash \<notin> set (hexEncode b)"
  using hexEncode_hex [of b] by (auto simp: list_all_iff is_hex_def)

lemma plain_nameI: "slash \<notin> set s \<Longrightarrow> 2 < length s \<Longrightarrow> plain_name s"
  by (auto simp: plain_name_def)

lemma key_shape_plain:
  assumes n: "name = itoa pid @ ''.'' @ hexEncode (sha256_Sum256 a) @ ''.key''"
  shows "plain_name name" "plain_name (name @ ''.tmp.'' @ hexEncode b)" "name \<noteq> ''sessions''"
proof -
  have s: "slash \<notin> set name" using itoa_no_slash hexEncode_no_slash by (simp add: n)
  have l: "64 < length name" by (simp add: n)
  show "plain_name name" "plain_name (name @ ''.tmp.'' @ hexEncode b)"
    using s l hexEncode_no_slash by (simp_all add: plain_nameI)
  show "name \<noteq> ''sessions''" using l by auto
qed

lemma key_name_of_plain: "key_name_of h pid q = Inr name \<Longrightarrow> plain_name name"
  by (drule key_name_of_shape, elim exE, rule key_shape_plain(1))

lemma keyFileName_plain:
  assumes "keyFileName h pid p = Inr name"
  shows "plain_name name" "plain_name (name @ ''.tmp.'' @ hexEncode b)" "name \<noteq> ''sessions''"
proof -
  obtain a where a: "name = itoa pid @ ''.'' @ hexEncode (sha256_Sum256 a) @ ''.key''"
    using keyFileName_shape [OF assms] by (elim exE)
  show "plain_name name" by (rule key_shape_plain(1) [OF a])
  show "plain_name (name @ ''.tmp.'' @ hexEncode b)" by (rule key_shape_plain(2) [OF a])
  show "name \<noteq> ''sessions''" by (rule key_shape_plain(3) [OF a])
qed

lemma sessionsDir_base: "path_base (sessionsDir h) = ''sessions''"
proof -
  have "path_join [a, ''.claude'', ''sessions''] = path_join [a @ ''/.claude'', ''sessions'']" if "a \<noteq> []" for a
    using that by (simp add: path_join_def)
  moreover have "plain_name ''sessions''" by (simp add: plain_name_def)
  ultimately show ?thesis
    by (auto simp: sessionsDir_def userHomeDir_def Let_def split: option.splits if_splits)
qed

text \<open>The three paths of a publication are distinct.\<close>

lemma key_paths:
  assumes "keyFileName h pid p = Inr name"
  shows "key_tmp h name sfx \<noteq> path_join [sessionsDir h, name]"
    "key_tmp h name sfx \<noteq> sessionsDir h" "path_join [sessionsDir h, name] \<noteq> sessionsDir h"
proof -
  note pl = keyFileName_plain(1) [OF assms] keyFileName_plain(2) [OF assms, of sfx] keyFileName_plain(3) [OF assms]
  have b: "path_base (key_tmp h name sfx) = name @ ''.tmp.'' @ hexEncode sfx"
    "path_base (path_join [sessionsDir h, name]) = name"
    using path_base_path_join [OF pl(1)] path_base_path_join [OF pl(2)] by (simp_all add: key_tmp_def)
  have "name @ ''.tmp.'' @ hexEncode sfx \<noteq> ''sessions''"
    using pl by (auto simp: append_eq_Cons_conv)
  then show "key_tmp h name sfx \<noteq> path_join [sessionsDir h, name]"
    "key_tmp h name sfx \<noteq> sessionsDir h" "path_join [sessionsDir h, name] \<noteq> sessionsDir h"
    using b sessionsDir_base [of h] pl(3) by (metis append_self_conv list.discI append_is_Nil_conv)+
qed

lemma mkdirAll_other:
  "os_mkdirAll h d m = Inr h' \<Longrightarrow> p \<noteq> d \<Longrightarrow> h_fs h' p = h_fs h p"
  by (auto simp: os_mkdirAll_def split: if_splits option.splits)

definition key_node :: "host \<Rightarrow> Key \<Rightarrow> fnode" where
  "key_node h k = \<lparr>n_kind = KFile, n_perm = 384, n_uid = word_of_int (h_uid h), n_data = marshalKey k\<rparr>"

text \<open>Everything \<open>writeKey\<close> does to the host, on every path through it.\<close>

lemma writeKey_effect:
  assumes name: "keyFileName h pid p = Inr name" and w: "writeKey sfx h pid p k = (r, hs)"
    and free: "h_fs h (key_tmp h name sfx) = None"
  defines "path \<equiv> path_join [sessionsDir h, name]"
  shows "hs \<noteq> []"
    and "\<And>h'. h' \<in> set hs \<Longrightarrow> same_host h h'"
    and "\<And>h'. h' \<in> set hs \<Longrightarrow> h_fs h' path = h_fs h path \<or> h_fs h' path = Some (key_node h k)"
    and "r = None \<Longrightarrow> h_fs (last hs) path = Some (key_node h k) \<and> length (marshalKey k) \<le> maxKeyFileBytes"
proof -
  let ?d = "sessionsDir h" and ?t = "key_tmp h name sfx"
  note ne = key_paths(1,2) [OF name, of sfx, folded path_def] key_paths(3) [OF name, folded path_def]
  consider e where "os_mkdirAll h ?d mode_0700 = Inl e"
    | h1 where "os_mkdirAll h ?d mode_0700 = Inr h1" "maxKeyFileBytes < length (marshalKey k)"
    | h1 e ts where "os_mkdirAll h ?d mode_0700 = Inr h1" "\<not> maxKeyFileBytes < length (marshalKey k)"
        "put_file h1 ?t path (marshalKey k) = (e, ts)"
    by (metis sumE surj_pair)
  then have "hs \<noteq> [] \<and> (\<forall>h'\<in>set hs. same_host h h'
      \<and> (h_fs h' path = h_fs h path \<or> h_fs h' path = Some (key_node h k)))
      \<and> (r = None \<longrightarrow> h_fs (last hs) path = Some (key_node h k) \<and> length (marshalKey k) \<le> maxKeyFileBytes)"
  proof cases
    case 1
    then show ?thesis using w by (auto simp: writeKey_def name)
  next
    case (2 h1)
    then have "hs = [h, h1]" "r \<noteq> None" using w by (auto simp: writeKey_def name Let_def)
    then show ?thesis using same_host_ops(4) [OF 2(1)] mkdirAll_other [OF 2(1) ne(3)] by auto
  next
    case (3 h1 e ts)
    then have hs: "hs = h # ts" "r = map_option KeyOS e"
      using w by (auto simp: writeKey_def name Let_def path_def)
    have s: "same_host h h1" by (rule same_host_ops(4) [OF 3(1)])
    have f: "h_fs h1 ?t = None" "h_fs h1 path = h_fs h path" "h_uid h1 = h_uid h"
      using mkdirAll_other [OF 3(1)] ne free same_hostD(2) [OF s] by auto
    have "same_host h h' \<and> (h_fs h' path = h_fs h path \<or> h_fs h' path = Some (key_node h k))"
      if "h' \<in> set ts" for h'
      using put_file_frame [OF 3(3) that] put_file_atomic [OF 3(3) that ne(1) f(1)] f s
      by (auto simp: key_node_def intro: same_host_trans)
    moreover have "r = None \<longrightarrow> h_fs (last ts) path = Some (key_node h k)"
      using put_file_done [OF _ ne(1) f(1)] 3(3) f(3) hs(2) by (auto simp: key_node_def)
    ultimately show ?thesis using hs 3 put_file_nonempty [OF 3(3)] by auto
  qed
  then show "hs \<noteq> []"
    and "\<And>h'. h' \<in> set hs \<Longrightarrow> same_host h h'"
    and "\<And>h'. h' \<in> set hs \<Longrightarrow> h_fs h' path = h_fs h path \<or> h_fs h' path = Some (key_node h k)"
    and "r = None \<Longrightarrow> h_fs (last hs) path = Some (key_node h k) \<and> length (marshalKey k) \<le> maxKeyFileBytes"
    by blast+
qed

lemma writeKey_other:
  assumes "keyFileName h pid p = Inr name" "writeKey sfx h pid p k = (r, hs)" "h' \<in> set hs"
    and "q \<noteq> key_tmp h name sfx" "q \<noteq> path_join [sessionsDir h, name]" "q \<noteq> sessionsDir h"
  shows "h_fs h' q = h_fs h q \<and> same_host h h'"
proof -
  have m: "h_fs h1 q = h_fs h q \<and> same_host h h1" if "os_mkdirAll h (sessionsDir h) mode_0700 = Inr h1" for h1
    using mkdirAll_other [OF that assms(6)] same_host_ops(4) [OF that] by simp
  show ?thesis
    using assms(2,3) m assms(4,5)
    by (auto simp: writeKey_def assms(1) Let_def split: sum.splits if_splits prod.splits
        dest!: put_file_frame intro: same_host_trans)
qed

text \<open>Nothing a successful publication does makes another file come or go.\<close>

lemma writeKey_keeps:
  assumes name: "keyFileName h pid p = Inr name" and w: "writeKey sfx h pid p k = (None, hs)"
    and free: "h_fs h (key_tmp h name sfx) = None"
    and q: "h_fs h q = None \<Longrightarrow> q \<noteq> path_join [sessionsDir h, name] \<and> q \<noteq> sessionsDir h"
  shows "h_fs (last hs) q = None \<longleftrightarrow> h_fs h q = None"
proof -
  let ?d = "sessionsDir h" and ?t = "key_tmp h name sfx" and ?f = "path_join [sessionsDir h, name]"
  note ne = key_paths(1,2) [OF name, of sfx] key_paths(3) [OF name]
  obtain h1 ts where m: "os_mkdirAll h ?d mode_0700 = Inr h1" "put_file h1 ?t ?f (marshalKey k) = (None, ts)"
      "hs = h # ts"
    using w by (auto simp: writeKey_def name Let_def split: sum.splits if_splits prod.splits)
  have "h_fs h1 ?t = None" using mkdirAll_other [OF m(1)] ne(2) free by simp
  then have "h_fs (last hs) = (h_fs h1)(?f \<mapsto> \<lparr>n_kind = KFile, n_perm = 384, n_uid = word_of_int (h_uid h1), n_data = marshalKey k\<rparr>)"
    using put_file_done [OF m(2) ne(1)] put_file_nonempty [OF m(2)] m(3) by simp
  moreover have "h_fs h1 q = None \<longleftrightarrow> h_fs h q = None \<and> q \<noteq> ?d"
    using m(1) by (auto simp: os_mkdirAll_def split: if_splits option.splits)
  ultimately show ?thesis using q ne(3) by auto
qed

lemma ReadKey_node:
  assumes "keyFileName h pid p = Inr name" "h_fs h (path_join [sessionsDir h, name]) = Some (key_node h0 k)"
    and "length (marshalKey k) \<le> maxKeyFileBytes"
    and "\<not> h_fault h SysStat (path_join [sessionsDir h, name])"
    and "\<not> h_fault h SysRead (path_join [sessionsDir h, name])"
  shows "ReadKey h pid p = Inr (Some (norm_Key k))"
  using assms
  by (simp add: ReadKey_def os_stat_def os_readFile_def key_node_def unmarshal_marshal_Key Let_def)

lemma writeKey_reads_back:
  assumes "keyFileName h pid p = Inr name" and "writeKey sfx h pid p k = (None, hs)"
    and "h_fs h (key_tmp h name sfx) = None"
    and "\<And>q. \<not> h_fault h SysStat q" "\<And>q. \<not> h_fault h SysRead q"
    and "h_fs h p = None \<Longrightarrow> p \<noteq> path_join [sessionsDir h, name] \<and> p \<noteq> sessionsDir h"
  shows "ReadKey (last hs) pid p = Inr (Some (norm_Key k))"
proof -
  note e = writeKey_effect [OF assms(1-3)]
  have s: "same_host h (last hs)" using e(1,2) by simp
  show ?thesis
    using e(4) assms(1,4,5) ReadKey_node [of "last hs" pid p name h k]
    by (simp add: keyFileName_cong [OF s writeKey_keeps [OF assms(1-3,6)]] sessionsDir_cong [OF s]
        same_hostD(10) [OF s])
qed

text \<open>
  (C30) A key that was published is the key that is read: when \<open>writeKey\<close> reports no error,
  \<open>ReadKey\<close> for the same pid and socket returns it (with invalid UTF-8 replaced), and until
  then a concurrent reader of the file sees the previous file or the complete new one. (The
  socket is there, as when \<open>Listen\<close> publishes the key of the inbox it has bound, or else is
  neither the directory of the keys nor the key file.)
\<close>

theorem published_key_reads_back:
  assumes "keyFileName h pid p = Inr name" and "writeKey sfx h pid p k = (None, hs)"
    and "h_fs h (key_tmp h name sfx) = None"
    and "\<And>q. \<not> h_fault h SysStat q" "\<And>q. \<not> h_fault h SysRead q"
    and "h_fs h p = None \<Longrightarrow> p \<noteq> path_join [sessionsDir h, name] \<and> p \<noteq> sessionsDir h"
  shows "ReadKey (last hs) pid p = Inr (Some (norm_Key k)) \<and>
    (\<forall>h'\<in>set hs. h_fs h' (path_join [sessionsDir h, name]) \<in>
       {h_fs h (path_join [sessionsDir h, name]), Some (key_node h k)})"
  using writeKey_reads_back [OF assms] writeKey_effect(3) [OF assms(1-3)] by auto

text \<open>On a host where nothing fails a key of the right size is always published.\<close>

lemma put_file_succeeds:
  assumes "\<And>c q. \<not> h_fault h c q" "tmp \<noteq> final" "h_fs h tmp = None" "h_fs h final = None"
  shows "fst (put_file h tmp final b) = None"
  using assms by (simp add: put_file_def os_writeFile_def store_file_def os_rename_def)

lemma writeKey_succeeds:
  assumes "\<And>c q. \<not> h_fault h c q" "keyFileName h pid p = Inr name"
    and "h_fs h (sessionsDir h) = None" "h_fs h (key_tmp h name sfx) = None"
      "h_fs h (path_join [sessionsDir h, name]) = None"
    and "length (marshalKey k) \<le> maxKeyFileBytes"
  shows "fst (writeKey sfx h pid p k) = None"
proof -
  obtain h1 where m: "os_mkdirAll h (sessionsDir h) mode_0700 = Inr h1"
    using assms(1,3) by (auto simp: os_mkdirAll_def)
  note ne = key_paths(1,2) [OF assms(2), of sfx] key_paths(3) [OF assms(2)]
  have "fst (put_file h1 (key_tmp h name sfx) (path_join [sessionsDir h, name]) (marshalKey k)) = None"
    using mkdirAll_other [OF m] ne assms(1,4,5) same_hostD(10) [OF same_host_ops(4) [OF m]]
    by (intro put_file_succeeds) auto
  then show ?thesis using assms(2,6) m by (auto simp: writeKey_def Let_def split: prod.splits)
qed

lemma length_marshalKey:
  "length (marshalKey k) \<le> 6 * (length (PeerToken k) + length (KeyProcStart k) + length (PIDDomain k)) + 300"
  using length_json_quote [of "PeerToken k"] length_json_quote [of "KeyProcStart k"]
    length_json_quote [of "PIDDomain k"] length_json_quote [of "''peerToken''"]
    length_json_quote [of "''procStart''"] length_json_quote [of "''pidDomain''"]
  by (simp add: marshalKey_def json_of_Key_def jmember_def)

text \<open>A host whose one inbox lies in a directory reached through a symbolic link.\<close>

definition linked_host :: host where
  "linked_host = idle_host\<lparr>h_fs := [''/l/7.sock'' \<mapsto> \<lparr>n_kind = KSocket, n_perm = 384, n_uid = 1000, n_data = []\<rparr>],
     h_real := [''/l/7.sock'' \<mapsto> ''/r/7.sock'']\<rparr>"

lemma linked_host_free:
  assumes "keyFileName linked_host 7 ''/l/7.sock'' = Inr name"
  shows "h_fs linked_host (sessionsDir linked_host) = None" "h_fs linked_host (key_tmp linked_host name sfx) = None"
    "h_fs linked_host (path_join [sessionsDir linked_host, name]) = None" "\<And>c q. \<not> h_fault linked_host c q"
proof -
  have "path_base ''/l/7.sock'' = ''7.sock''" using path_base_join [of "''7.sock''" "''/l''"] by simp
  then have b: "length (path_base ''/l/7.sock'') = 6" by simp
  have l: "6 < length name" using keyFileName_shape [OF assms] by auto
  have "sessionsDir linked_host \<noteq> ''/l/7.sock''" using sessionsDir_base [of linked_host] b by auto
  moreover have "length (path_base (path_join [sessionsDir linked_host, name])) \<noteq> 6"
    "length (path_base (key_tmp linked_host name sfx)) \<noteq> 6"
    unfolding key_tmp_def using path_base_path_join keyFileName_plain(1,2) [OF assms] l by auto
  then have "path_join [sessionsDir linked_host, name] \<noteq> ''/l/7.sock''" "key_tmp linked_host name sfx \<noteq> ''/l/7.sock''"
    using b by metis+
  ultimately show "h_fs linked_host (sessionsDir linked_host) = None" "h_fs linked_host (key_tmp linked_host name sfx) = None"
    "h_fs linked_host (path_join [sessionsDir linked_host, name]) = None" "\<And>c q. \<not> h_fault linked_host c q"
    by (simp_all add: linked_host_def idle_host_def)
qed

definition linked_key :: Key where
  "linked_key = \<lparr>PeerToken = ''ab'', KeyProcStart = ''5'', PIDDomain = []\<rparr>"

lemma linked_key_published:
  assumes "keyFileName linked_host 7 ''/l/7.sock'' = Inr name"
  obtains hs where "writeKey [1] linked_host 7 ''/l/7.sock'' linked_key = (None, hs)"
proof -
  have "length (marshalKey linked_key) \<le> maxKeyFileBytes"
    using length_marshalKey [of linked_key] by (simp add: maxKeyFileBytes_def linked_key_def)
  then have "fst (writeKey [1] linked_host 7 ''/l/7.sock'' linked_key) = None"
    using writeKey_succeeds linked_host_free [OF assms] assms by metis
  then show thesis using that by (metis prod.collapse)
qed

theorem published_key_reads_back_witness:
  "\<exists>hs. writeKey [1] linked_host 7 ''/l/7.sock'' linked_key = (None, hs)
     \<and> ReadKey (last hs) 7 ''/l/7.sock'' = Inr (Some (norm_Key linked_key))"
proof -
  obtain name where n: "keyFileName linked_host 7 ''/l/7.sock'' = Inr name"
    using keyFileName_total [of linked_host "''/''"] by (auto simp: linked_host_def idle_host_def)
  obtain hs where w: "writeKey [1] linked_host 7 ''/l/7.sock'' linked_key = (None, hs)"
    using linked_key_published [OF n] by blast
  note f = linked_host_free [OF n]
  have p: "''/l/7.sock'' \<noteq> path_join [sessionsDir linked_host, name] \<and> ''/l/7.sock'' \<noteq> sessionsDir linked_host"
    if "h_fs linked_host ''/l/7.sock'' = None" using that by (simp add: linked_host_def)
  have "ReadKey (last hs) 7 ''/l/7.sock'' = Inr (Some (norm_Key linked_key))"
    by (rule conjunct1 [OF published_key_reads_back [OF n w f(2) f(4) f(4) p]])
  with w show ?thesis by blast
qed

text \<open>After a removal that reports no error the session has no key.\<close>

lemma os_remove_gone:
  "os_remove h p = Inl ENOENT \<Longrightarrow> h_fs h p = None" "os_remove h p = Inr h' \<Longrightarrow> h_fs h' p = None"
  by (auto simp: os_remove_def split: if_splits option.splits)

lemma removeKey_same: "removeKey h pid p = (r, h') \<Longrightarrow> same_host h h'"
  by (auto simp: removeKey_def split: sum.splits os_error.splits intro: same_host_ops(3))

lemma removeKey_gone:
  assumes "removeKey h pid p = (None, h')" "keyFileName h pid p = Inr name"
  shows "h_fs h' (path_join [sessionsDir h, name]) = None"
  using assms os_remove_gone by (auto simp: removeKey_def split: sum.splits os_error.splits)

lemma ReadKey_none:
  assumes "keyFileName h pid p = Inr name" "h_fs h (path_join [sessionsDir h, name]) = None"
    and "\<not> h_fault h SysStat (path_join [sessionsDir h, name])"
  shows "ReadKey h pid p = Inr None"
  using assms by (simp add: ReadKey_def os_stat_def Let_def)

lemma removeKey_other:
  assumes "removeKey h pid p = (r, h')" "keyFileName h pid p = Inr name" "q \<noteq> path_join [sessionsDir h, name]"
  shows "h_fs h' q = h_fs h q"
  using assms by (auto simp: removeKey_def os_remove_def split: if_splits option.splits)

lemma removed_key_reads_none:
  assumes "removeKey h pid p = (None, h')" "keyFileName h pid p = Inr name" "h_fs h p = None"
    and "\<not> h_fault h SysStat (path_join [sessionsDir h, name])"
  shows "ReadKey h' pid p = Inr None"
proof -
  note s = removeKey_same [OF assms(1)]
  have "h_fs h' p = None" using removeKey_other [OF assms(1,2)] removeKey_gone [OF assms(1,2)] assms(3) by metis
  with assms(3) have "keyFileName h' pid p = keyFileName h pid p" by (intro keyFileName_cong [OF s]) simp
  then show ?thesis
    using ReadKey_none [of h' pid p name] removeKey_gone [OF assms(1,2)] assms(2,4)
    by (simp add: sessionsDir_cong [OF s] same_hostD(10) [OF s])
qed

end
