(* ===== verification/Discover.thy ===== *)
theory Discover
  imports Keyfile
begin

text \<open>
  \<open>udsmsg/discover.go\<close>: where inboxes are looked for, and what a pid resolves to.
\<close>

text \<open>\<open>dedup\<close>: the first occurrence of each string, in order. \<open>seen\<close> is the code's map.\<close>

fun dedup_from :: "gostring list \<Rightarrow> gostring list \<Rightarrow> gostring list" where
  "dedup_from seen [] = []"
| "dedup_from seen (s # ss) =
     (if s \<in> set seen then dedup_from seen ss else s # dedup_from (s # seen) ss)"

definition dedup :: "gostring list \<Rightarrow> gostring list" where
  "dedup ss = dedup_from [] ss"

definition socketDirs :: "host \<Rightarrow> gostring list" where
  "socketDirs h =
     (let uid = itoa (h_uid h);
          runtime = getenv h ''XDG_RUNTIME_DIR''
      in dedup ((if runtime \<noteq> [] then [path_join [runtime, ''cc-socks'']] else [])
           @ [''/run/user/'' @ uid @ ''/cc-socks'', ''/tmp/cc-socks-'' @ uid, ''/tmp/cc-socks'',
              ''/private/tmp/cc-socks-'' @ uid, ''/private/tmp/cc-socks'',
              ''/data/data/com.termux/files/usr/tmp/cc-socks'']))"

fun find_in :: "host \<Rightarrow> gostring \<Rightarrow> gostring list \<Rightarrow> gostring option" where
  "find_in h name [] = None"
| "find_in h name (dir # dirs) =
     (if checkDir h dir \<noteq> None then find_in h name dirs
      else let p = path_join [dir, name] in
           case os_stat h p of Inr _ \<Rightarrow> Some p | Inl _ \<Rightarrow> find_in h name dirs)"

definition findSocket :: "host \<Rightarrow> int \<Rightarrow> gostring option" where
  "findSocket h pid = find_in h (session_name pid) (socketDirs h)"

record Target =
  TPID :: int
  SocketPath :: gostring
  TToken :: gostring
  TProcStart :: gostring
  Unauthenticated :: bool

datatype resolve_error = NoSocket int | BadKey key_error

definition ResolveTarget :: "host \<Rightarrow> int \<Rightarrow> resolve_error + Target" where
  "ResolveTarget h pid =
     (case findSocket h pid of
        None \<Rightarrow> Inl (NoSocket pid)
      | Some path \<Rightarrow>
          let t = \<lparr>TPID = pid, SocketPath = path, TToken = [], TProcStart = [], Unauthenticated = False\<rparr> in
          case ReadKey h pid path of
            Inl e \<Rightarrow> Inl (BadKey e)
          | Inr k \<Rightarrow>
              let t = (case k of None \<Rightarrow> t
                       | Some k \<Rightarrow> t\<lparr>TToken := PeerToken k, TProcStart := KeyProcStart k\<rparr>);
                  env = getenv h EnvMessagingSocket;
                  child = getenv h EnvMessagingToken
              in Inr (if env \<noteq> [] \<and> env = path \<and> child \<noteq> [] then t\<lparr>TToken := child\<rparr> else t))"

subsection \<open>What the search finds\<close>

lemma dedup_from_set: "set (dedup_from seen ss) = set ss - set seen"
  by (induction seen ss rule: dedup_from.induct) auto

lemma dedup_from_distinct: "distinct (dedup_from seen ss)"
  by (induction seen ss rule: dedup_from.induct) (auto simp: dedup_from_set)

lemma dedup_from_subseq: "subseq (dedup_from seen ss) ss"
  by (induction seen ss rule: dedup_from.induct) auto

lemma find_in_Some:
  assumes "find_in h name dirs = Some p"
  shows "\<exists>pre dir post. dirs = pre @ dir # post \<and> p = path_join [dir, name] \<and> checkDir h dir = None
    \<and> (\<exists>fi. os_stat h p = Inr fi)
    \<and> (\<forall>d\<in>set pre. checkDir h d \<noteq> None \<or> (\<exists>e. os_stat h (path_join [d, name]) = Inl e))"
  using assms
proof (induction h name dirs rule: find_in.induct)
  case (2 h name dir dirs)
  show ?case
  proof (cases "checkDir h dir = None \<and> (\<exists>fi. os_stat h (path_join [dir, name]) = Inr fi)")
    case True
    then have "p = path_join [dir, name]" using 2(3) by (auto simp: Let_def)
    then show ?thesis using True by (intro exI [of _ "[]"] exI [of _ dir] exI [of _ dirs]) auto
  next
    case False
    then have skip: "checkDir h dir \<noteq> None \<or> (\<exists>e. os_stat h (path_join [dir, name]) = Inl e)"
      by (metis sumE)
    then have "find_in h name dirs = Some p" using 2(3) by (auto simp: Let_def split: if_splits)
    with skip 2(1,2) obtain pre d post where "dirs = pre @ d # post" "p = path_join [d, name]"
        "checkDir h d = None" "\<exists>fi. os_stat h p = Inr fi"
        "\<forall>d\<in>set pre. checkDir h d \<noteq> None \<or> (\<exists>e. os_stat h (path_join [d, name]) = Inl e)"
      by (metis (no_types, lifting))
    with skip show ?thesis by (intro exI [of _ "dir # pre"] exI [of _ d] exI [of _ post]) auto
  qed
qed simp

lemma find_in_None:
  "find_in h name dirs = None \<longleftrightarrow>
     (\<forall>d\<in>set dirs. checkDir h d \<noteq> None \<or> (\<exists>e. os_stat h (path_join [d, name]) = Inl e))"
  by (induction h name dirs rule: find_in.induct) (auto simp: Let_def split: sum.splits)

lemma checkDir_None:
  "checkDir h dir = None \<longleftrightarrow>
     (\<exists>fi. os_stat h dir = Inr fi \<and> n_kind fi = KDir \<and> n_perm fi = mode_0700 \<and> h_unix h
       \<and> n_uid fi \<in> {word_of_int (h_uid h), 0})"
  by (auto simp: checkDir_def ownerUID_def split: sum.splits)

text \<open>
  (C31) A resolved target is trustworthy: its socket is named after the pid and lies in a
  directory that is private (mode 0700) and owned by the user or by root, and it is the first
  one in probe order; every directory before it is unsafe or has no such socket.
\<close>

theorem resolved_socket_is_private:
  assumes "ResolveTarget h pid = Inr t"
  shows "\<exists>pre dir post fi. socketDirs h = pre @ dir # post
    \<and> SocketPath t = path_join [dir, session_name pid] \<and> TPID t = pid
    \<and> os_stat h dir = Inr fi \<and> n_kind fi = KDir \<and> n_perm fi = mode_0700
    \<and> n_uid fi \<in> {word_of_int (h_uid h), 0}
    \<and> (\<forall>d\<in>set pre. checkDir h d \<noteq> None \<or> (\<exists>e. os_stat h (path_join [d, session_name pid]) = Inl e))"
proof -
  from assms have f: "findSocket h pid = Some (SocketPath t)" "TPID t = pid"
    by (auto simp: ResolveTarget_def Let_def split: option.splits sum.splits if_splits)
  from find_in_Some [OF f(1) [unfolded findSocket_def]]
  obtain pre dir post where "socketDirs h = pre @ dir # post" "SocketPath t = path_join [dir, session_name pid]"
      "checkDir h dir = None"
      "\<forall>d\<in>set pre. checkDir h d \<noteq> None \<or> (\<exists>e. os_stat h (path_join [d, session_name pid]) = Inl e)"
    by blast
  with f(2) show ?thesis unfolding checkDir_None by blast
qed

lemma socketDirs_nonempty: "socketDirs h \<noteq> []"
proof -
  have "set (socketDirs h) \<noteq> {}" by (simp add: socketDirs_def dedup_def Let_def dedup_from_set)
  then show ?thesis by auto
qed

text \<open>A host with one inbox, in the runtime directory.\<close>

definition inbox_dir :: gostring where "inbox_dir = path_join [''/r'', ''cc-socks'']"

definition inbox_host :: host where
  "inbox_host = idle_host\<lparr>h_env := [''XDG_RUNTIME_DIR'' \<mapsto> ''/r'', ''HOME'' \<mapsto> ''/home/u''],
     h_fs := [inbox_dir \<mapsto> \<lparr>n_kind = KDir, n_perm = mode_0700, n_uid = 1000, n_data = []\<rparr>,
       path_join [inbox_dir, session_name 7] \<mapsto> \<lparr>n_kind = KSocket, n_perm = 384, n_uid = 1000, n_data = []\<rparr>]\<rparr>"

lemma session_name_plain: "plain_name (session_name pid)"
  using itoa_no_slash [of pid] by (auto simp: session_name_def intro!: plain_nameI)

lemma key_name_shape: "keyFileName h pid p = Inr name \<Longrightarrow> last name = CHR ''y''"
  using keyFileName_shape by fastforce

lemma inbox_resolves:
  "ResolveTarget inbox_host 7 = Inr \<lparr>TPID = 7, SocketPath = path_join [inbox_dir, session_name 7],
     TToken = [], TProcStart = [], Unauthenticated = False\<rparr>"
proof -
  let ?p = "path_join [inbox_dir, session_name 7]"
  have "plain_name ''cc-socks''" by (simp add: plain_name_def)
  then have b: "path_base ?p = session_name 7" "path_base inbox_dir = ''cc-socks''"
    unfolding inbox_dir_def by (simp_all only: path_base_path_join session_name_plain)
  have k: "last (session_name 7) = CHR ''k''" by (simp add: session_name_def)
  have ne: "?p \<noteq> inbox_dir"
  proof
    assume "?p = inbox_dir"
    then have "session_name 7 = ''cc-socks''" using b by metis
    with k show False by simp
  qed
  have d: "hd (socketDirs inbox_host) = inbox_dir"
    by (simp add: socketDirs_def dedup_def Let_def getenv_def inbox_host_def inbox_dir_def)
  then obtain ds where ds: "socketDirs inbox_host = inbox_dir # ds"
    using socketDirs_nonempty [of inbox_host] by (cases "socketDirs inbox_host") auto
  have c: "checkDir inbox_host inbox_dir = None"
    using ne by (simp add: checkDir_None os_stat_def inbox_host_def idle_host_def)
  have st: "os_stat inbox_host ?p = Inr \<lparr>n_kind = KSocket, n_perm = 384, n_uid = 1000, n_data = []\<rparr>"
    by (simp add: os_stat_def inbox_host_def idle_host_def)
  have f: "findSocket inbox_host 7 = Some ?p"
    using c st by (simp add: findSocket_def ds Let_def)
  obtain name where n: "keyFileName inbox_host 7 ?p = Inr name"
    using keyFileName_total [of inbox_host "''/''"] by (auto simp: inbox_host_def idle_host_def)
  have kb: "path_base (path_join [sessionsDir inbox_host, name]) = name"
    by (rule path_base_path_join [OF keyFileName_plain(1) [OF n]])
  have "path_join [sessionsDir inbox_host, name] \<noteq> ?p" "path_join [sessionsDir inbox_host, name] \<noteq> inbox_dir"
    using kb b key_name_shape [OF n] k by auto
  moreover have env: "getenv inbox_host EnvMessagingSocket = []"
    by (simp add: getenv_def inbox_host_def EnvMessagingSocket_def)
  ultimately have "ReadKey inbox_host 7 ?p = Inr None"
    by (intro ReadKey_none [OF n]) (simp_all add: inbox_host_def idle_host_def)
  then show ?thesis
    using env by (simp add: ResolveTarget_def f Let_def)
qed

theorem resolved_socket_is_private_witness:
  "\<exists>t pre dir post fi. ResolveTarget inbox_host 7 = Inr t \<and> socketDirs inbox_host = pre @ dir # post
    \<and> SocketPath t = path_join [dir, session_name 7] \<and> os_stat inbox_host dir = Inr fi
    \<and> n_kind fi = KDir \<and> n_perm fi = mode_0700"
  using resolved_socket_is_private [OF inbox_resolves] inbox_resolves by blast

end
