(* ===== verification/Session.thy ===== *)
theory Session
  imports Discover
begin

text \<open>
  \<open>udsmsg/session.go\<close>: the registry entry of a session. The random bytes of the session id
  and of the temporary name are arguments; \<open>newUUID\<close> is in \<open>Frame\<close>.
\<close>

definition peerFeatures :: "gostring list" where
  "peerFeatures = [''notify_idle'', ''reply_across_default_dirs'', ''artifact_yield'']"

record SessionEntry =
  EPID :: int
  SessionID :: gostring
  CWD :: gostring
  StartedAt :: int
  EProcStart :: gostring
  Version :: gostring
  PeerProtocol :: int
  PeerFeatures :: "gostring list"
  Kind :: gostring
  Entrypoint :: gostring
  EPIDDomain :: gostring
  MessagingSocketPath :: gostring
  EName :: gostring
  NameSource :: gostring
  NameSince :: int
  UpdatedAt :: int
  EStatus :: gostring

datatype session_error = EmptyName | ControlInName | SessionProc proc_error | SessionOS os_error

definition checkEntryName :: "gostring \<Rightarrow> session_error option" where
  "checkEntryName name =
     (if TrimSpace name = [] then Some EmptyName
      else if list_ex isCc (runes name) then Some ControlInName
      else None)"

definition NewSessionEntry ::
    "bytes \<Rightarrow> host \<Rightarrow> gostring \<Rightarrow> gostring \<Rightarrow> gostring \<Rightarrow> gostring \<Rightarrow> session_error + SessionEntry" where
  "NewSessionEntry rnd h socketPath name kind entrypoint =
     (case checkEntryName name of
        Some e \<Rightarrow> Inl e
      | None \<Rightarrow>
          let e = \<lparr>EPID = h_pid h, SessionID = newUUID rnd,
                   CWD = (case h_cwd h of None \<Rightarrow> [] | Some d \<Rightarrow> d), StartedAt = h_now h,
                   EProcStart = [], Version = ''2.1.272'', PeerProtocol = 1,
                   PeerFeatures = peerFeatures, Kind = kind, Entrypoint = entrypoint,
                   EPIDDomain = [], MessagingSocketPath = socketPath, EName = name,
                   NameSource = ''user'', NameSince = h_now h, UpdatedAt = h_now h,
                   EStatus = ''idle''\<rparr>
          in case ProcStart h (h_pid h) of
               Inl err \<Rightarrow> Inl (SessionProc err)
             | Inr ps \<Rightarrow>
                 Inr (e\<lparr>EProcStart := ps,
                        EPIDDomain := (case pidDomain h (h_pid h) of Inl _ \<Rightarrow> [] | Inr pd \<Rightarrow> pd)\<rparr>))"

definition sessionEntryPath :: "host \<Rightarrow> int \<Rightarrow> gostring" where
  "sessionEntryPath h pid = path_join [sessionsDir h, itoa pid @ ''.json'']"

definition json_of_SessionEntry :: "SessionEntry \<Rightarrow> json" where
  "json_of_SessionEntry e = JObj
     ([jmember ''pid'' (JNum (itoa (EPID e))), jmember ''sessionId'' (JStr (SessionID e)),
       jmember ''cwd'' (JStr (CWD e)), jmember ''startedAt'' (JNum (itoa (StartedAt e))),
       jmember ''procStart'' (JStr (EProcStart e)), jmember ''version'' (JStr (Version e)),
       jmember ''peerProtocol'' (JNum (itoa (PeerProtocol e))),
       jmember ''peerFeatures'' (JArr (map JStr (PeerFeatures e))),
       jmember ''kind'' (JStr (Kind e)), jmember ''entrypoint'' (JStr (Entrypoint e)),
       jmember ''pidDomain'' (JStr (EPIDDomain e)),
       jmember ''messagingSocketPath'' (JStr (MessagingSocketPath e))]
      @ omit_str ''name'' (EName e) @ omit_str ''nameSource'' (NameSource e)
      @ omit_int ''nameSince'' (NameSince e)
      @ [jmember ''updatedAt'' (JNum (itoa (UpdatedAt e))), jmember ''status'' (JStr (EStatus e))])"

definition marshalSession :: "SessionEntry \<Rightarrow> gostring" where
  "marshalSession e = json_print (json_of_SessionEntry e)"

definition PublishSession :: "bytes \<Rightarrow> host \<Rightarrow> SessionEntry \<Rightarrow> os_error option \<times> host list" where
  "PublishSession sfx h e =
     (case os_mkdirAll h (sessionsDir h) mode_0700 of
        Inl err \<Rightarrow> (Some err, [h])
      | Inr h1 \<Rightarrow>
          (let final = sessionEntryPath h (EPID e) in
           case put_file h1 (final @ ''.tmp.'' @ hexEncode sfx) final (marshalSession e) of
             (r, hs) \<Rightarrow> (r, h # hs)))"

definition UnpublishSession :: "host \<Rightarrow> int \<Rightarrow> os_error option \<times> host" where
  "UnpublishSession h pid =
     (case os_remove h (sessionEntryPath h pid) of
        Inl ENOENT \<Rightarrow> (None, h)
      | Inl e \<Rightarrow> (Some e, h)
      | Inr h' \<Rightarrow> (None, h'))"

subsection \<open>The entry on disk\<close>

lemma path_join_shape:
  assumes "plain_name name"
  shows "path_join [dir, name] = name \<or> (\<exists>d. path_join [dir, name] = d @ slash # name)"
  using Clean_append_name [OF assms, of dir] Clean_name [OF assms] assms
  by (cases "dir = []") (auto simp: path_join_def plain_name_def)

lemma entry_base:
  assumes "slash \<notin> set t"
  shows "path_base (sessionEntryPath h pid @ t) = itoa pid @ ''.json'' @ t"
proof -
  have s: "slash \<notin> set (itoa pid @ ''.json'')" using itoa_no_slash by simp
  then have "plain_name (itoa pid @ ''.json'')" by (intro plain_nameI) auto
  from path_join_shape [OF this, of "sessionsDir h"] show ?thesis
    using s assms by (auto simp: sessionEntryPath_def)
qed

lemma entry_paths:
  "sessionEntryPath h pid @ ''.tmp.'' @ hexEncode b \<noteq> sessionEntryPath h pid"
  "sessionEntryPath h pid \<noteq> sessionsDir h"
  "sessionEntryPath h pid @ ''.tmp.'' @ hexEncode b \<noteq> sessionsDir h"
proof -
  show "sessionEntryPath h pid @ ''.tmp.'' @ hexEncode b \<noteq> sessionEntryPath h pid" by simp
  have d: "CHR ''.'' \<notin> set (path_base (sessionsDir h))" by (simp add: sessionsDir_base)
  show "sessionEntryPath h pid \<noteq> sessionsDir h"
    using d entry_base [of "[]" h pid] by auto
  show "sessionEntryPath h pid @ ''.tmp.'' @ hexEncode b \<noteq> sessionsDir h"
    using d entry_base [of "''.tmp.'' @ hexEncode b" h pid] hexEncode_no_slash by auto
qed

definition entry_node :: "host \<Rightarrow> SessionEntry \<Rightarrow> fnode" where
  "entry_node h e = \<lparr>n_kind = KFile, n_perm = 384, n_uid = word_of_int (h_uid h), n_data = marshalSession e\<rparr>"

text \<open>
  The registry is never seen half written: in every host a concurrent reader can see
  while \<open>PublishSession\<close> runs, the entry's file is the previous one or the complete new one
  (readable only by its owner), and it is the new one when no error is reported.
\<close>

theorem publish_session_atomic:
  assumes "PublishSession sfx h e = (r, hs)"
    and "h_fs h (sessionEntryPath h (EPID e) @ ''.tmp.'' @ hexEncode sfx) = None"
  shows "(\<forall>h'\<in>set hs. h_fs h' (sessionEntryPath h (EPID e)) \<in>
       {h_fs h (sessionEntryPath h (EPID e)), Some (entry_node h e)})
    \<and> (r = None \<longrightarrow> h_fs (last hs) (sessionEntryPath h (EPID e)) = Some (entry_node h e))"
proof (cases "os_mkdirAll h (sessionsDir h) mode_0700")
  case (Inl err)
  then show ?thesis using assms(1) by (auto simp: PublishSession_def)
next
  case (Inr h1)
  let ?f = "sessionEntryPath h (EPID e)" let ?t = "?f @ ''.tmp.'' @ hexEncode sfx"
  obtain ts where p: "put_file h1 ?t ?f (marshalSession e) = (r, ts)" "hs = h # ts"
    using assms(1) Inr by (auto simp: PublishSession_def Let_def split: prod.splits)
  have f: "h_fs h1 ?t = None" "h_fs h1 ?f = h_fs h ?f" "h_uid h1 = h_uid h"
    using mkdirAll_other [OF Inr] assms(2) entry_paths same_hostD(2) [OF same_host_ops(4) [OF Inr]] by auto
  have "h_fs h' ?f = h_fs h ?f \<or> h_fs h' ?f = Some (entry_node h e)" if "h' \<in> set ts" for h'
    using put_file_atomic [OF p(1) that entry_paths(1) f(1)] f by (simp add: entry_node_def)
  moreover have "r = None \<longrightarrow> h_fs (last ts) ?f = Some (entry_node h e)"
    using put_file_done [OF _ entry_paths(1) f(1)] p(1) f(3) by (auto simp: entry_node_def)
  ultimately show ?thesis using p put_file_nonempty [OF p(1)] by auto
qed

text \<open>On a host where nothing fails the entry is published.\<close>

lemma PublishSession_succeeds:
  assumes "\<And>c q. \<not> h_fault h c q" "h_fs h = Map.empty"
  shows "fst (PublishSession sfx h e) = None"
proof -
  obtain h1 where m: "os_mkdirAll h (sessionsDir h) mode_0700 = Inr h1"
    using assms by (auto simp: os_mkdirAll_def)
  let ?f = "sessionEntryPath h (EPID e)"
  have "fst (put_file h1 (?f @ ''.tmp.'' @ hexEncode sfx) ?f (marshalSession e)) = None"
    using mkdirAll_other [OF m] entry_paths assms same_hostD(10) [OF same_host_ops(4) [OF m]]
    by (intro put_file_succeeds) auto
  then show ?thesis using m by (auto simp: PublishSession_def Let_def split: prod.splits)
qed

definition sample_entry :: SessionEntry where
  "sample_entry = \<lparr>EPID = 7, SessionID = ''s'', CWD = ''/'', StartedAt = 1, EProcStart = ''5'',
     Version = ''2.1.272'', PeerProtocol = 1, PeerFeatures = peerFeatures, Kind = ''cli'',
     Entrypoint = ''cli'', EPIDDomain = [], MessagingSocketPath = ''/tmp/7.sock'', EName = ''n'',
     NameSource = ''user'', NameSince = 1, UpdatedAt = 1, EStatus = ''idle''\<rparr>"

theorem publish_session_atomic_witness:
  "\<exists>hs. PublishSession [1] idle_host sample_entry = (None, hs)
     \<and> h_fs (last hs) (sessionEntryPath idle_host 7) = Some (entry_node idle_host sample_entry)
     \<and> (\<forall>h'\<in>set hs. h_fs h' (sessionEntryPath idle_host 7) \<in> {None, Some (entry_node idle_host sample_entry)})"
proof -
  have f: "\<not> h_fault idle_host c q" "h_fs idle_host = Map.empty" for c q by (simp_all add: idle_host_def)
  have p: "EPID sample_entry = 7" by (simp add: sample_entry_def)
  obtain hs where w: "PublishSession [1] idle_host sample_entry = (None, hs)"
    using PublishSession_succeeds [OF f] by (metis prod.collapse)
  then show ?thesis using publish_session_atomic [OF w] f(2) p by simp
qed

end
