(* ===== verification/Line_Reader.thy ===== *)
theory Line_Reader
  imports Prelude
begin

text \<open>
  The receiving half of a connection and \<open>readLine\<close> of \<open>udsmsg/server.go\<close>. A connection is
  the bytes that will arrive, each with its arrival time, what ends them, and the read
  deadline in force; bytes of one time arrive together, so every way the kernel can cut the
  stream into reads is a choice of times. A read is served when its bytes arrive.
\<close>

datatype read_err = EOF | ErrClosed | ErrTimeout | ErrIO

record net_conn =
  c_in :: "(nat \<times> char) list"
  c_end :: "nat \<times> read_err"
  c_deadline :: "nat option"

definition late :: "net_conn \<Rightarrow> nat \<Rightarrow> bool" where
  "late c t \<longleftrightarrow> (case c_deadline c of None \<Rightarrow> False | Some d \<Rightarrow> d < t)"

text \<open>\<open>Read\<close> into \<open>n\<close> bytes of space.\<close>

definition conn_read :: "nat \<Rightarrow> net_conn \<Rightarrow> (read_err + gostring) \<times> net_conn" where
  "conn_read n c =
     (case c_in c of
        [] \<Rightarrow> (Inl (if late c (fst (c_end c)) then ErrTimeout else snd (c_end c)), c)
      | (t, b) # r \<Rightarrow>
          if late c t then (Inl ErrTimeout, c)
          else let k = min n (length (takeWhile (\<lambda>x. fst x = t) (c_in c)))
               in (Inr (map snd (take k (c_in c))), c\<lparr>c_in := drop k (c_in c)\<rparr>))"

text \<open>The \<open>bufio.Reader\<close> of \<open>handleConn\<close>, of 64 KiB, and its \<open>ReadSlice\<close> for a newline.\<close>

definition bufSize :: nat where "bufSize = 65536"

record reader =
  rd_buf :: gostring
  rd_conn :: net_conn

datatype slice_err = ErrBufferFull | ReadErr read_err

definition conn_pending :: "net_conn \<Rightarrow> nat" where
  "conn_pending c = length (c_in c)"

lemma conn_read_Inr:
  assumes "conn_read n c = (Inr b, c')" "0 < n"
  obtains xs where "c_in c = xs @ c_in c'" "b = map snd xs" "xs \<noteq> []" "\<forall>x\<in>set xs. \<not> late c (fst x)"
    "c_end c' = c_end c" "c_deadline c' = c_deadline c"
proof -
  from assms(1) obtain t b0 r where c: "c_in c = (t, b0) # r" "\<not> late c t"
    by (auto simp: conn_read_def Let_def split: list.splits if_splits)
  let ?k = "min n (length (takeWhile (\<lambda>x. fst x = t) (c_in c)))"
  have r: "b = map snd (take ?k (c_in c))" "c' = c\<lparr>c_in := drop ?k (c_in c)\<rparr>"
    using assms(1) c by (auto simp: conn_read_def Let_def)
  have k: "take ?k (c_in c) = take n (takeWhile (\<lambda>x. fst x = t) (c_in c))"
    by (metis min.commute take_take takeWhile_eq_take)
  show thesis
  proof (rule that [of "take ?k (c_in c)"])
    show "\<forall>x\<in>set (take ?k (c_in c)). \<not> late c (fst x)"
      using c(2) unfolding k by (auto dest!: in_set_takeD set_takeWhileD)
    show "take ?k (c_in c) \<noteq> []" using assms(2) c(1) by simp
  qed (use r in simp_all)
qed

lemma conn_read_shrinks: "conn_read n c = (Inr b, c') \<Longrightarrow> 0 < n \<Longrightarrow> length (c_in c') < length (c_in c)"
  by (erule conn_read_Inr) auto

function readSlice :: "reader \<Rightarrow> gostring \<times> slice_err option \<times> reader" where
  "readSlice r =
     (if newline \<in> set (rd_buf r) then
        (takeWhile (\<lambda>c. c \<noteq> newline) (rd_buf r) @ [newline], None,
         r\<lparr>rd_buf := tl (dropWhile (\<lambda>c. c \<noteq> newline) (rd_buf r))\<rparr>)
      else if bufSize \<le> length (rd_buf r) then (rd_buf r, Some ErrBufferFull, r\<lparr>rd_buf := []\<rparr>)
      else case conn_read (bufSize - length (rd_buf r)) (rd_conn r) of
             (Inl e, c) \<Rightarrow> (rd_buf r, Some (ReadErr e), \<lparr>rd_buf = [], rd_conn = c\<rparr>)
           | (Inr b, c) \<Rightarrow> readSlice \<lparr>rd_buf = rd_buf r @ b, rd_conn = c\<rparr>)"
  by pat_completeness auto
termination
  by (relation "measure (\<lambda>r. length (c_in (rd_conn r)))") (auto dest!: sym [of "(_, _)"] conn_read_shrinks)

declare readSlice.simps [simp del]

subsection \<open>What is still to be read\<close>

text \<open>The bytes in time for the deadline, what ends them, and all bytes whatever the deadline.\<close>

definition conn_bytes :: "net_conn \<Rightarrow> gostring" where
  "conn_bytes c = map snd (takeWhile (\<lambda>x. \<not> late c (fst x)) (c_in c))"

definition conn_fin :: "net_conn \<Rightarrow> read_err" where
  "conn_fin c =
     (if (\<exists>x\<in>set (c_in c). late c (fst x)) \<or> late c (fst (c_end c)) then ErrTimeout else snd (c_end c))"

definition pend :: "reader \<Rightarrow> gostring" where
  "pend r = rd_buf r @ conn_bytes (rd_conn r)"

definition fin :: "reader \<Rightarrow> read_err" where
  "fin r = conn_fin (rd_conn r)"

definition raw_pend :: "reader \<Rightarrow> gostring" where
  "raw_pend r = rd_buf r @ map snd (c_in (rd_conn r))"

text \<open>\<open>r'\<close> is \<open>r\<close> after \<open>s\<close> has been read from it.\<close>

definition consumed :: "reader \<Rightarrow> gostring \<Rightarrow> reader \<Rightarrow> bool" where
  "consumed r s r' \<longleftrightarrow> pend r = s @ pend r' \<and> raw_pend r = s @ raw_pend r' \<and> fin r' = fin r
     \<and> c_end (rd_conn r') = c_end (rd_conn r) \<and> c_deadline (rd_conn r') = c_deadline (rd_conn r)"

lemma consumed_refl [simp, intro]: "consumed r [] r"
  by (simp add: consumed_def)

lemma consumed_trans [trans]: "consumed a s b \<Longrightarrow> consumed b t c \<Longrightarrow> consumed a (s @ t) c"
  by (simp add: consumed_def)

lemma consumed_buf: "consumed \<lparr>rd_buf = s @ t, rd_conn = c\<rparr> s \<lparr>rd_buf = t, rd_conn = c\<rparr>"
  by (simp add: consumed_def pend_def raw_pend_def fin_def)

lemma consumed_upd: "rd_buf r = s @ t \<Longrightarrow> consumed r s (r\<lparr>rd_buf := t\<rparr>)"
  by (simp add: consumed_def pend_def raw_pend_def fin_def)

lemma takeWhile_late:
  assumes "\<forall>x\<in>set xs. \<not> late c (fst x)" "c_deadline c' = c_deadline c"
  shows "takeWhile (\<lambda>x. \<not> late c (fst x)) (xs @ ys) = xs @ takeWhile (\<lambda>x. \<not> late c' (fst x)) ys"
  using assms by (induction xs) (auto simp: late_def)

lemma conn_read_more:
  assumes "conn_read n c = (Inr b, c')" "0 < n"
  shows "pend \<lparr>rd_buf = s @ b, rd_conn = c'\<rparr> = pend \<lparr>rd_buf = s, rd_conn = c\<rparr>"
    "raw_pend \<lparr>rd_buf = s @ b, rd_conn = c'\<rparr> = raw_pend \<lparr>rd_buf = s, rd_conn = c\<rparr>"
    "fin \<lparr>rd_buf = s @ b, rd_conn = c'\<rparr> = fin \<lparr>rd_buf = s, rd_conn = c\<rparr>"
    "c_end c' = c_end c" "c_deadline c' = c_deadline c"
proof -
  obtain xs where x: "c_in c = xs @ c_in c'" "b = map snd xs" "\<forall>x\<in>set xs. \<not> late c (fst x)"
      "c_end c' = c_end c" "c_deadline c' = c_deadline c"
    using conn_read_Inr [OF assms] by metis
  have l: "late c' = late c" using x(5) by (auto simp: late_def fun_eq_iff)
  show "pend \<lparr>rd_buf = s @ b, rd_conn = c'\<rparr> = pend \<lparr>rd_buf = s, rd_conn = c\<rparr>"
    using takeWhile_late [OF x(3,5)] by (simp add: pend_def conn_bytes_def x(1,2) l)
  show "raw_pend \<lparr>rd_buf = s @ b, rd_conn = c'\<rparr> = raw_pend \<lparr>rd_buf = s, rd_conn = c\<rparr>"
    by (simp add: raw_pend_def x(1,2))
  show "fin \<lparr>rd_buf = s @ b, rd_conn = c'\<rparr> = fin \<lparr>rd_buf = s, rd_conn = c\<rparr>"
    using x(3) by (auto simp: fin_def conn_fin_def x(1,4) l)
qed (use conn_read_Inr [OF assms] in metis)+

lemma conn_read_Inl:
  assumes "conn_read n c = (Inl e, c')"
  shows "c' = c" "conn_bytes c = []" "conn_fin c = e"
  using assms by (auto simp: conn_read_def conn_bytes_def conn_fin_def Let_def split: list.splits if_splits)

text \<open>What a slice is, for each of the three ways \<open>ReadSlice\<close> returns.\<close>

definition slice_ok :: "reader \<Rightarrow> gostring \<Rightarrow> slice_err option \<Rightarrow> reader \<Rightarrow> bool" where
  "slice_ok r chunk e r' \<longleftrightarrow> consumed r chunk r' \<and>
     (case e of
        None \<Rightarrow> \<exists>l. chunk = l @ [newline] \<and> newline \<notin> set l
      | Some ErrBufferFull \<Rightarrow> newline \<notin> set chunk \<and> chunk \<noteq> []
      | Some (ReadErr x) \<Rightarrow> newline \<notin> set chunk \<and> pend r' = [] \<and> fin r = x)"

lemma split_at_newline:
  assumes "newline \<in> set s"
  shows "s = (takeWhile (\<lambda>c. c \<noteq> newline) s @ [newline]) @ tl (dropWhile (\<lambda>c. c \<noteq> newline) s)"
  using assms
proof (induction s)
  case (Cons a s)
  then show ?case by (cases "a = newline") simp_all
qed simp

lemma readSlice_ok: "readSlice r = (chunk, e, r') \<Longrightarrow> slice_ok r chunk e r'"
proof (induction r arbitrary: chunk e r' rule: readSlice.induct)
  case (1 r)
  let ?b = "rd_buf r"
  consider "newline \<in> set ?b"
    | "newline \<notin> set ?b" "bufSize \<le> length ?b"
    | "newline \<notin> set ?b" "length ?b < bufSize" by linarith
  then show ?case
  proof cases
    case 1
    then have "chunk = takeWhile (\<lambda>c. c \<noteq> newline) ?b @ [newline]" "e = None"
        "r' = r\<lparr>rd_buf := tl (dropWhile (\<lambda>c. c \<noteq> newline) ?b)\<rparr>"
      using \<open>readSlice r = _\<close> by (simp_all add: readSlice.simps [of r])
    moreover from this have "consumed r chunk r'"
      using split_at_newline [OF 1] by (simp only: consumed_upd)
    ultimately show ?thesis by (auto simp: slice_ok_def dest: set_takeWhileD)
  next
    case 2
    then have "chunk = ?b" "e = Some ErrBufferFull" "r' = r\<lparr>rd_buf := []\<rparr>"
      using \<open>readSlice r = _\<close> by (simp_all add: readSlice.simps [of r])
    moreover have "?b \<noteq> []" using 2 by (auto simp: bufSize_def)
    ultimately show ?thesis
      using 2 consumed_buf [of ?b "[]" "rd_conn r"] by (cases r) (simp add: slice_ok_def)
  next
    case 3
    obtain x c where c: "conn_read (bufSize - length ?b) (rd_conn r) = (x, c)" by force
    show ?thesis
    proof (cases x)
      case (Inl e0)
      note c = c [unfolded Inl]
      have "chunk = ?b" "e = Some (ReadErr e0)" "r' = \<lparr>rd_buf = [], rd_conn = c\<rparr>"
        using \<open>readSlice r = _\<close> 3 c by (simp_all add: readSlice.simps [of r])
      then show ?thesis
        using 3 conn_read_Inl [OF c] consumed_buf [of ?b "[]" "rd_conn r"]
        by (cases r) (simp add: slice_ok_def pend_def fin_def)
    next
      case (Inr b)
      note c = c [unfolded Inr]
      let ?r = "\<lparr>rd_buf = ?b @ b, rd_conn = c\<rparr>"
      have "readSlice ?r = (chunk, e, r')"
        using \<open>readSlice r = _\<close> 3 c by (simp add: readSlice.simps [of r])
      with 1(1) [OF 3(1) _ c [symmetric]] 3 have "slice_ok ?r chunk e r'" by simp
      then show ?thesis
        using conn_read_more [OF c] 3(2) 
        by (cases r) (auto simp: slice_ok_def consumed_def split: option.splits slice_err.splits)
    qed
  qed
qed

subsection \<open>Lines\<close>

text \<open>
  \<open>readLine\<close>, with its three kinds of return: the cap exceeded, a trailing partial line with
  the error that ended it, and a complete line without its newline.
\<close>

datatype line_result = LineTooLong | PartialLine gostring read_err | CompleteLine gostring

lemma readSlice_shrinks:
  assumes "readSlice r = (chunk, e, r')" "chunk \<noteq> []"
  shows "length (raw_pend r') < length (raw_pend r)"
  using readSlice_ok [OF assms(1)] assms(2) by (auto simp: slice_ok_def consumed_def)

lemma readSlice_full: "readSlice r = (chunk, Some ErrBufferFull, r') \<Longrightarrow> chunk \<noteq> []"
  using readSlice_ok by (fastforce simp: slice_ok_def)

function readLine_from :: "nat \<Rightarrow> gostring \<Rightarrow> reader \<Rightarrow> line_result \<times> reader" where
  "readLine_from cap buf r =
     (case readSlice r of
        (chunk, e, r') \<Rightarrow>
          if cap < length buf + length chunk then (LineTooLong, r')
          else (case e of
                  Some ErrBufferFull \<Rightarrow> readLine_from cap (buf @ chunk) r'
                | Some (ReadErr x) \<Rightarrow> (PartialLine (buf @ chunk) x, r')
                | None \<Rightarrow> (CompleteLine (butlast (buf @ chunk)), r')))"
  by pat_completeness auto
termination
  by (relation "measure (\<lambda>(_, _, r). length (raw_pend r))")
    (simp_all, metis readSlice_full readSlice_shrinks)

declare readLine_from.simps [simp del]

definition readLine :: "nat \<Rightarrow> reader \<Rightarrow> line_result \<times> reader" where
  "readLine cap r = readLine_from cap [] r"

text \<open>The specification: one look at the whole stream, no buffers and no chunks.\<close>

definition next_line :: "nat \<Rightarrow> gostring \<Rightarrow> read_err \<Rightarrow> line_result" where
  "next_line cap s e =
     (let l = takeWhile (\<lambda>c. c \<noteq> newline) s in
      if newline \<in> set s then (if cap < length l + 1 then LineTooLong else CompleteLine l)
      else if cap < length s then LineTooLong else PartialLine s e)"

lemma readLine_from_spec:
  assumes "readLine_from cap buf r = (res, r')" "newline \<notin> set buf"
  shows "res = next_line cap (buf @ pend r) (fin r)
    \<and> (\<forall>l. res = CompleteLine l \<longrightarrow> (\<exists>s. l @ [newline] = buf @ s \<and> consumed r s r'))"
  using assms
proof (induction cap buf r arbitrary: res r' rule: readLine_from.induct)
  case (1 cap buf r)
  obtain chunk e q where sl: "readSlice r = (chunk, e, q)" by (metis prod_cases3)
  have ok: "consumed r chunk q" "slice_ok r chunk e q" using readSlice_ok [OF sl] by (auto simp: slice_ok_def)
  then have p: "pend r = chunk @ pend q" "fin q = fin r" by (auto simp: consumed_def)
  have step: "readLine_from cap buf r =
      (if cap < length buf + length chunk then (LineTooLong, q)
       else (case e of
               Some ErrBufferFull \<Rightarrow> readLine_from cap (buf @ chunk) q
             | Some (ReadErr x) \<Rightarrow> (PartialLine (buf @ chunk) x, q)
             | None \<Rightarrow> (CompleteLine (butlast (buf @ chunk)), q)))"
    by (simp add: readLine_from.simps [of cap buf r] sl)
  consider (nl) l where "e = None" "chunk = l @ [newline]" "newline \<notin> set l"
    | (full) "e = Some ErrBufferFull" "newline \<notin> set chunk"
    | (err) x where "e = Some (ReadErr x)" "newline \<notin> set chunk" "pend q = []" "fin r = x"
    using ok(2) by (auto simp: slice_ok_def split: option.splits slice_err.splits)
  then show ?case
  proof cases
    case nl
    have t: "takeWhile (\<lambda>c. c \<noteq> newline) (buf @ pend r) = buf @ l"
    proof -
      have "\<forall>c\<in>set (buf @ l). c \<noteq> newline" using 1(3) nl(3) by auto
      from takeWhile_append_stop [OF this, of newline "pend q"] show ?thesis by (simp add: p(1) nl(2))
    qed
    then show ?thesis
      using 1(2) ok(1) nl by (auto simp: step next_line_def Let_def p(1) butlast_append split: if_splits)
  next
    case full
    show ?thesis
    proof (cases "cap < length buf + length chunk")
      case True
      have "length (buf @ chunk) \<le> length (takeWhile (\<lambda>c. c \<noteq> newline) (buf @ pend r))"
      proof -
        have "\<forall>c\<in>set (buf @ chunk). c \<noteq> newline" using 1(3) full(2) by auto
        then have "takeWhile (\<lambda>c. c \<noteq> newline) ((buf @ chunk) @ pend q)
            = (buf @ chunk) @ takeWhile (\<lambda>c. c \<noteq> newline) (pend q)" by (intro takeWhile_append2) blast
        then show ?thesis by (simp add: p(1))
      qed
      then show ?thesis
        using 1(2) True by (auto simp: step next_line_def Let_def p(1))
    next
      case False
      have "readLine_from cap (buf @ chunk) q = (res, r')" using 1(2) False full by (simp add: step)
      with 1(1) [OF sl [symmetric] refl False full(1) refl] 1(3) full(2)
      have "res = next_line cap ((buf @ chunk) @ pend q) (fin q)
        \<and> (\<forall>l. res = CompleteLine l \<longrightarrow> (\<exists>s. l @ [newline] = (buf @ chunk) @ s \<and> consumed q s r'))" by simp
      then show ?thesis
        using ok(1) p by (metis append.assoc consumed_trans)
    qed
  next
    case err
    then show ?thesis using 1(2,3) p(1) by (auto simp: step next_line_def Let_def split: if_splits)
  qed
qed

lemma readLine_spec:
  assumes "readLine cap r = (res, r')"
  shows "res = next_line cap (pend r) (fin r)" "res = CompleteLine l \<Longrightarrow> consumed r (l @ [newline]) r'"
  using readLine_from_spec [of cap "[]" r res r'] assms by (auto simp: readLine_def)

text \<open>
  (C8) \<open>readLine\<close> is \<open>next_line\<close> on the bytes that arrive in time: however the stream is cut
  into reads and 64 KiB buffers, it returns the bytes up to the first newline, gives up exactly
  when that line with its newline exceeds the cap, returns a trailing partial line with the
  error that ended the stream, and leaves precisely the bytes after the newline to be read.
\<close>

theorem readLine_refines:
  "fst (readLine cap r) = next_line cap (pend r) (fin r) \<and>
     (case fst (readLine cap r) of
        CompleteLine l \<Rightarrow> pend r = l @ newline # pend (snd (readLine cap r))
          \<and> raw_pend r = l @ newline # raw_pend (snd (readLine cap r))
      | _ \<Rightarrow> True)"
proof -
  obtain res r' where r: "readLine cap r = (res, r')" by force
  show ?thesis
    using readLine_spec(1) [OF r] readLine_spec(2) [OF r]
    by (auto simp: r consumed_def split: line_result.splits)
qed

end
