(* ===== verification/Interfaces.thy ===== *)
theory Interfaces
  imports Prelude
begin

text \<open>
  The contracts that more than one component meets, as locales: a framing of a byte stream,
  and a transition system with an invariant. What follows from a contract is proved here once;
  each component interprets the contract on its own definitions.
\<close>

subsection \<open>Framing\<close>

text \<open>Reading \<open>n\<close> frames from a stream with a reader of one frame.\<close>

fun read_frames :: "('b list \<Rightarrow> ('c \<times> 'b list) option) \<Rightarrow> nat \<Rightarrow> 'b list \<Rightarrow> ('c list \<times> 'b list) option" where
  "read_frames rd 0 s = Some ([], s)"
| "read_frames rd (Suc n) s =
     (case rd s of
        None \<Rightarrow> None
      | Some (x, s') \<Rightarrow> map_option (\<lambda>(xs, t). (x # xs, t)) (read_frames rd n s'))"

text \<open>
  A framing: the writer of one frame and the reader of one frame, for the frames the writer
  accepts, whatever follows on the stream.
\<close>

locale framing =
  fixes ok :: "'a \<Rightarrow> bool"
    and enc :: "'a \<Rightarrow> 'b list"
    and rd :: "'b list \<Rightarrow> ('c \<times> 'b list) option"
    and view :: "'a \<Rightarrow> 'c"
  assumes rd_enc: "ok x \<Longrightarrow> rd (enc x @ rest) = Some (view x, rest)"
    and rd_Nil: "rd [] = None"
begin

lemma read_stream:
  "list_all ok xs \<Longrightarrow> read_frames rd (length xs) (concat (map enc xs) @ rest) = Some (map view xs, rest)"
  by (induction xs) (simp_all add: rd_enc)

lemma enc_nonempty: "ok x \<Longrightarrow> enc x \<noteq> []"
  using rd_enc [of x "[]"] rd_Nil by auto

text \<open>A stream is cut into frames in one way only.\<close>

lemma stream_inject:
  assumes "list_all ok xs" "list_all ok ys" "concat (map enc xs) = concat (map enc ys)"
  shows "map view xs = map view ys"
  using assms
proof (induction xs arbitrary: ys)
  case Nil
  then have "ys = []" using enc_nonempty by (cases ys) auto
  then show ?case by simp
next
  case (Cons x xs)
  then obtain y zs where ys: "ys = y # zs" using enc_nonempty [of x] by (cases ys) auto
  have "rd (enc x @ concat (map enc xs)) = rd (enc y @ concat (map enc zs))"
    using Cons.prems(3) ys by simp
  then have "view x = view y" "concat (map enc xs) = concat (map enc zs)"
    using Cons.prems(1,2) ys by (simp_all add: rd_enc)
  then show ?case using Cons ys by simp
qed

end

subsection \<open>Transition systems\<close>

locale transition_system =
  fixes init :: "'s \<Rightarrow> bool"
    and step :: "'s \<Rightarrow> 's \<Rightarrow> bool"
    and inv :: "'s \<Rightarrow> bool"
  assumes inv_init: "init s \<Longrightarrow> inv s"
    and inv_step: "inv s \<Longrightarrow> step s s' \<Longrightarrow> inv s'"
begin

definition reachable :: "'s \<Rightarrow> bool" where
  "reachable s \<longleftrightarrow> (\<exists>s0. init s0 \<and> step\<^sup>*\<^sup>* s0 s)"

lemma inv_steps: "step\<^sup>*\<^sup>* s s' \<Longrightarrow> inv s \<Longrightarrow> inv s'"
  by (induction rule: rtranclp_induct) (auto intro: inv_step)

lemma inv_reachable: "reachable s \<Longrightarrow> inv s"
  by (auto simp: reachable_def intro: inv_steps inv_init)

lemma reachable_steps: "reachable s \<Longrightarrow> step\<^sup>*\<^sup>* s s' \<Longrightarrow> reachable s'"
  unfolding reachable_def by (meson rtranclp_trans)

end

text \<open>
  A transition system in which some states are final: once final, always final, and a
  quantity read off a final state never changes again.
\<close>

locale latching_system = transition_system init step inv
  for init :: "'s \<Rightarrow> bool" and step :: "'s \<Rightarrow> 's \<Rightarrow> bool" and inv :: "'s \<Rightarrow> bool" +
  fixes final :: "'s \<Rightarrow> bool"
    and obs :: "'s \<Rightarrow> 'o"
  assumes final_step: "inv s \<Longrightarrow> final s \<Longrightarrow> step s s' \<Longrightarrow> final s' \<and> obs s' = obs s"
begin

lemma final_steps: "step\<^sup>*\<^sup>* s s' \<Longrightarrow> inv s \<Longrightarrow> final s \<Longrightarrow> final s' \<and> obs s' = obs s"
proof (induction rule: rtranclp_induct)
  case (step y z)
  have "inv y" using inv_steps [OF step(1)] step(4) by simp
  with final_step [of y z] step show ?case by simp
qed simp

end

text \<open>
  A transition system in which part of the steps, the work that is under way, uses itself up:
  each such step lowers a rank. Then every run of work is finite, whatever the scheduler does,
  with the rank as a bound on its length, and some run comes to rest.
\<close>

locale ranked_system = transition_system init step inv
  for init :: "'s \<Rightarrow> bool" and step :: "'s \<Rightarrow> 's \<Rightarrow> bool" and inv :: "'s \<Rightarrow> bool" +
  fixes work :: "'s \<Rightarrow> 's \<Rightarrow> bool"
    and rank :: "'s \<Rightarrow> nat"
  assumes work_step: "work s s' \<Longrightarrow> step s s'"
    and work_rank: "inv s \<Longrightarrow> work s s' \<Longrightarrow> rank s' < rank s"
begin

lemma work_steps: "work\<^sup>*\<^sup>* s s' \<Longrightarrow> step\<^sup>*\<^sup>* s s'"
  by (rule rtranclp_mono [THEN predicate2D]) (auto intro: work_step)

lemma work_inv: "inv s \<Longrightarrow> work\<^sup>*\<^sup>* s s' \<Longrightarrow> inv s'"
  using inv_steps work_steps by blast

lemma work_bounded: "(work ^^ n) s s' \<Longrightarrow> inv s \<Longrightarrow> n + rank s' \<le> rank s"
proof (induction n arbitrary: s')
  case (Suc n)
  then obtain t where t: "(work ^^ n) s t" "work t s'" by auto
  have "inv t" using work_inv [OF Suc.prems(2)] t(1) by (metis rtranclp_power)
  then show ?case using work_rank [OF _ t(2)] Suc.IH [OF t(1) Suc.prems(2)] by simp
qed simp

lemma work_rests: "inv s \<Longrightarrow> \<exists>s'. work\<^sup>*\<^sup>* s s' \<and> (\<nexists>t. work s' t)"
proof (induction "rank s" arbitrary: s rule: less_induct)
  case less
  show ?case
  proof (cases "\<exists>t. work s t")
    case True
    then obtain t where t: "work s t" by blast
    obtain s' where "work\<^sup>*\<^sup>* t s'" "\<nexists>u. work s' u"
      using less.hyps [OF work_rank [OF less.prems t]] inv_step [OF less.prems work_step [OF t]] by blast
    then show ?thesis using t by (meson converse_rtranclp_into_rtranclp)
  qed blast
qed

end

end
