(* ===== verification/Server.thy ===== *)
theory Server
  imports Session Line_Reader Interfaces
begin

text \<open>
  \<open>udsmsg/server.go\<close>: the inbox. Binding and closing change the host; a connection is a run
  of \<open>handleConn\<close>, whose effect is the sequence of handler calls, modelled as events. A
  handler field that is nil is a flag that is off.
\<close>

record Handler =
  has_OnUser :: bool
  has_OnUnknown :: bool
  has_OnDrop :: bool
  has_OnError :: bool

datatype ModeSource = ModeSourceNone | ModeSourceDerived

record Config =
  Path :: gostring
  RequireAuth :: bool
  AllowUnidentifiedPeers :: bool
  PublishKey :: bool
  ModeSource :: ModeSource
  CFirstLineTimeout :: int         \<comment> \<open>milliseconds\<close>
  CHandler :: Handler

record Server =
  cfg :: Config
  path :: gostring
  smode :: Mode
  token :: gostring
  listening :: bool                \<comment> \<open>the listener is open\<close>
  closed :: bool

text \<open>\<open>FirstLineTimeout\<close> of client.go.\<close>

definition FirstLineTimeout :: int where "FirstLineTimeout = 30000"

subsection \<open>Events\<close>

datatype drop_reason =
    DropUndecodable frame_error
  | NoType
  | InvalidTokenClosing
  | InvalidTokenContinuing
  | NotAuthenticated
  | TooLong

datatype failure =
    RefusedPeer cred_error
  | UnidentifiedPeer cred_error
  | ReadFailed read_err
  | AcceptFailed

datatype event =
    OnUser Peer Frame
  | OnUnknown Peer Frame
  | OnDrop Peer "gostring option" drop_reason
  | LogDrop drop_reason
  | OnError failure
  | LogError failure

definition report :: "Server \<Rightarrow> failure \<Rightarrow> event list" where
  "report s e = [if has_OnError (CHandler (cfg s)) then OnError e else LogError e]"

definition drop_frame :: "Server \<Rightarrow> Peer \<Rightarrow> gostring option \<Rightarrow> drop_reason \<Rightarrow> event list" where
  "drop_frame s p line reason =
     [if has_OnDrop (CHandler (cfg s)) then OnDrop p line reason else LogDrop reason]"

text \<open>\<open>call\<close>: the handler, else the fallback, else nothing.\<close>

definition call :: "bool \<Rightarrow> bool \<Rightarrow> (Peer \<Rightarrow> Frame \<Rightarrow> event) \<Rightarrow> Peer \<Rightarrow> Frame \<Rightarrow> event list" where
  "call fn fallback ev p f = (if fn then [ev p f] else if fallback then [OnUnknown p f] else [])"

subsection \<open>Dispatching a line\<close>

datatype dispatchResult = connContinue | connDestroy

definition dispatch :: "Server \<Rightarrow> Peer \<Rightarrow> gostring \<Rightarrow> bool \<Rightarrow> Peer \<times> event list \<times> dispatchResult" where
  "dispatch s p line isFirst =
     (case decodeFrame line of
        Inl e \<Rightarrow> (p, drop_frame s p (Some line) (DropUndecodable e), connContinue)
      | Inr f \<Rightarrow>
          if Type f = [] then (p, drop_frame s p (Some line) NoType, connContinue)
          else if isFirst \<and> IsAuth f then
            (if Token f = token s then (p\<lparr>Authed := True\<rparr>, [], connContinue)
             else if RequireAuth (cfg s) then (p, drop_frame s p (Some line) InvalidTokenClosing, connDestroy)
             else (p, drop_frame s p (Some line) InvalidTokenContinuing, connContinue))
          else if RequireAuth (cfg s) \<and> \<not> Authenticated p then
            (p, drop_frame s p (Some line) NotAuthenticated, connDestroy)
          else
            (p, call (Type f = TypeUser \<and> has_OnUser (CHandler (cfg s)))
                  (has_OnUnknown (CHandler (cfg s))) OnUser p f, connContinue))"

subsection \<open>A connection\<close>

definition lift_deadline :: "reader \<Rightarrow> reader" where
  "lift_deadline r = r\<lparr>rd_conn := (rd_conn r)\<lparr>c_deadline := None\<rparr>\<rparr>"

lemma raw_pend_lift [simp]: "raw_pend (lift_deadline r) = raw_pend r"
  by (simp add: raw_pend_def lift_deadline_def)

text \<open>What follows a trailing partial line: anything but a clean end is reported.\<close>

definition end_report :: "Server \<Rightarrow> read_err \<Rightarrow> event list" where
  "end_report s e = (if e \<noteq> EOF \<and> e \<noteq> ErrClosed then report s (ReadFailed e) else [])"

lemma readLine_shrinks:
  "readLine cap r = (CompleteLine l, r') \<Longrightarrow> length (raw_pend r') < length (raw_pend r)"
  by (drule readLine_spec(2) [OF _ refl]) (simp add: consumed_def)

text \<open>The loop of \<open>handleConn\<close>; its state is the peer, the \<open>first\<close> flag and the reader.\<close>

function handle_loop :: "Server \<Rightarrow> Peer \<Rightarrow> bool \<Rightarrow> reader \<Rightarrow> event list" where
  "handle_loop s p first r =
     (case readLine MaxLineBytes r of
        (LineTooLong, _) \<Rightarrow> drop_frame s p None TooLong
      | (PartialLine line e, r') \<Rightarrow>
          if line = [] then end_report s e
          else (case dispatch s p line first of
                  (p', evs, connDestroy) \<Rightarrow> evs
                | (p', evs, connContinue) \<Rightarrow> evs @ end_report s e)
      | (CompleteLine line, r') \<Rightarrow>
          if line = [] then handle_loop s p first r'
          else let r' = (if first then lift_deadline r' else r') in
               (case dispatch s p line first of
                  (p', evs, connDestroy) \<Rightarrow> evs
                | (p', evs, connContinue) \<Rightarrow> evs @ handle_loop s p' False r'))"
  by pat_completeness auto
termination
  by (relation "measure (\<lambda>(_, _, _, r). length (raw_pend r))")
    (auto dest: readLine_shrinks sym split: if_splits)

declare handle_loop.simps [simp del]

text \<open>
  \<open>handleConn\<close>: what the kernel says of the peer, the time of the accept, and the connection
  (whose own deadline field is set here).
\<close>

definition handleConn :: "Server \<Rightarrow> host \<Rightarrow> kernel_cred \<Rightarrow> nat \<Rightarrow> net_conn \<Rightarrow> event list" where
  "handleConn s h cred now conn =
     (let deadline = (if CFirstLineTimeout (cfg s) \<le> 0 then FirstLineTimeout else CFirstLineTimeout (cfg s));
          r = \<lparr>rd_buf = [], rd_conn = conn\<lparr>c_deadline := Some (now + nat deadline)\<rparr>\<rparr>;
          run = (\<lambda>p. handle_loop s (p\<lparr>Addr := path s\<rparr>) True r)
      in case peerCred h cred of
           Inr p \<Rightarrow> run p
         | Inl e \<Rightarrow>
             if \<not> AllowUnidentifiedPeers (cfg s) then report s (RefusedPeer e)
             else report s (UnidentifiedPeer e) @ run zero_Peer)"

subsection \<open>The connection as a stream of lines\<close>

lemma next_line_Complete:
  assumes "next_line cap t e = CompleteLine l"
  shows "t = l @ newline # drop (Suc (length l)) t" "newline \<notin> set l" "length l < cap"
proof -
  have l: "newline \<in> set t" "l = takeWhile (\<lambda>c. c \<noteq> newline) t" "length l < cap"
    using assms by (auto simp: next_line_def Let_def split: if_splits)
  then have "t = (l @ [newline]) @ tl (dropWhile (\<lambda>c. c \<noteq> newline) t)" using split_at_newline by blast
  then show "t = l @ newline # drop (Suc (length l)) t"
    by (metis append.assoc append_Cons append_Nil append_eq_conv_conj length_append_singleton)
  show "newline \<notin> set l" "length l < cap" using l by (auto dest: set_takeWhileD)
qed

lemma next_line_shrinks:
  "next_line cap t e = CompleteLine l \<Longrightarrow> length (drop (Suc (length l)) t) < length t"
  by (drule next_line_Complete(1)) (metis length_append length_Cons length_drop add_Suc_right less_add_Suc2)

text \<open>
  The specification of the loop: it looks at the text of the connection only, cut at its
  newlines, without reads, buffers, times and deadlines.
\<close>

function serve_stream :: "Server \<Rightarrow> Peer \<Rightarrow> bool \<Rightarrow> gostring \<Rightarrow> read_err \<Rightarrow> event list" where
  "serve_stream s p first t e =
     (case next_line MaxLineBytes t e of
        LineTooLong \<Rightarrow> drop_frame s p None TooLong
      | PartialLine line e' \<Rightarrow>
          if line = [] then end_report s e
          else (case dispatch s p line first of
                  (p', evs, connDestroy) \<Rightarrow> evs
                | (p', evs, connContinue) \<Rightarrow> evs @ end_report s e)
      | CompleteLine line \<Rightarrow>
          (let rest = drop (Suc (length line)) t in
           if line = [] then serve_stream s p first rest e
           else case dispatch s p line first of
                  (p', evs, connDestroy) \<Rightarrow> evs
                | (p', evs, connContinue) \<Rightarrow> evs @ serve_stream s p' False rest e))"
  by pat_completeness auto
termination
  by (relation "measure (\<lambda>(_, _, _, t, _). length t)")
    (use next_line_shrinks in fastforce)+

declare serve_stream.simps [simp del]

lemma next_line_Partial:
  "next_line cap t e = PartialLine l e' \<Longrightarrow> t = l \<and> e' = e \<and> newline \<notin> set t \<and> length t \<le> cap"
  by (auto simp: next_line_def Let_def split: if_splits)

lemma next_line_append:
  assumes "newline \<notin> set l"
  shows "next_line cap (l @ newline # t) e = (if cap < length l + 1 then LineTooLong else CompleteLine l)"
proof -
  have "\<forall>c\<in>set l. c \<noteq> newline" using assms by auto
  from takeWhile_append_stop [OF this, of newline t] show ?thesis by (simp add: next_line_def)
qed

text \<open>One step of the specification on a text whose first line is known.\<close>

lemma serve_stream_line:
  assumes "newline \<notin> set l" "length l < MaxLineBytes"
  shows "serve_stream s p first (l @ newline # t) e =
    (if l = [] then serve_stream s p first t e
     else case dispatch s p l first of
            (p', evs, connDestroy) \<Rightarrow> evs
          | (p', evs, connContinue) \<Rightarrow> evs @ serve_stream s p' False t e)"
  using assms by (simp add: serve_stream.simps [of s p first "l @ newline # t" e] next_line_append)

lemma serve_stream_long:
  assumes "newline \<notin> set l" "MaxLineBytes \<le> length l"
  shows "serve_stream s p first (l @ newline # t) e = drop_frame s p None TooLong"
  using assms by (simp add: serve_stream.simps [of s p first "l @ newline # t" e] next_line_append)

text \<open>Without a deadline the loop is the specification on everything that arrives.\<close>

lemma pend_no_deadline:
  "c_deadline (rd_conn r) = None \<Longrightarrow> pend r = raw_pend r \<and> fin r = snd (c_end (rd_conn r))"
  by (simp add: pend_def raw_pend_def fin_def conn_bytes_def conn_fin_def late_def
      takeWhile_eq_all_conv [THEN iffD2])

lemma handle_loop_stream_False:
  "c_deadline (rd_conn r) = None \<or> \<not> first \<Longrightarrow>
     handle_loop s p first r = serve_stream s p first (pend r) (fin r)"
proof (induction s p first r rule: handle_loop.induct)
  case (1 s p first r)
  obtain res r' where rl: "readLine MaxLineBytes r = (res, r')" by force
  note sp = readLine_spec(1) [OF rl]
  show ?case
  proof (cases res)
    case (CompleteLine l)
    have c: "consumed r (l @ [newline]) r'" using readLine_spec(2) [OF rl CompleteLine] .
    have rest: "drop (Suc (length l)) (pend r) = pend r'" "fin r' = fin r"
      using c by (auto simp: consumed_def)
    have nl: "next_line MaxLineBytes (pend r) (fin r) = CompleteLine l" using sp CompleteLine by simp
    have d: "c_deadline (rd_conn r') = None \<or> \<not> first" using 1(3) c by (auto simp: consumed_def)
    have lift: "(if first then lift_deadline r' else r') = r'"
      using d by (auto simp: lift_deadline_def)
    show ?thesis
    proof (cases "l = []")
      case True
      then show ?thesis
        using 1(1) [OF rl [symmetric]] CompleteLine d rest nl
        by (simp add: handle_loop.simps [of s p first r] serve_stream.simps [of s p first "pend r"] rl)
    next
      case False
      obtain p' evs q where disp: "dispatch s p l first = (p', evs, q)" by (metis prod_cases3)
      have "handle_loop s p' False r' = serve_stream s p' False (pend r') (fin r')" if "q = connContinue"
        using 1(2) [OF rl [symmetric] CompleteLine False _ disp [symmetric] refl] that lift by simp
      then show ?thesis
        using CompleteLine False disp rest nl
        by (cases q; simp only: handle_loop.simps [of s p first r] rl prod.case line_result.case Let_def lift)
          (simp_all add: serve_stream.simps [of s p first "pend r"])
    qed
  qed (use sp in \<open>auto simp: handle_loop.simps [of s p first r] serve_stream.simps [of s p first "pend r"] rl
      dest: next_line_Partial\<close>)
qed

text \<open>With the deadline of the first line: it is lifted when a non-empty line is complete in time.\<close>

definition timely :: "gostring \<Rightarrow> bool" where
  "timely t \<longleftrightarrow> newline \<in> set (dropWhile (\<lambda>c. c = newline) t)"

lemma raw_pend_prefix: "\<exists>u. raw_pend r = pend r @ u"
  unfolding raw_pend_def pend_def conn_bytes_def
  by (metis append.assoc map_append takeWhile_dropWhile_id)

lemma next_line_prefix:
  assumes "newline \<in> set t"
  shows "next_line cap (t @ u) e = next_line cap t e'"
  using takeWhile_append1 [of newline t "\<lambda>c. c \<noteq> newline" u] assms by (simp add: next_line_def Let_def)

lemma timely_newline: "timely t \<Longrightarrow> newline \<in> set t"
  by (auto simp: timely_def dest: set_dropWhileD)

lemma timely_line: "l \<noteq> [] \<Longrightarrow> newline \<notin> set l \<Longrightarrow> timely (l @ newline # t)"
  by (cases l) (auto simp: timely_def)

lemma handle_loop_stream:
  "handle_loop s p True r =
     (if timely (pend r) then serve_stream s p True (raw_pend r) (snd (c_end (rd_conn r)))
      else serve_stream s p True (pend r) (fin r))"
proof (induction r rule: measure_induct_rule [of "\<lambda>r. length (raw_pend r)"])
  case (less r)
  obtain res r' where rl: "readLine MaxLineBytes r = (res, r')" by force
  note sp = readLine_spec(1) [OF rl]
  obtain u where u: "raw_pend r = pend r @ u" using raw_pend_prefix by blast
  show ?case
  proof (cases res)
    case LineTooLong
    then have "handle_loop s p True r = drop_frame s p None TooLong"
      by (simp add: handle_loop.simps [of s p True r] rl)
    moreover have "serve_stream s p True (pend r) (fin r) = drop_frame s p None TooLong"
      using sp LineTooLong by (simp add: serve_stream.simps [of s p True "pend r"])
    moreover have "serve_stream s p True (raw_pend r) e = drop_frame s p None TooLong" if "timely (pend r)" for e
    proof -
      have "next_line MaxLineBytes (raw_pend r) e = LineTooLong"
        using sp LineTooLong next_line_prefix [OF timely_newline [OF that], of MaxLineBytes u e "fin r"] u by simp
      then show ?thesis by (simp add: serve_stream.simps [of s p True "raw_pend r" e])
    qed
    ultimately show ?thesis by simp
  next
    case (PartialLine l e)
    then have "\<not> timely (pend r)" using sp timely_newline next_line_Partial by metis
    moreover have "handle_loop s p True r = serve_stream s p True (pend r) (fin r)"
    proof -
      have nl: "next_line MaxLineBytes (pend r) (fin r) = PartialLine l e" using sp PartialLine by simp
      have "e = fin r" using next_line_Partial [OF nl] by simp
      then show ?thesis
        by (simp add: handle_loop.simps [of s p True r] serve_stream.simps [of s p True "pend r"] rl PartialLine nl)
    qed
    ultimately show ?thesis by simp
  next
    case (CompleteLine l)
    have c: "consumed r (l @ [newline]) r'" using readLine_spec(2) [OF rl CompleteLine] .
    then have pr: "pend r = l @ newline # pend r'" "raw_pend r = l @ newline # raw_pend r'"
        "fin r' = fin r" "c_end (rd_conn r') = c_end (rd_conn r)" by (auto simp: consumed_def)
    note nl = next_line_Complete(2,3) [OF sp [unfolded CompleteLine, symmetric]]
    show ?thesis
    proof (cases "l = []")
      case True
      then have "handle_loop s p True r = handle_loop s p True r'"
        by (simp add: handle_loop.simps [of s p True r] rl CompleteLine)
      moreover have "timely (pend r) = timely (pend r')" by (simp add: pr True timely_def)
      ultimately show ?thesis
        using less.IH [of r'] pr nl(2) True serve_stream_line [of "[]"] by simp
    next
      case False
      have "handle_loop s q False (lift_deadline r') =
          serve_stream s q False (raw_pend r') (snd (c_end (rd_conn r)))" for q
        using handle_loop_stream_False [of "lift_deadline r'"] pend_no_deadline [of "lift_deadline r'"] pr(4)
        by (simp add: lift_deadline_def [of r'] raw_pend_def)
      then show ?thesis
        using False serve_stream_line [OF nl] timely_line [OF False nl(1)]
        by (simp add: handle_loop.simps [of s p True r] rl CompleteLine pr)
    qed
  qed
qed

text \<open>
  (C7) What the handlers see depends on the text of a connection and not on how it arrives:
  the loop of \<open>handleConn\<close>, with its reads, buffers and deadline, is \<open>serve_stream\<close> on the
  whole text when the first non-empty line is complete in time, and otherwise on the bytes that
  made the deadline, followed by a timeout.
\<close>

theorem handleConn_refines:
  "handle_loop s p True \<lparr>rd_buf = [], rd_conn = conn\<rparr> =
     (if timely (conn_bytes conn) then serve_stream s p True (map snd (c_in conn)) (snd (c_end conn))
      else serve_stream s p True (conn_bytes conn) (conn_fin conn))"
  unfolding handle_loop_stream by (simp add: pend_def raw_pend_def fin_def)

subsection \<open>Who is served\<close>

fun delivered :: "event \<Rightarrow> (Peer \<times> Frame) option" where
  "delivered (OnUser p f) = Some (p, f)"
| "delivered (OnUnknown p f) = Some (p, f)"
| "delivered _ = None"

definition first_line :: "gostring \<Rightarrow> gostring" where
  "first_line t = takeWhile (\<lambda>c. c \<noteq> newline) (dropWhile (\<lambda>c. c = newline) t)"

definition good_auth :: "Server \<Rightarrow> gostring \<Rightarrow> bool" where
  "good_auth s line \<longleftrightarrow> (case decodeFrame line of Inl _ \<Rightarrow> False | Inr f \<Rightarrow> IsAuth f \<and> Token f = token s)"

lemma first_line_append:
  assumes "l \<noteq> []" "newline \<notin> set l"
  shows "first_line (l @ newline # t) = l"
proof -
  have "dropWhile (\<lambda>c. c = newline) (l @ newline # t) = l @ newline # t"
    using assms by (cases l) auto
  moreover have "takeWhile (\<lambda>c. c \<noteq> newline) (l @ newline # t) = l"
    using assms(2) by (intro takeWhile_append_stop) auto
  ultimately show ?thesis by (simp add: first_line_def)
qed

lemma delivered_drop [simp]: "ev \<in> set (drop_frame s p l x) \<Longrightarrow> delivered ev = None"
  by (auto simp: drop_frame_def)

lemma delivered_report [simp]: "ev \<in> set (report s x) \<Longrightarrow> delivered ev = None"
  by (auto simp: report_def)

lemma delivered_end [simp]: "ev \<in> set (end_report s x) \<Longrightarrow> delivered ev = None"
  by (auto simp: end_report_def report_def)

lemma dispatch_delivered:
  assumes "dispatch s p line first = (p', evs, r)" "ev \<in> set evs" "delivered ev = Some (q, f)"
  shows "q = p \<and> decodeFrame line = Inr f \<and> (RequireAuth (cfg s) \<longrightarrow> Authed p)"
  using assms by (auto simp: dispatch_def call_def Authenticated_def split: sum.splits if_splits)

lemma dispatch_peer:
  assumes "dispatch s p line first = (p', evs, r)"
  shows "p' = p \<or> first \<and> good_auth s line \<and> p' = p\<lparr>Authed := True\<rparr>"
  using assms by (auto simp: dispatch_def good_auth_def split: sum.splits if_splits)

text \<open>Everything that reaches a handler is a line of the stream, decoded.\<close>

lemma serve_stream_delivered:
  assumes "ev \<in> set (serve_stream s p first t e)" "delivered ev = Some (q, f)"
  shows "decodeFrame (Raw f) = Inr f \<and> (RequireAuth (cfg s) \<longrightarrow> Authed q)
    \<and> (\<not> first \<longrightarrow> q = p) \<and> (Authed q \<longrightarrow> Authed p \<or> first \<and> good_auth s (first_line t))"
  using assms
proof (induction s p first t e rule: serve_stream.induct)
  case (1 s p first t e)
  have raw: "decodeFrame l = Inr f \<Longrightarrow> Raw f = l" for l
    by (auto simp: decodeFrame_def split: option.splits)
  show ?case
  proof (cases "next_line MaxLineBytes t e")
    case LineTooLong
    then show ?thesis using 1(3,4) by (simp add: serve_stream.simps [of s p first t e])
  next
    case (PartialLine l e')
    obtain p' evs r where d: "dispatch s p l first = (p', evs, r)" by (metis prod_cases3)
    have "ev \<in> set evs"
      using 1(3,4) PartialLine d
      by (auto simp: serve_stream.simps [of s p first t e] split: if_splits dispatchResult.splits)
    from dispatch_delivered [OF d this 1(4)] show ?thesis using raw by auto
  next
    case (CompleteLine l)
    note nl = next_line_Complete(2) [OF CompleteLine]
    define u where u: "u = drop (Suc (length l)) t"
    have t: "t = l @ newline # u" using next_line_Complete(1) [OF CompleteLine] u by simp
    show ?thesis
    proof (cases "l = []")
      case True
      then have "ev \<in> set (serve_stream s p first u e)"
        using 1(3) CompleteLine by (simp add: serve_stream.simps [of s p first t e] u)
      moreover have "first_line t = first_line u" by (simp add: t True first_line_def)
      ultimately show ?thesis using 1(1) [OF CompleteLine u True] 1(4) by simp
    next
      case False
      obtain p' evs r where d: "dispatch s p l first = (p', evs, r)" by (metis prod_cases3)
      consider "ev \<in> set evs" | "r = connContinue" "ev \<in> set (serve_stream s p' False u e)"
        using 1(3) CompleteLine d False
        by (auto simp: serve_stream.simps [of s p first t e] u split: dispatchResult.splits)
      then show ?thesis
      proof cases
        case 1
        from dispatch_delivered [OF d this \<open>delivered ev = _\<close>] show ?thesis using raw by auto
      next
        case 2
        have "decodeFrame (Raw f) = Inr f \<and> (RequireAuth (cfg s) \<longrightarrow> Authed q) \<and> q = p'"
          using 1(2) [OF CompleteLine u False d [symmetric] refl] 2 1(4) by auto
        then show ?thesis
          using dispatch_peer [OF d] first_line_append [OF False nl, of u] t by auto
      qed
    qed
  qed
qed

lemma serve_stream_untimely:
  assumes "\<not> timely t" "ev \<in> set (serve_stream s p first t e)" "delivered ev = Some (q, f)"
  shows "q = p"
  using assms
proof (induction t rule: measure_induct_rule [of length])
  case (less t)
  show ?case
  proof (cases "next_line MaxLineBytes t e")
    case LineTooLong
    then show ?thesis using less.prems by (simp add: serve_stream.simps [of s p first t e])
  next
    case (PartialLine l e')
    obtain p' evs r where d: "dispatch s p l first = (p', evs, r)" by (metis prod_cases3)
    have "ev \<in> set evs"
      using less.prems(2,3) PartialLine d
      by (auto simp: serve_stream.simps [of s p first t e] split: if_splits dispatchResult.splits)
    from dispatch_delivered [OF d this less.prems(3)] show ?thesis by simp
  next
    case (CompleteLine l)
    define u where u: "u = drop (Suc (length l)) t"
    have t: "t = l @ newline # u" using next_line_Complete(1) [OF CompleteLine] u by simp
    then have l: "l = []" using timely_line next_line_Complete(2) [OF CompleteLine] less.prems(1) by blast
    then have "\<not> timely u" "ev \<in> set (serve_stream s p first u e)" "length u < length t"
      using less.prems(1,2) CompleteLine t
      by (auto simp: timely_def serve_stream.simps [of s p first "newline # u" e])
    then show ?thesis using less.IH less.prems(3) by blast
  qed
qed

lemma handle_loop_delivered:
  assumes "\<not> Authed p" "ev \<in> set (handle_loop s p True \<lparr>rd_buf = [], rd_conn = conn\<rparr>)"
    and "delivered ev = Some (q, f)"
  shows "decodeFrame (Raw f) = Inr f" "RequireAuth (cfg s) \<Longrightarrow> Authed q"
    "Authed q \<Longrightarrow> good_auth s (first_line (map snd (c_in conn)))"
proof -
  define t e where "t = (if timely (conn_bytes conn) then map snd (c_in conn) else conn_bytes conn)"
    and "e = (if timely (conn_bytes conn) then snd (c_end conn) else conn_fin conn)"
  have ev: "ev \<in> set (serve_stream s p True t e)"
    using assms(2) unfolding handle_loop_stream t_def e_def
    by (simp add: pend_def raw_pend_def fin_def split: if_splits)
  note d = serve_stream_delivered [OF ev assms(3)]
  show "decodeFrame (Raw f) = Inr f" "RequireAuth (cfg s) \<Longrightarrow> Authed q" using d by auto
  show "good_auth s (first_line (map snd (c_in conn)))" if "Authed q"
  proof (cases "timely (conn_bytes conn)")
    case True
    then show ?thesis using d that assms(1) by (auto simp: t_def)
  next
    case False
    then have "q = p" using serve_stream_untimely [OF _ ev assms(3)] by (simp add: t_def)
    with that assms(1) show ?thesis by simp
  qed
qed

lemma handleConn_cases:
  assumes "ev \<in> set (handleConn s h cred now conn)" "delivered ev = Some (q, f)"
  obtains p conn' where "\<not> Authed p" "c_in conn' = c_in conn"
    "ev \<in> set (handle_loop s p True \<lparr>rd_buf = [], rd_conn = conn'\<rparr>)"
proof -
  let ?c = "conn\<lparr>c_deadline := Some (now + nat (if CFirstLineTimeout (cfg s) \<le> 0 then FirstLineTimeout
    else CFirstLineTimeout (cfg s)))\<rparr>"
  show thesis
  proof (cases "peerCred h cred")
    case (Inr p)
    then have "ev \<in> set (handle_loop s (p\<lparr>Addr := path s\<rparr>) True \<lparr>rd_buf = [], rd_conn = ?c\<rparr>)"
      using assms(1) by (simp add: handleConn_def Let_def)
    then show ?thesis using that [of "p\<lparr>Addr := path s\<rparr>" ?c] peerCred_fresh [OF Inr] by simp
  next
    case (Inl e)
    then have "ev \<in> set (handle_loop s (zero_Peer\<lparr>Addr := path s\<rparr>) True \<lparr>rd_buf = [], rd_conn = ?c\<rparr>)"
      using assms delivered_report by (fastforce simp: handleConn_def Let_def split: if_splits)
    then show ?thesis using that [of "zero_Peer\<lparr>Addr := path s\<rparr>" ?c] by (simp add: zero_Peer_def)
  qed
qed

subsection \<open>Frames on the wire\<close>

definition sendable :: "Frame \<Rightarrow> bool" where
  "sendable f \<longleftrightarrow> int64 (MsgV f) \<and> length (marshalFrame f) < MaxLineBytes"

definition received :: "Frame \<Rightarrow> Frame" where
  "received f = (norm_Frame f)\<lparr>Raw := marshalFrame f\<rparr>"

lemma decode_received: "sendable f \<Longrightarrow> decodeFrame (marshalFrame f) = Inr (received f)"
  by (simp add: sendable_def received_def decode_marshal)

lemma marshal_nonempty [simp]: "marshalFrame f \<noteq> []"
  by (simp add: marshalFrame_def json_of_Frame_def)

lemma serve_stream_frame:
  assumes "sendable f"
  shows "serve_stream s p first (marshalFrame f @ newline # t) e =
    (case dispatch s p (marshalFrame f) first of
       (p', evs, connDestroy) \<Rightarrow> evs
     | (p', evs, connContinue) \<Rightarrow> evs @ serve_stream s p' False t e)"
  using serve_stream_line [OF marshal_no_newline, of f s p first t e] assms by (simp add: sendable_def)

definition may_send :: "Server \<Rightarrow> Peer \<Rightarrow> bool" where
  "may_send s p \<longleftrightarrow> RequireAuth (cfg s) \<longrightarrow> Authed p"

lemma toValid_types: "toValid TypeUser = TypeUser" "toValid TypeAuth = TypeAuth"
  by (simp_all add: TypeUser_def TypeAuth_def toValid_ascii)

lemma dispatch_user:
  assumes "sendable f" "Type f = TypeUser" "may_send s p" "has_OnUser (CHandler (cfg s))"
  shows "dispatch s p (marshalFrame f) first = (p, [OnUser p (received f)], connContinue)"
proof -
  have t: "Type (received f) = TypeUser" using assms(2) by (simp add: received_def norm_Frame_def toValid_types)
  have "TypeUser \<noteq> []" "TypeUser \<noteq> TypeAuth" by (simp_all add: TypeUser_def TypeAuth_def)
  then show ?thesis
    using assms(3,4) t
    by (auto simp: dispatch_def decode_received [OF assms(1)] IsAuth_def call_def may_send_def Authenticated_def)
qed

lemma dispatch_auth:
  assumes "sendable f" "Type f = TypeAuth" "toValid (Token f) = token s"
  shows "dispatch s p (marshalFrame f) True = (p\<lparr>Authed := True\<rparr>, [], connContinue)"
proof -
  have t: "Type (received f) = TypeAuth" "Token (received f) = token s"
    using assms(2,3) by (simp_all add: received_def norm_Frame_def toValid_types)
  have "TypeAuth \<noteq> []" by (simp add: TypeAuth_def)
  then show ?thesis using t by (simp add: dispatch_def decode_received [OF assms(1)] IsAuth_def)
qed

text \<open>A run of user frames reaches the user handler, every one, once and in order.\<close>

lemma serve_stream_users:
  assumes "\<forall>f\<in>set fs. sendable f \<and> Type f = TypeUser" "may_send s p" "has_OnUser (CHandler (cfg s))"
  shows "serve_stream s p False (concat (map (\<lambda>f. marshalFrame f @ [newline]) fs)) EOF
    = map (\<lambda>f. OnUser p (received f)) fs"
  using assms(1)
proof (induction fs)
  case Nil
  show ?case
    by (simp add: serve_stream.simps [of s p False "[]"] next_line_def end_report_def MaxLineBytes_def)
next
  case (Cons f fs)
  then show ?case using assms(2,3) by (simp add: serve_stream_frame dispatch_user)
qed

subsection \<open>A connection that arrives in time\<close>

definition deadline_of :: "Server \<Rightarrow> nat" where
  "deadline_of s = nat (if CFirstLineTimeout (cfg s) \<le> 0 then FirstLineTimeout else CFirstLineTimeout (cfg s))"

definition prompt :: "Server \<Rightarrow> nat \<Rightarrow> net_conn \<Rightarrow> bool" where
  "prompt s now conn \<longleftrightarrow> list_all (\<lambda>x. fst x \<le> now + deadline_of s) (c_in conn)
     \<and> fst (c_end conn) \<le> now + deadline_of s"

lemma handleConn_prompt:
  assumes "prompt s now conn" "peerCred h cred = Inr p"
  shows "handleConn s h cred now conn =
    serve_stream s (p\<lparr>Addr := path s\<rparr>) True (map snd (c_in conn)) (snd (c_end conn))"
proof -
  let ?c = "conn\<lparr>c_deadline := Some (now + deadline_of s)\<rparr>"
  have l: "\<forall>x\<in>set (c_in conn). \<not> late ?c (fst x)" "\<not> late ?c (fst (c_end conn))"
    using assms(1) by (auto simp: prompt_def late_def list_all_iff)
  have "pend \<lparr>rd_buf = [], rd_conn = ?c\<rparr> = map snd (c_in conn)"
    "fin \<lparr>rd_buf = [], rd_conn = ?c\<rparr> = snd (c_end conn)"
    using l takeWhile_eq_all_conv [THEN iffD2, OF l(1)]
    by (simp_all add: pend_def fin_def conn_bytes_def conn_fin_def del: takeWhile_eq_all_conv)
  then show ?thesis
    using assms(2) handle_loop_stream [of s "p\<lparr>Addr := path s\<rparr>" "\<lparr>rd_buf = [], rd_conn = ?c\<rparr>"]
    by (simp add: handleConn_def Let_def deadline_of_def raw_pend_def)
qed

text \<open>The bytes of a client that authenticates and then sends user frames.\<close>

definition wire :: "Frame list \<Rightarrow> gostring" where
  "wire fs = concat (map (\<lambda>f. marshalFrame f @ [newline]) fs)"

text \<open>The newline framing of frames, read with the specification of \<open>readLine\<close>.\<close>

definition recv_frame :: "gostring \<Rightarrow> (Frame \<times> gostring) option" where
  "recv_frame t =
     (case next_line MaxLineBytes t EOF of
        CompleteLine l \<Rightarrow>
          (case decodeFrame l of Inl _ \<Rightarrow> None | Inr f \<Rightarrow> Some (f, drop (Suc (length l)) t))
      | _ \<Rightarrow> None)"

interpretation lines: framing sendable "\<lambda>f. marshalFrame f @ [newline]" recv_frame received
proof
  show "recv_frame ((marshalFrame f @ [newline]) @ rest) = Some (received f, rest)" if "sendable f" for f rest
    using that next_line_append [OF marshal_no_newline, of MaxLineBytes f rest EOF] decode_received [OF that]
    by (simp add: recv_frame_def sendable_def)
  show "recv_frame [] = None" by (simp add: recv_frame_def next_line_def MaxLineBytes_def)
qed

text \<open>
  A line stream carries exactly one sequence of frames: two sequences that a client can
  send and that give the same bytes are received as the same frames, one by one.
\<close>

theorem wire_unambiguous:
  assumes "list_all sendable fs" "list_all sendable gs" "wire fs = wire gs"
  shows "map received fs = map received gs"
  using lines.stream_inject [OF assms(1,2)] assms(3) by (simp add: wire_def)

lemma serve_session:
  assumes "sendable a" "Type a = TypeAuth" "toValid (Token a) = token s"
    and "\<forall>f\<in>set fs. sendable f \<and> Type f = TypeUser" "has_OnUser (CHandler (cfg s))"
  shows "serve_stream s p True (wire (a # fs)) EOF = map (\<lambda>f. OnUser (p\<lparr>Authed := True\<rparr>) (received f)) fs"
  using serve_stream_users [OF assms(4), of s "p\<lparr>Authed := True\<rparr>"] assms(5)
  by (simp add: wire_def serve_stream_frame [OF assms(1)] dispatch_auth [OF assms(1-3)] may_send_def)

definition sample_server :: Server where
  "sample_server = \<lparr>cfg = \<lparr>Path = [], RequireAuth = True, AllowUnidentifiedPeers = False, PublishKey = False,
     ModeSource = ModeSourceNone, CFirstLineTimeout = 0,
     CHandler = \<lparr>has_OnUser = True, has_OnUnknown = False, has_OnDrop = True, has_OnError = True\<rparr>\<rparr>,
     path = ''/tmp/7.sock'', smode = [], token = ''k'', listening = True, closed = False\<rparr>"

definition sample_auth :: Frame where "sample_auth = zero_Frame\<lparr>Type := TypeAuth, Token := ''k''\<rparr>"

definition sample_user :: Frame where
  "sample_user = zero_Frame\<lparr>Type := TypeUser, Message := Some \<lparr>Role = ''user'', Content = ''hi''\<rparr>\<rparr>"

definition sample_conn :: net_conn where
  "sample_conn = \<lparr>c_in = map (Pair 0) (wire [sample_auth, sample_user]), c_end = (1, EOF), c_deadline = None\<rparr>"

text \<open>A bound on the size of a frame, for the concrete examples.\<close>

lemma length_member: "length (json_quote k @ CHR '':'' # json_print (JStr v)) \<le> 6 * (length k + length v) + 5"
  using length_json_quote [of k] length_json_quote [of v] by simp

lemma samples_sendable: "sendable sample_auth" "sendable sample_user"
proof -
  have "length (marshalFrame sample_auth) < MaxLineBytes"
    using length_json_quote [of "''type''"] length_json_quote [of "''auth''"] length_json_quote [of "''token''"]
      length_json_quote [of "''k''"]
    by (simp add: marshalFrame_def json_of_Frame_def sample_auth_def zero_Frame_def omit_int_def omit_str_def
        jmember_def TypeAuth_def MaxLineBytes_def)
  moreover have "length (marshalFrame sample_user) < MaxLineBytes"
    using length_json_quote [of "''type''"] length_json_quote [of "''user''"] length_json_quote [of "''message''"]
      length_json_quote [of "''role''"] length_json_quote [of "''content''"] length_json_quote [of "''hi''"]
    by (simp add: marshalFrame_def json_of_Frame_def json_of_UserMessage_def sample_user_def zero_Frame_def
        omit_int_def omit_str_def jmember_def TypeUser_def MaxLineBytes_def)
  ultimately show "sendable sample_auth" "sendable sample_user"
    by (simp_all add: sendable_def sample_auth_def sample_user_def zero_Frame_def int64_def)
qed

theorem wire_unambiguous_witness:
  "list_all sendable [sample_auth, sample_user] \<and>
     map received [sample_auth, sample_user] = map received [sample_auth, sample_user]"
proof -
  have ok: "list_all sendable [sample_auth, sample_user]" using samples_sendable by simp
  show ?thesis using wire_unambiguous [OF ok ok refl] ok by simp
qed

lemma sample_run:
  "handleConn sample_server idle_host (LinuxCred 5 1000 1000) 0 sample_conn =
     [OnUser (peerCred_linux idle_host 5 1000 1000\<lparr>Addr := ''/tmp/7.sock'', Authed := True\<rparr>) (received sample_user)]"
proof -
  have "prompt sample_server 0 sample_conn"
    by (simp add: prompt_def sample_conn_def deadline_of_def sample_server_def FirstLineTimeout_def list_all_iff)
  from handleConn_prompt [OF this, of idle_host "LinuxCred 5 1000 1000" "peerCred_linux idle_host 5 1000 1000"]
  show ?thesis
    using serve_session [of sample_auth sample_server "[sample_user]"] samples_sendable
    by (simp add: peerCred_def sample_conn_def sample_server_def sample_auth_def sample_user_def comp_def toValid_ascii)
qed

text \<open>
  (C1) An inbox that requires authentication serves nobody else: whatever a connection sends,
  and however it arrives, a frame reaches a handler only if the first non-empty line of that
  connection was an auth frame with this inbox's token; the handler is told so, and the frame
  it gets is a decoded line of the connection.
\<close>

theorem require_auth_gate:
  assumes "RequireAuth (cfg s)" "ev \<in> set (handleConn s h cred now conn)" "delivered ev = Some (q, f)"
  shows "Authed q \<and> good_auth s (first_line (map snd (c_in conn))) \<and> decodeFrame (Raw f) = Inr f"
  using handleConn_cases [OF assms(2,3)] handle_loop_delivered [OF _ _ assms(3)] assms(1) by metis

theorem require_auth_gate_witness:
  "\<exists>ev q f. ev \<in> set (handleConn sample_server idle_host (LinuxCred 5 1000 1000) 0 sample_conn)
     \<and> delivered ev = Some (q, f) \<and> Authed q
     \<and> good_auth sample_server (first_line (map snd (c_in sample_conn)))"
proof -
  let ?q = "peerCred_linux idle_host 5 1000 1000\<lparr>Addr := ''/tmp/7.sock'', Authed := True\<rparr>"
  have ev: "OnUser ?q (received sample_user)
      \<in> set (handleConn sample_server idle_host (LinuxCred 5 1000 1000) 0 sample_conn)"
    by (simp add: sample_run)
  have "RequireAuth (cfg sample_server)" by (simp add: sample_server_def)
  from require_auth_gate [OF this ev, of ?q "received sample_user"] ev show ?thesis by auto
qed

end
