(* ===== verification/Wire_Types.thy ===== *)
theory Wire_Types
  imports Server
begin

text \<open>
  What a handler of an inbox may rely on. The bytes of a connection are a peer's, and may be
  anything; the frames that come out of \<open>decodeFrame\<close> are typed: their strings are UTF-8, their
  number fits, and they carry the line they were read from. \<open>json_typed\<close> is the type of a JSON
  value, \<open>frame_typed\<close> the one of a frame.
\<close>

subsection \<open>JSON values\<close>

fun json_typed :: "json \<Rightarrow> bool" where
  "json_typed (JStr s) = validString s"
| "json_typed (JArr vs) = list_all json_typed vs"
| "json_typed (JObj ms) = list_all (\<lambda>(k, _, v). validString k \<and> json_typed v) ms"
| "json_typed _ = True"

lemma unicode_esc_typed: "unicode_esc s = Some (x, t) \<Longrightarrow> validString x"
  by (auto simp: unicode_esc_def validString_encodeRune split: option.splits if_splits)

lemma str_char_typed: "str_char s = Some (x, t) \<Longrightarrow> validString x"
proof (induction s rule: str_char.induct)
  case (2 c t)
  have "validString [d]" if "simple_esc e = Some d" for e d
    using that by (intro validString_ascii) (auto simp: simple_esc_def split: if_splits)
  with 2 show ?case
    by (auto simp: str_char.simps Let_def validString_encodeRune dest: unicode_esc_typed
        split: if_splits list.splits option.splits prod.splits)
qed (simp add: str_char.simps)

lemma parse_str_typed: "parse_str s = Some (x, t) \<Longrightarrow> validString x"
proof (induction s arbitrary: x rule: parse_str.induct)
  case (1 s)
  show ?case
  proof (cases s)
    case (Cons c u)
    have "(if c = dquote then Some ([], u) else case str_char s of None \<Rightarrow> None
        | Some (x, u) \<Rightarrow> map_option (apfst (append x)) (parse_str u)) = Some (x, t)"
      using "1.prems" by (subst (asm) parse_str.simps) (simp add: Cons)
    then show ?thesis using "1.IH" [OF Cons] str_char_typed [of s]
      by (fastforce simp: Cons validString_append split: if_splits option.splits prod.splits)
  qed (use "1.prems" in \<open>simp add: parse_str.simps\<close>)
qed

lemma parse_scalar_typed: "parse_scalar s = Some (v, t) \<Longrightarrow> json_typed v"
  by (auto simp: parse_scalar_def dest: parse_str_typed split: list.splits if_splits option.splits)

lemma parse_typed:
  shows "parse_value d s = Some (v, t) \<Longrightarrow> json_typed v"
    and "parse_elems d s = Some (vs, t) \<Longrightarrow> list_all json_typed vs"
    and "parse_members d s = Some (ms, t) \<Longrightarrow> list_all (\<lambda>(k, _, v). validString k \<and> json_typed v) ms"
proof (induction d s and d s and d s arbitrary: v t and vs t and ms t
    rule: parse_value_parse_elems_parse_members.induct)
  case (1 d s0)
  note prem = "1.prems" [unfolded parse_value.simps [of d s0]]
  then obtain c t' where st: "skip_ws s0 = c # t'" by (auto split: list.splits)
  with prem "1.IH" [OF st] show ?case
    by (fastforce simp: st split: list.splits if_splits dest: parse_scalar_typed)
next
  case (2 d s)
  note prem = "2.prems" [unfolded parse_elems.simps [of d s]]
  then obtain v u where vu: "parse_value d s = Some (v, u)" by (auto split: option.splits)
  with prem obtain e t' where st: "skip_ws u = e # t'" by (auto split: list.splits)
  with prem "2.IH"(1) [OF vu] "2.IH"(2) [OF vu refl st] show ?case
    by (fastforce simp: vu split: if_splits)
next
  case (3 d s)
  note prem = "3.prems" [unfolded parse_members.simps [of d s] Let_def]
  then obtain s1 where s1: "skip_ws s = dquote # s1" by (auto split: list.splits if_splits)
  with prem obtain k s2 where s2: "parse_str s1 = Some (k, s2)" by (auto split: option.splits)
  with prem s1 obtain s3 where s3: "skip_ws s2 = CHR '':'' # s3" by (auto split: list.splits if_splits)
  with prem s1 s2 obtain v u where vu: "parse_value d (skip_ws s3) = Some (v, u)"
    by (auto split: option.splits)
  with prem s1 s2 s3 obtain f t' where st: "skip_ws u = f # t'" by (auto split: list.splits)
  have "json_typed v" using "3.IH"(1) [OF s1 _ s2 refl s3 _ vu] by simp
  moreover have "list_all (\<lambda>(k, _, v). validString k \<and> json_typed v) ms'"
    if "f = CHR '',''" "length t' < length s" "parse_members d t' = Some (ms', t)" for ms'
    using "3.IH"(2) [OF s1 _ s2 refl s3 _ vu refl refl st] that by simp
  ultimately show ?case using prem parse_str_typed [OF s2]
    by (fastforce simp: s1 s2 s3 vu st split: if_splits)
qed

lemma json_parse_typed: "json_parse s = Some v \<Longrightarrow> json_typed v"
  by (auto simp: json_parse_def dest: parse_typed(1) split: option.splits if_splits)

subsection \<open>Frames\<close>

definition message_typed :: "UserMessage \<Rightarrow> bool" where
  "message_typed m \<longleftrightarrow> validString (Role m) \<and> validString (Content m)"

definition frame_typed :: "Frame \<Rightarrow> bool" where
  "frame_typed f \<longleftrightarrow> int64 (MsgV f)
     \<and> list_all validString [Type f, MsgID f, From f, FromMode f, Priority f, Token f]
     \<and> pred_option message_typed (Message f)"

lemma dec_str_typed: "dec_str cur v = Some s \<Longrightarrow> json_typed v \<Longrightarrow> validString cur \<Longrightarrow> validString s"
  by (auto simp: dec_str_def split: json.splits)

lemma dec_int_typed: "dec_int cur v = Some i \<Longrightarrow> int64 cur \<Longrightarrow> int64 i"
  by (auto simp: dec_int_def dest: atoi_int64 split: json.splits)

text \<open>
  A decoder of fields that keeps a type of structs, given typed values: then the decoder of a
  whole struct keeps it.
\<close>

locale typed_decoder =
  fixes field :: "'a field_decoder"
    and ok :: "'a \<Rightarrow> bool"
  assumes field_typed: "field a (k, r, v) = Some b \<Longrightarrow> json_typed v \<Longrightarrow> ok a \<Longrightarrow> ok b"
begin

lemma members_typed:
  "dec_members field a ms = Some b \<Longrightarrow> list_all (\<lambda>(k, _, v). validString k \<and> json_typed v) ms \<Longrightarrow> ok a \<Longrightarrow> ok b"
proof (induction ms arbitrary: a)
  case (Cons m ms)
  obtain k r v where m: "m = (k, r, v)" by (metis prod_cases3)
  then obtain c where "field a (k, r, v) = Some c" "dec_members field c ms = Some b"
    using Cons.prems(1) by (auto split: option.splits)
  then show ?case using Cons.IH Cons.prems(2,3) field_typed m by auto
qed simp

lemma struct_typed: "dec_struct field a v = Some b \<Longrightarrow> json_typed v \<Longrightarrow> ok a \<Longrightarrow> ok b"
  by (auto simp: dec_struct_def members_typed split: json.splits)

end

interpretation message_fields: typed_decoder dec_UserMessage message_typed
  by unfold_locales (auto simp: dec_UserMessage_def message_typed_def dest: dec_str_typed split: if_splits)

lemma dec_Message_typed:
  assumes "dec_Message cur v = Some m" "json_typed v" "pred_option message_typed cur"
  shows "pred_option message_typed m"
proof -
  have "message_typed (case cur of None \<Rightarrow> zero_UserMessage | Some m \<Rightarrow> m)"
    using assms(3) by (auto simp: message_typed_def zero_UserMessage_def split: option.split)
  then show ?thesis
    using assms(1,2) message_fields.struct_typed by (fastforce simp: dec_Message_def split: json.splits)
qed

interpretation frame_fields: typed_decoder dec_Frame frame_typed
  by unfold_locales
    (auto simp: dec_Frame_def frame_typed_def dest: dec_str_typed dec_int_typed dec_Message_typed split: if_splits)

lemma decodeFrame_typed:
  assumes "decodeFrame line = Inr f"
  shows "frame_typed f" "Raw f = line"
proof -
  obtain v g where g: "json_parse line = Some v" "dec_struct dec_Frame zero_Frame v = Some g" "f = g\<lparr>Raw := line\<rparr>"
    using assms by (auto simp: decodeFrame_def split: option.splits)
  have "frame_typed zero_Frame" by (simp add: frame_typed_def zero_Frame_def int64_def)
  then have "frame_typed g"
    using frame_fields.struct_typed [OF g(2) json_parse_typed [OF g(1)]] by simp
  then show "frame_typed f" "Raw f = line" using g(3) by (simp_all add: frame_typed_def)
qed

text \<open>A typed frame is what its own encoding reads back as.\<close>

lemma typed_norm: "frame_typed f \<Longrightarrow> norm_Frame f = f"
  by (cases "Message f") (auto simp: frame_typed_def message_typed_def norm_Frame_def norm_UserMessage_def)

subsection \<open>What handlers get\<close>

text \<open>Whatever a connection causes to be delivered was delivered by the dispatch of one of its lines.\<close>

lemma serve_stream_dispatched:
  assumes "ev \<in> set (serve_stream s p first t e)" "delivered ev = Some (q, f)"
  shows "\<exists>l p' first' p'' evs r. newline \<notin> set l \<and> length l \<le> MaxLineBytes
    \<and> dispatch s p' l first' = (p'', evs, r) \<and> ev \<in> set evs"
  using assms
proof (induction s p first t e rule: serve_stream.induct)
  case (1 s p first t e)
  show ?case
  proof (cases "next_line MaxLineBytes t e")
    case LineTooLong
    then show ?thesis using 1(3,4) by (simp add: serve_stream.simps [of s p first t e])
  next
    case (PartialLine l e')
    obtain p' evs r where d: "dispatch s p l first = (p', evs, r)" by (metis prod_cases3)
    have "ev \<in> set evs"
      using 1(3,4) PartialLine d
      by (auto simp: serve_stream.simps [of s p first t e] split: if_splits dispatchResult.splits)
    moreover have "newline \<notin> set l" "length l \<le> MaxLineBytes"
      using PartialLine by (auto simp: next_line_def Let_def split: if_splits)
    ultimately show ?thesis using d by blast
  next
    case (CompleteLine l)
    have l: "newline \<notin> set l" "length l \<le> MaxLineBytes"
      using CompleteLine by (auto simp: next_line_def Let_def split: if_splits dest: set_takeWhileD)
    define u where u: "u = drop (Suc (length l)) t"
    show ?thesis
    proof (cases "l = []")
      case True
      then have "ev \<in> set (serve_stream s p first u e)"
        using 1(3) CompleteLine by (simp add: serve_stream.simps [of s p first t e] u)
      then show ?thesis using 1(1) [OF CompleteLine u True] 1(4) by simp
    next
      case False
      obtain p' evs r where d: "dispatch s p l first = (p', evs, r)" by (metis prod_cases3)
      consider "ev \<in> set evs" | "r = connContinue" "ev \<in> set (serve_stream s p' False u e)"
        using 1(3) CompleteLine d False
        by (auto simp: serve_stream.simps [of s p first t e] u split: dispatchResult.splits)
      then show ?thesis
      proof cases
        case 1
        then show ?thesis using d l by blast
      next
        case 2
        then show ?thesis using 1(2) [OF CompleteLine u False d [symmetric] refl] 1(4) by simp
      qed
    qed
  qed
qed

lemma handleConn_dispatched:
  assumes "ev \<in> set (handleConn s h cred now conn)" "delivered ev = Some (q, f)"
  obtains l p first p' evs r where "newline \<notin> set l" "length l \<le> MaxLineBytes"
    "dispatch s p l first = (p', evs, r)" "ev \<in> set evs"
proof (rule handleConn_cases [OF assms])
  fix p conn'
  assume "ev \<in> set (handle_loop s p True \<lparr>rd_buf = [], rd_conn = conn'\<rparr>)"
  then obtain t e where "ev \<in> set (serve_stream s p True t e)"
    unfolding handle_loop_stream by (auto split: if_splits)
  from serve_stream_dispatched [OF this assms(2)] show thesis using that by blast
qed

text \<open>
  (C25) Whatever bytes a peer sends, a handler only ever sees typed frames: the type is not empty,
  every string is valid UTF-8, the version is a 64-bit number, \<open>OnUser\<close> gets frames of type
  \<open>user\<close> and no others, \<open>Raw\<close> is one line within the cap that decodes to this very frame, and the
  frame survives being encoded again, as a program that passes it on would do.
\<close>

theorem handlers_get_typed_frames:
  assumes "ev \<in> set (handleConn s h cred now conn)" "delivered ev = Some (q, f)"
  shows "frame_typed f \<and> Type f \<noteq> [] \<and> (ev = OnUser q f \<longrightarrow> Type f = TypeUser)
    \<and> newline \<notin> set (Raw f) \<and> length (Raw f) \<le> MaxLineBytes \<and> decodeFrame (Raw f) = Inr f
    \<and> decodeFrame (marshalFrame f) = Inr (f\<lparr>Raw := marshalFrame f\<rparr>)"
proof (rule handleConn_dispatched [OF assms])
  fix l p first p' evs r
  assume l: "newline \<notin> set l" "length l \<le> MaxLineBytes" and d: "dispatch s p l first = (p', evs, r)" "ev \<in> set evs"
  have "decodeFrame l = Inr f" "Type f \<noteq> []" "ev = OnUser q f \<longrightarrow> Type f = TypeUser"
    using d assms(2) by (auto simp: dispatch_def call_def drop_frame_def split: sum.splits if_splits)
  moreover note decodeFrame_typed [OF this(1)]
  moreover from this(1) have "int64 (MsgV f)" by (simp add: frame_typed_def)
  ultimately show ?thesis using l decode_marshal [of f] typed_norm [of f] by simp
qed

theorem handlers_get_typed_frames_witness:
  "frame_typed (received sample_user) \<and> Type (received sample_user) = TypeUser
     \<and> decodeFrame (Raw (received sample_user)) = Inr (received sample_user)"
proof -
  let ?q = "peerCred_linux idle_host 5 1000 1000\<lparr>Addr := ''/tmp/7.sock'', Authed := True\<rparr>"
  have ev: "OnUser ?q (received sample_user)
      \<in> set (handleConn sample_server idle_host (LinuxCred 5 1000 1000) 0 sample_conn)"
    by (simp add: sample_run)
  from handlers_get_typed_frames [OF this, of ?q "received sample_user"] show ?thesis by simp
qed

end
