(* ===== verification/Deliver.thy ===== *)
theory Deliver
  imports Proc Interfaces
begin

text \<open>
  \<open>deliver/deliver.go\<close>: the message a delivery becomes, the metadata that names a Codex thread,
  the options, and the contract of a \<open>Deliverer\<close> that the two backends meet. A reason or a
  detail that is a sentence in the code is a constructor here.
\<close>

datatype Observation = ObservedNothing | ObservedAccepted | ObservedStored

fun Observation_String :: "Observation \<Rightarrow> gostring" where
  "Observation_String ObservedNothing = ''nothing''"
| "Observation_String ObservedAccepted = ''accepted''"
| "Observation_String ObservedStored = ''stored''"

record Delivery =
  Cursor :: gostring
  Body :: gostring
  More :: bool

datatype detail = WrittenUnverified | EchoMatched | EchoDiffers nat nat

record Receipt =
  Observed :: Observation
  Detail :: detail

datatype unavailable_reason =
    NotLaunched
  | InboxGone gostring
  | NoChildToken
  | TwoThreads
  | NoDaemon
  | NoThreadYet

subsection \<open>The text of a delivery\<close>

text \<open>The interpunct of the note is two bytes of UTF-8.\<close>

definition more_note :: gostring where
  "more_note = '' '' @ [CHR 0xC2, CHR 0xB7] @ '' more is waiting than this message carries''"

definition compose :: "Delivery \<Rightarrow> gostring" where
  "compose d =
     (let b = Body d;
          b = (if 0 < length b then b @ [newline, newline] else b);
          b = b @ ''['';
          b = (if Cursor d \<noteq> [] then b @ ''cursor: '' @ Cursor d
               else b @ ''no cursor: this message cannot be re-fetched'');
          b = (if More d then b @ more_note else b)
      in b @ '']'')"

subsection \<open>Request metadata\<close>

text \<open>A \<open>map[string]any\<close>; the nil map has no entries. Values are JSON values.\<close>

type_synonym meta = "gostring \<rightharpoonup> json"

definition metaThreadID :: gostring where "metaThreadID = ''threadId''"

datatype meta_error = errNoMeta | NotAThread json

definition threadIDFromMeta :: "meta \<Rightarrow> meta_error + gostring" where
  "threadIDFromMeta meta =
     (case meta metaThreadID of
        None \<Rightarrow> Inl errNoMeta
      | Some v \<Rightarrow>
          (case v of
             JStr s \<Rightarrow> if TrimSpace s = [] then Inl (NotAThread v) else Inr s
           | _ \<Rightarrow> Inl (NotAThread v)))"

subsection \<open>Options and the environment\<close>

record options =
  senderName :: gostring
  replyAddress :: gostring
  omode :: Mode

definition WithSenderName :: "gostring \<Rightarrow> options \<Rightarrow> options" where
  "WithSenderName name o' = o'\<lparr>senderName := name\<rparr>"

definition WithReplyAddress :: "gostring \<Rightarrow> options \<Rightarrow> options" where
  "WithReplyAddress addr o' = o'\<lparr>replyAddress := addr\<rparr>"

definition WithDetectedMode :: "host \<Rightarrow> options \<Rightarrow> options" where
  "WithDetectedMode h o' = (case DetectParentMode h of Inl _ \<Rightarrow> o' | Inr m \<Rightarrow> o'\<lparr>omode := m\<rparr>)"

definition EnvClaudeSocket :: gostring where "EnvClaudeSocket = ''CLAUDE_CODE_MESSAGING_SOCKET''"
definition EnvClaudeToken :: gostring where "EnvClaudeToken = ''CLAUDE_CODE_MESSAGING_TOKEN''"
definition EnvCodexSession :: gostring where "EnvCodexSession = ''CODEX_SESSION_ID''"

definition harnessEnv :: "gostring list" where
  "harnessEnv = [EnvClaudeSocket, EnvClaudeToken, EnvCodexSession]"

text \<open>
  \<open>ClearEnvForTesting\<close>: the environment without the harness, and the function that restores
  what was there.
\<close>

fun clear_env :: "gostring list \<Rightarrow> (gostring \<rightharpoonup> gostring) \<Rightarrow> (gostring \<times> gostring option) list \<times> (gostring \<rightharpoonup> gostring)" where
  "clear_env [] env = ([], env)"
| "clear_env (k # ks) env =
     (let (saved, env') = clear_env ks (env(k := None)) in ((k, env k) # saved, env'))"

definition restore_env :: "(gostring \<times> gostring option) list \<Rightarrow> (gostring \<rightharpoonup> gostring) \<Rightarrow> (gostring \<rightharpoonup> gostring)" where
  "restore_env saved env = foldl (\<lambda>e (k, v). e(k := v)) env saved"

definition ClearEnvForTesting :: "host \<Rightarrow> (host \<Rightarrow> host) \<times> host" where
  "ClearEnvForTesting h =
     (let (saved, env) = clear_env harnessEnv (h_env h)
      in (\<lambda>h'. h'\<lparr>h_env := restore_env saved (h_env h')\<rparr>, h\<lparr>h_env := env\<rparr>))"

definition defaultSenderName :: "host \<Rightarrow> gostring" where
  "defaultSenderName h = (case h_exe h of Some exe \<Rightarrow> path_base exe | None \<Rightarrow> ''mcp'')"

subsection \<open>The trailer\<close>

definition trailer :: "Delivery \<Rightarrow> gostring" where
  "trailer d = ''['' @ (if Cursor d \<noteq> [] then ''cursor: '' @ Cursor d else ''no cursor: this message cannot be re-fetched'')
     @ (if More d then more_note else []) @ '']''"

lemma compose_trailer: "compose d = (if Body d = [] then [] else Body d @ [newline, newline]) @ trailer d"
  by (simp add: compose_def trailer_def Let_def)

lemma trailer_bracket:
  assumes "CHR ''['' \<notin> set (Cursor d)"
  shows "\<exists>t. trailer d = CHR ''['' # t \<and> CHR ''['' \<notin> set t"
  using assms by (auto simp: trailer_def more_note_def)

text \<open>Everything from the last bracket on, whatever the body quotes.\<close>

lemma last_bracket_inject:
  "c \<notin> set s \<Longrightarrow> c \<notin> set t \<Longrightarrow> a @ c # s = b @ c # t \<longleftrightarrow> a = b \<and> s = t"
proof
  assume n: "c \<notin> set s" "c \<notin> set t" and e: "a @ c # s = b @ c # t"
  then have r: "rev s @ c # rev a = rev t @ c # rev b" by (metis append.assoc append_Cons append_Nil rev.simps(2) rev_append)
  have "takeWhile (\<lambda>x. x \<noteq> c) (rev s @ c # rev a) = rev s" "takeWhile (\<lambda>x. x \<noteq> c) (rev t @ c # rev b) = rev t"
    using n by (auto intro!: takeWhile_append_stop)
  then have "rev s = rev t" using r by metis
  then show "a = b \<and> s = t" using e by simp
qed simp

text \<open>
  A delivery can be read back from the end of its text, whatever the body quotes: as long as
  the anchors hold no opening bracket and do not themselves end in the note that more is
  waiting, two deliveries with the same text have the same body, the same anchor and the same
  note. Every text ends with a bracketed trailer.
\<close>

theorem compose_unambiguous:
  assumes "compose d = compose d'" "CHR ''['' \<notin> set (Cursor d)" "CHR ''['' \<notin> set (Cursor d')"
    and "\<not> suffix more_note (Cursor d)" "\<not> suffix more_note (Cursor d')"
  shows "d = d' \<and> last (compose d) = CHR '']''"
proof -
  obtain t t' where t: "trailer d = CHR ''['' # t" "CHR ''['' \<notin> set t" "trailer d' = CHR ''['' # t'" "CHR ''['' \<notin> set t'"
    using trailer_bracket assms(2,3) by metis
  let ?pre = "\<lambda>d :: Delivery. if Body d = [] then [] else Body d @ [newline, newline]"
  have "?pre d = ?pre d'" "trailer d = trailer d'"
    using assms(1) last_bracket_inject [OF t(2,4), of "?pre d" "?pre d'"] t(1,3) unfolding compose_trailer by simp_all
  then have b: "Body d = Body d'" by (auto split: if_splits)
  have n: "Cursor d @ more_note \<noteq> Cursor d'" "Cursor d \<noteq> Cursor d' @ more_note"
    using assms(4,5) unfolding suffix_def by metis+
  have "Cursor d = Cursor d' \<and> More d = More d'"
    using \<open>trailer d = trailer d'\<close> n by (auto simp: trailer_def split: if_splits)
  moreover have "last (compose d) = CHR '']''" by (simp add: compose_def Let_def)
  ultimately show ?thesis using b by (cases d; cases d') simp
qed

theorem compose_unambiguous_witness:
  "compose \<lparr>Cursor = ''7'', Body = ''see [cursor: 5]'', More = True\<rparr>
     \<noteq> compose \<lparr>Cursor = ''5'', Body = ''see '', More = False\<rparr>"
  using compose_unambiguous [of "\<lparr>Cursor = ''7'', Body = ''see [cursor: 5]'', More = True\<rparr>"
      "\<lparr>Cursor = ''5'', Body = ''see '', More = False\<rparr>"]
  by (auto simp: more_note_def suffix_def Cons_eq_append_conv)

subsection \<open>Clearing the environment\<close>

lemma clear_env_spec:
  "distinct ks \<Longrightarrow> clear_env ks env = (map (\<lambda>k. (k, env k)) ks, \<lambda>k. if k \<in> set ks then None else env k)"
proof (induction ks arbitrary: env)
  case (Cons k ks)
  then have "map (\<lambda>x. (x, (env(k := None)) x)) ks = map (\<lambda>x. (x, env x)) ks" by auto
  with Cons show ?case by (auto simp: fun_eq_iff)
qed (simp add: fun_eq_iff)

lemma restore_env_spec:
  "distinct ks \<Longrightarrow> restore_env (map (\<lambda>k. (k, f k)) ks) env = (\<lambda>k. if k \<in> set ks then f k else env k)"
proof (induction ks arbitrary: env)
  case (Cons k ks)
  then show ?case by (auto simp: restore_env_def fun_eq_iff)
qed (simp add: restore_env_def)

lemma harnessEnv_distinct: "distinct harnessEnv"
  by (simp add: harnessEnv_def EnvClaudeSocket_def EnvClaudeToken_def EnvCodexSession_def)

text \<open>
  Clearing the environment for a test hides every variable of the harness and nothing else,
  and what it returns undoes it exactly, whether a variable was set, empty or absent.
\<close>

theorem cleared_env_restores:
  assumes "ClearEnvForTesting h = (restore, h')"
  shows "restore h' = h \<and> (\<forall>k. getenv h' k = (if k \<in> set harnessEnv then [] else getenv h k))"
proof -
  have r: "restore = (\<lambda>x. x\<lparr>h_env := \<lambda>k. if k \<in> set harnessEnv then h_env h k else h_env x k\<rparr>)"
    and h': "h' = h\<lparr>h_env := \<lambda>k. if k \<in> set harnessEnv then None else h_env h k\<rparr>"
    using assms
    by (auto simp: ClearEnvForTesting_def clear_env_spec [OF harnessEnv_distinct] restore_env_spec [OF harnessEnv_distinct])
  have "(\<lambda>k. if k \<in> set harnessEnv then h_env h k else h_env h' k) = h_env h" by (auto simp: h' fun_eq_iff)
  then have "restore h' = h'\<lparr>h_env := h_env h\<rparr>" by (simp add: r)
  then have "restore h' = h" by (simp add: h')
  moreover have "getenv h' k = (if k \<in> set harnessEnv then [] else getenv h k)" for k by (simp add: h' getenv_def)
  ultimately show ?thesis by simp
qed

theorem cleared_env_restores_witness:
  "fst (ClearEnvForTesting (idle_host\<lparr>h_env := [EnvClaudeToken \<mapsto> []]\<rparr>))
     (snd (ClearEnvForTesting (idle_host\<lparr>h_env := [EnvClaudeToken \<mapsto> []]\<rparr>))) = idle_host\<lparr>h_env := [EnvClaudeToken \<mapsto> []]\<rparr>"
  using cleared_env_restores [OF prod.collapse [symmetric]] by blast

subsection \<open>The contract of a deliverer\<close>

text \<open>
  The target of a deliverer comes from the process relationship. \<open>latched\<close> says that there is
  one, \<open>usable\<close> that deliveries go to it. Metadata without a thread id changes nothing; once
  latched, no metadata can move the target, only make the deliverer unusable for good.
\<close>

locale deliverer =
  fixes adopt :: "meta \<Rightarrow> 'b \<Rightarrow> 'b"
    and latched :: "'b \<Rightarrow> bool"
    and usable :: "'b \<Rightarrow> bool"
    and goal :: "'b \<Rightarrow> gostring"
  assumes adopt_nothing: "threadIDFromMeta m = Inl errNoMeta \<Longrightarrow> adopt m b = b"
    and latched_adopt: "latched b \<Longrightarrow> latched (adopt m b)"
    and goal_adopt: "latched b \<Longrightarrow> usable (adopt m b) \<Longrightarrow> usable b \<and> goal (adopt m b) = goal b"
begin

definition adopts :: "meta list \<Rightarrow> 'b \<Rightarrow> 'b" where
  "adopts ms b = foldl (\<lambda>b m. adopt m b) b ms"

lemma adopts_Cons [simp]: "adopts (m # ms) b = adopts ms (adopt m b)" "adopts [] b = b"
  by (simp_all add: adopts_def)

lemma never_retargets:
  "latched b \<Longrightarrow> usable (adopts ms b) \<Longrightarrow> usable b \<and> goal (adopts ms b) = goal b"
proof (induction ms arbitrary: b)
  case (Cons m ms)
  then show ?case using latched_adopt [of b m] goal_adopt [of b m] Cons.IH [of "adopt m b"] by simp
qed simp

lemma adopts_nothing: "\<forall>m\<in>set ms. threadIDFromMeta m = Inl errNoMeta \<Longrightarrow> adopts ms b = b"
  by (induction ms) (simp_all add: adopt_nothing)

end

end
