(* ===== verification/Inbox.thy ===== *)
theory Inbox
  imports Server
begin

text \<open>
  An inbox and its traces on the host, from \<open>udsmsg/server.go\<close>: \<open>Listen\<close> with \<open>allocSocketPath\<close>,
  and \<open>Close\<close>.
\<close>

subsection \<open>The listener\<close>

text \<open>
  \<open>net.ListenUnix\<close>: the address must fit \<open>sun_path\<close> and the name must be free; the socket
  appears in the file system. Closing the listener unlinks it.
\<close>

definition net_listen :: "host \<Rightarrow> gostring \<Rightarrow> os_error + host" where
  "net_listen h p =
     (if h_fault h SysBind p \<or> maxSocketPath < length p \<or> h_fs h p \<noteq> None then Inl EFault
      else Inr (h\<lparr>h_fs := (h_fs h)(p \<mapsto>
        \<lparr>n_kind = KSocket, n_perm = 493, n_uid = word_of_int (h_uid h), n_data = []\<rparr>)\<rparr>))"

definition unlink :: "host \<Rightarrow> gostring \<Rightarrow> host" where
  "unlink h p = (case os_remove h p of Inl _ \<Rightarrow> h | Inr h' \<Rightarrow> h')"

subsection \<open>Binding\<close>

datatype listen_error =
    NoUsableDir
  | SocketDir dir_error
  | BindFailed os_error
  | ChmodFailed os_error
  | PublishFailed key_error

fun alloc_existing :: "host \<Rightarrow> gostring \<Rightarrow> gostring list \<Rightarrow> gostring option" where
  "alloc_existing h name [] = None"
| "alloc_existing h name (dir # dirs) =
     (if checkDir h dir = None then Some (path_join [dir, name]) else alloc_existing h name dirs)"

fun alloc_create :: "host \<Rightarrow> gostring \<Rightarrow> gostring list \<Rightarrow> gostring option \<times> host" where
  "alloc_create h name [] = (None, h)"
| "alloc_create h name (dir # dirs) =
     (case os_mkdirAll h dir mode_0700 of
        Inl _ \<Rightarrow> alloc_create h name dirs
      | Inr h1 \<Rightarrow>
          (case os_chmod h1 dir mode_0700 of
             Inl _ \<Rightarrow> alloc_create h1 name dirs
           | Inr h2 \<Rightarrow>
               if checkDir h2 dir = None then (Some (path_join [dir, name]), h2)
               else alloc_create h2 name dirs))"

definition allocSocketPath :: "bytes \<Rightarrow> host \<Rightarrow> (listen_error + gostring) \<times> host" where
  "allocSocketPath disc h =
     (let name = alloc_name (h_pid h) disc; dirs = socketDirs h in
      case alloc_existing h name dirs of
        Some p \<Rightarrow> (Inr p, h)
      | None \<Rightarrow>
          (case alloc_create h name dirs of
             (Some p, h') \<Rightarrow> (Inr p, h')
           | (None, h') \<Rightarrow> (Inl NoUsableDir, h')))"

definition Close :: "Server \<Rightarrow> host \<Rightarrow> Server \<times> host" where
  "Close s h =
     (if closed s then (s, h)
      else let h1 = unlink (unlink h (path s)) (path s);
               h2 = (if PublishKey (cfg s) then snd (removeKey h1 (h_pid h1) (path s)) else h1)
           in (s\<lparr>closed := True, listening := False\<rparr>, h2))"

text \<open>The random bytes of the socket name, of the token and of the temporary key file.\<close>

record entropy =
  r_disc :: bytes
  r_token :: bytes
  r_tmp :: bytes

definition choose_path :: "entropy \<Rightarrow> Config \<Rightarrow> host \<Rightarrow> (listen_error + gostring) \<times> host" where
  "choose_path rnd c h =
     (if Path c = [] then allocSocketPath (r_disc rnd) h
      else case checkDir h (path_dir (Path c)) of
             Some e \<Rightarrow> (Inl (SocketDir e), h)
           | None \<Rightarrow> (Inr (Path c), h))"

definition inbox_key :: "Server \<Rightarrow> host \<Rightarrow> Key" where
  "inbox_key s h = \<lparr>PeerToken = token s,
     KeyProcStart = (case ProcStart h (h_pid h) of Inl _ \<Rightarrow> [] | Inr ps \<Rightarrow> ps),
     PIDDomain = (case pidDomain h (h_pid h) of Inl _ \<Rightarrow> [] | Inr pd \<Rightarrow> pd)\<rparr>"

definition Listen :: "entropy \<Rightarrow> Config \<Rightarrow> host \<Rightarrow> (listen_error + Server) \<times> host" where
  "Listen rnd c h =
     (case choose_path rnd c h of
        (Inl e, h0) \<Rightarrow> (Inl e, h0)
      | (Inr p, h0) \<Rightarrow>
          let h1 = (case os_stat h0 p of
                      Inr fi \<Rightarrow> if n_kind fi = KSocket then unlink h0 p else h0
                    | Inl _ \<Rightarrow> h0)
          in case net_listen h1 p of
               Inl e \<Rightarrow> (Inl (BindFailed e), h1)
             | Inr h2 \<Rightarrow>
                 (case os_chmod h2 p 384 of
                    Inl e \<Rightarrow> (Inl (ChmodFailed e), unlink h2 p)
                  | Inr h3 \<Rightarrow>
                      let s = \<lparr>cfg = c, path = p,
                               smode = (if ModeSource c \<noteq> ModeSourceNone
                                        then (case DetectParentMode h3 of Inl _ \<Rightarrow> [] | Inr m \<Rightarrow> m)
                                        else []),
                               token = newToken (r_token rnd), listening = True, closed = False\<rparr>
                      in if PublishKey c then
                           (case writeKey (r_tmp rnd) h3 (h_pid h3) p (inbox_key s h3) of
                              (Some e, hs) \<Rightarrow> (Inl (PublishFailed e), snd (Close s (last hs)))
                            | (None, hs) \<Rightarrow> (Inr s, last hs))
                         else (Inr s, h3)))"

definition ServerAddr :: "Server \<Rightarrow> gostring" where
  "ServerAddr s = udsAddress (path s)"

definition PeerToken_of :: "Server \<Rightarrow> gostring" where
  "PeerToken_of s = token s"

subsection \<open>What closing leaves\<close>

lemma unlink_same: "same_host h (unlink h p)"
  by (auto simp: unlink_def split: sum.splits intro: same_host_ops(3))

lemma unlink_gone: "\<not> h_fault h SysRemove p \<Longrightarrow> h_fs (unlink h p) p = None"
  by (auto simp: unlink_def os_remove_def split: sum.splits option.splits if_splits)

lemma unlink_other: "q \<noteq> p \<Longrightarrow> h_fs (unlink h p) q = h_fs h q"
  by (auto simp: unlink_def os_remove_def split: sum.splits option.splits if_splits)

lemma Close_twice: "Close (fst (Close s h)) h' = (fst (Close s h), h')"
  by (simp add: Close_def Let_def)

text \<open>
  \<open>Close\<close> removes the key after it has unlinked the socket, so it looks for the key under the
  name of the lexical path, whatever name the key was published under.
\<close>

lemma Close_removes_key:
  assumes "\<not> closed s" "Close s h = (s', h')" "PublishKey (cfg s)" "\<And>p. \<not> h_fault h SysRemove p"
    and "key_name_of h (h_pid h) (Clean (path s)) = Inr lexical"
  obtains h1 where "same_host h h1" "h_fs h1 = (h_fs h)(path s := None)"
    "keyFileName h1 (h_pid h) (path s) = Inr lexical" "removeKey h1 (h_pid h) (path s) = (None, h')"
    "h_fs h' = (h_fs h)(path s := None, path_join [sessionsDir h, lexical] := None)"
proof -
  let ?h1 = "unlink (unlink h (path s)) (path s)"
  have s1: "same_host h ?h1" using unlink_same same_host_trans by metis
  have g: "h_fs ?h1 (path s) = None" using unlink_gone same_hostD(10) [OF unlink_same] assms(4) by metis
  have f: "h_fs ?h1 = (h_fs h)(path s := None)" using g unlink_other by (intro ext) (metis fun_upd_apply)
  have kn: "keyFileName ?h1 (h_pid h) (path s) = Inr lexical"
    using assms(5) by (simp add: keyFileName_gone [OF g] key_name_of_cong [OF s1])
  have "h' = snd (removeKey ?h1 (h_pid h) (path s))"
    using assms(1-3) same_hostD(3) [OF s1] by (auto simp: Close_def Let_def)
  moreover have "fst (removeKey ?h1 (h_pid h) (path s)) = None"
    using assms(4) kn same_hostD(10) [OF s1]
    by (auto simp: removeKey_def os_remove_def split: sum.splits option.splits os_error.splits)
  ultimately have rk: "removeKey ?h1 (h_pid h) (path s) = (None, h')" by (metis prod.collapse)
  have "h_fs h' = (h_fs ?h1)(path_join [sessionsDir ?h1, lexical] := None)"
    using removeKey_gone [OF rk kn] removeKey_other [OF rk kn] by (intro ext) (metis fun_upd_apply)
  then show thesis using that [OF s1 f kn rk] f sessionsDir_cong [OF s1] by simp
qed

text \<open>
  (C29) What closing an inbox takes away: after \<open>Close\<close> of an open server on a host that lets it
  remove files, the socket is gone, a peer that looks for its key finds none, the server is marked
  closed, and closing it again changes neither the server nor the host. No other file changes but
  the key file under the lexical path of the socket. So the key file that was published (under
  \<open>name\<close>, the name the code computes while the socket is there) is removed exactly when the two
  names agree, as they do where no symbolic link leads to the socket; otherwise it stays.
\<close>

theorem close_removes_inbox:
  assumes "\<not> closed s" "Close s h = (s', h')" "\<And>p. \<not> h_fault h SysRemove p" "\<And>p. \<not> h_fault h SysStat p"
    and "keyFileName h (h_pid h) (path s) = Inr name" "path_join [sessionsDir h, name] \<noteq> path s"
    and "key_name_of h (h_pid h) (Clean (path s)) = Inr lexical"
  shows "h_fs h' (path s) = None \<and> closed s' \<and> \<not> listening s' \<and> Close s' h'' = (s', h'')
    \<and> (PublishKey (cfg s) \<longrightarrow> ReadKey h' (h_pid h') (path s) = Inr None
        \<and> h_fs h' (path_join [sessionsDir h, name]) =
            (if name = lexical then None else h_fs h (path_join [sessionsDir h, name])))
    \<and> (h_real h (path s) \<in> {None, Some (Clean (path s))} \<longrightarrow> name = lexical)
    \<and> (\<forall>q. q \<noteq> path s \<longrightarrow> q \<noteq> path_join [sessionsDir h, lexical] \<longrightarrow> h_fs h' q = h_fs h q)"
proof -
  have pb: "path_join [sessionsDir h, name] = path_join [sessionsDir h, lexical] \<longleftrightarrow> name = lexical"
    using path_base_path_join keyFileName_plain(1) [OF assms(5)] key_name_of_plain [OF assms(7)] by metis
  have nl: "h_real h (path s) \<in> {None, Some (Clean (path s))} \<longrightarrow> name = lexical"
    using assms(5,7) by (auto simp: keyFileName_def evalSymlinks_def split: option.splits)
  have cl: "closed s'" "\<not> listening s'" "Close s' h'' = (s', h'')"
    using assms(1,2) by (auto simp: Close_def Let_def)
  show ?thesis
  proof (cases "PublishKey (cfg s)")
    case True
    obtain h1 where h1: "same_host h h1" "h_fs h1 = (h_fs h)(path s := None)"
      "keyFileName h1 (h_pid h) (path s) = Inr lexical" "removeKey h1 (h_pid h) (path s) = (None, h')"
      "h_fs h' = (h_fs h)(path s := None, path_join [sessionsDir h, lexical] := None)"
      by (rule Close_removes_key [OF assms(1,2) True assms(3,7)])
    have "h_pid h' = h_pid h" using same_hostD(3) [OF h1(1)] same_hostD(3) [OF removeKey_same [OF h1(4)]] by simp
    then have "ReadKey h' (h_pid h') (path s) = Inr None"
      using removed_key_reads_none [OF h1(4,3)] h1(2) assms(4) same_hostD(10) [OF h1(1)] by simp
    then show ?thesis using cl nl h1(5) assms(6) pb by simp
  next
    case False
    let ?h1 = "unlink (unlink h (path s)) (path s)"
    have "h' = ?h1" using assms(1,2) False by (auto simp: Close_def Let_def)
    moreover have "h_fs ?h1 (path s) = None" using unlink_gone same_hostD(10) [OF unlink_same] assms(3) by metis
    ultimately show ?thesis using cl nl False unlink_other by simp
  qed
qed

subsection \<open>What binding leaves\<close>

lemma alloc_existing_Some:
  "alloc_existing h name dirs = Some p \<Longrightarrow> \<exists>dir\<in>set dirs. p = path_join [dir, name] \<and> checkDir h dir = None"
  by (induction h name dirs rule: alloc_existing.induct) (auto split: if_splits)

lemma alloc_create_spec:
  "alloc_create h name dirs = (r, h') \<Longrightarrow> same_host h h' \<and> (\<forall>q. q \<notin> set dirs \<longrightarrow> h_fs h' q = h_fs h q) \<and>
     (\<forall>p. r = Some p \<longrightarrow> (\<exists>dir\<in>set dirs. p = path_join [dir, name] \<and> checkDir h' dir = None))"
proof (induction h name dirs arbitrary: r h' rule: alloc_create.induct)
  case (2 h name dir dirs)
  show ?case
  proof (cases "os_mkdirAll h dir mode_0700")
    case (Inl e)
    then show ?thesis using 2(1) [OF Inl] 2(4) by auto
  next
    case (Inr h1)
    note s1 = same_host_ops(4) [OF Inr]
    have o1: "h_fs h1 q = h_fs h q" if "q \<noteq> dir" for q by (rule mkdirAll_other [OF Inr that])
    show ?thesis
    proof (cases "os_chmod h1 dir mode_0700")
      case (Inl e)
      then show ?thesis using 2(2) [OF Inr Inl] 2(4) Inr s1 o1 by (auto intro: same_host_trans)
    next
      case inr2: (Inr h2)
      note s2 = same_host_trans [OF s1 same_host_ops(5) [OF inr2]]
      have o2: "h_fs h2 q = h_fs h q" if "q \<noteq> dir" for q
        using o1 [OF that] inr2 that by (auto simp: os_chmod_def split: if_splits option.splits)
      show ?thesis
        using 2(3) [OF Inr inr2] 2(4) Inr inr2 s2 o2
        by (cases "checkDir h2 dir = None") (auto intro: same_host_trans)
    qed
  qed
qed simp

lemma allocSocketPath_spec:
  assumes "allocSocketPath disc h = (Inr p, h')"
  shows "same_host h h' \<and> (\<forall>q. q \<notin> set (socketDirs h) \<longrightarrow> h_fs h' q = h_fs h q) \<and>
    (\<exists>dir\<in>set (socketDirs h). p = path_join [dir, alloc_name (h_pid h) disc] \<and> checkDir h' dir = None)"
  using assms alloc_existing_Some alloc_create_spec
  by (auto simp: allocSocketPath_def Let_def split: option.splits prod.splits)

lemma alloc_name_plain: "plain_name (alloc_name pid disc)"
  using itoa_no_slash [of pid] hexEncode_no_slash [of disc]
  by (auto simp: alloc_name_def intro!: plain_nameI)

text \<open>The socket of an allocated inbox is none of the files of its key.\<close>

lemma socket_not_key:
  assumes "keyFileName h pid q = Inr name"
  shows "path_join [dir, alloc_name n disc] \<noteq> key_tmp h name sfx"
    "path_join [dir, alloc_name n disc] \<noteq> path_join [sessionsDir h, name]"
    "path_join [dir, alloc_name n disc] \<noteq> sessionsDir h"
proof -
  have a: "path_base (path_join [dir, alloc_name n disc]) = alloc_name n disc"
    by (rule path_base_path_join [OF alloc_name_plain])
  have k: "last (alloc_name n disc) = CHR ''k''" by (simp add: alloc_name_def)
  have t: "path_base (key_tmp h name sfx) = name @ ''.tmp.'' @ hexEncode sfx"
    unfolding key_tmp_def by (rule path_base_path_join [OF keyFileName_plain(2) [OF assms]])
  have f: "path_base (path_join [sessionsDir h, name]) = name"
    by (rule path_base_path_join [OF keyFileName_plain(1) [OF assms]])
  have "last (name @ ''.tmp.'' @ hexEncode sfx) \<noteq> CHR ''k''"
  proof (cases "hexEncode sfx = []")
    case False
    then have "is_hex (last (hexEncode sfx))" using hexEncode_hex [of sfx] by (simp add: list_all_iff)
    then show ?thesis using False by (auto simp: is_hex_def)
  qed simp
  then show "path_join [dir, alloc_name n disc] \<noteq> key_tmp h name sfx" using a k t by metis
  show "path_join [dir, alloc_name n disc] \<noteq> path_join [sessionsDir h, name]"
    using a k f key_name_shape [OF assms] by auto
  have "last ''sessions'' \<noteq> CHR ''k''" by simp
  then show "path_join [dir, alloc_name n disc] \<noteq> sessionsDir h" using a k sessionsDir_base [of h] by metis
qed

lemma Listen_bound:
  assumes "Listen rnd c h = (Inr s, h')"
  obtains h0 h3 where "choose_path rnd c h = (Inr (path s), h0)" "same_host h0 h3"
    "\<And>q. q \<noteq> path s \<Longrightarrow> h_fs h3 q = h_fs h0 q"
    "\<exists>n. h_fs h3 (path s) = Some n \<and> n_kind n = KSocket \<and> n_perm n = 384"
    "length (path s) \<le> maxSocketPath"
    "cfg s = c" "token s = newToken (r_token rnd)" "listening s" "\<not> closed s"
    "if PublishKey c then \<exists>hs. writeKey (r_tmp rnd) h3 (h_pid h3) (path s) (inbox_key s h3) = (None, hs) \<and> h' = last hs
     else h' = h3"
proof -
  obtain p h0 where cp: "choose_path rnd c h = (Inr p, h0)"
    using assms by (auto simp: Listen_def split: prod.splits sum.splits)
  define h1 where "h1 = (case os_stat h0 p of Inr fi \<Rightarrow> if n_kind fi = KSocket then unlink h0 p else h0 | Inl _ \<Rightarrow> h0)"
  have s1: "same_host h0 h1" using unlink_same by (auto simp: h1_def split: sum.splits)
  obtain h2 where l: "net_listen h1 p = Inr h2"
    using assms by (auto simp: Listen_def cp h1_def [symmetric] Let_def split: sum.splits)
  obtain h3 where m: "os_chmod h2 p 384 = Inr h3"
    using assms by (auto simp: Listen_def cp h1_def [symmetric] Let_def l split: sum.splits)
  have s2: "same_host h1 h2" using l by (auto simp: net_listen_def same_host_def split: if_splits)
  have s3: "same_host h0 h3" using s1 s2 same_host_ops(5) [OF m] same_host_trans by metis
  have k: "\<exists>n. h_fs h3 p = Some n \<and> n_kind n = KSocket \<and> n_perm n = 384" "length p \<le> maxSocketPath"
    using l m by (auto simp: net_listen_def os_chmod_def split: if_splits)
  have r: "path s = p" "cfg s = c" "token s = newToken (r_token rnd)" "listening s" "\<not> closed s"
    "if PublishKey c then \<exists>hs. writeKey (r_tmp rnd) h3 (h_pid h3) p (inbox_key s h3) = (None, hs) \<and> h' = last hs
     else h' = h3"
    using assms by (auto simp: Listen_def cp h1_def [symmetric] Let_def l m split: prod.splits option.splits if_splits)
  have "h_fs h1 q = h_fs h0 q" if "q \<noteq> p" for q
    using unlink_other [OF that] by (auto simp: h1_def split: sum.splits)
  then have "h_fs h3 q = h_fs h0 q" if "q \<noteq> p" for q
    using that l m by (auto simp: net_listen_def os_chmod_def split: if_splits option.splits)
  then show thesis using that [of h0 h3] cp s3 k r by simp
qed

lemma socketDirs_base: "dir \<in> set (socketDirs h) \<Longrightarrow> CHR ''.'' \<notin> set (path_base dir)"
proof -
  have j: "path_base (path_join [d, ''cc-socks'']) = ''cc-socks''" for d
    by (rule path_base_path_join) (simp add: plain_name_def)
  have i: "CHR ''.'' \<notin> set (itoa n)" for n
    using digits_no_punct(1) [OF nat_dec_digits] by (simp add: itoa_def)
  have b: "path_base (d @ ''/cc-socks'') = ''cc-socks''" for d
    using path_base_join [of "''cc-socks''" d] by simp
  have u: "path_base (d @ ''/cc-socks-'' @ itoa n) = ''cc-socks-'' @ itoa n" for d n
    using path_base_join [of "''cc-socks-'' @ itoa n" d] itoa_no_slash by simp
  assume "dir \<in> set (socketDirs h)"
  then have "(\<exists>d. dir = path_join [d, ''cc-socks'']) \<or> (\<exists>d. dir = d @ ''/cc-socks'')
      \<or> (\<exists>d. dir = d @ ''/cc-socks-'' @ itoa (h_uid h))"
    unfolding socketDirs_def dedup_def Let_def dedup_from_set
    using exI [of "\<lambda>d. ''/run/user/'' @ itoa (h_uid h) @ ''/cc-socks'' = d @ ''/cc-socks''" "''/run/user/'' @ itoa (h_uid h)"]
    by (auto split: if_splits)
  then show ?thesis using j b u i by fastforce
qed

lemma key_tmp_not_socketDir:
  assumes "keyFileName h0 pid p = Inr name"
  shows "key_tmp h name sfx \<notin> set (socketDirs h)"
proof
  assume "key_tmp h name sfx \<in> set (socketDirs h)"
  from socketDirs_base [OF this] show False
    using path_base_path_join [OF keyFileName_plain(2) [OF assms]] by (simp add: key_tmp_def)
qed

lemma token_valid: "toValid (newToken b) = newToken b"
  using hexEncode_hex [of b] unfolding newToken_def
  by (intro toValid_ascii) (auto simp: list_all_iff is_hex_def)

text \<open>
  (C28) An inbox that chooses its own path is bound as promised: the path lies in a standard
  directory that passed the privacy check, fits a socket address, and names this process; the
  socket is mode 0600; and when the key is published, a peer that looks it up for this pid and
  path reads exactly the token the inbox accepts. (\<open>name\<close> is the name of the key file while the
  socket is bound; the temporary file beside it does not exist beforehand.)
\<close>

theorem listen_binds_private_inbox:
  assumes "Listen rnd c h = (Inr s, h')" "Path c = []" "0 \<le> h_pid h" "h_pid h < 2 ^ 63"
    and "length (r_disc rnd) = 4" "\<And>q. \<not> h_fault h SysStat q" "\<And>q. \<not> h_fault h SysRead q"
    and "keyFileName h' (h_pid h) (path s) = Inr name" "h_fs h (key_tmp h name (r_tmp rnd)) = None"
  shows "(\<exists>dir\<in>set (socketDirs h). path s = path_join [dir, alloc_name (h_pid h) (r_disc rnd)]
        \<and> checkDir (snd (choose_path rnd c h)) dir = None)
    \<and> length (path s) \<le> maxSocketPath \<and> PIDFromSocketName (path_base (path s)) = Some (h_pid h)
    \<and> (\<exists>n. h_fs h' (path s) = Some n \<and> n_kind n = KSocket \<and> n_perm n = 384)
    \<and> (PublishKey c \<longrightarrow> (\<exists>k. ReadKey h' (h_pid h) (path s) = Inr (Some k) \<and> PeerToken k = token s))"
proof -
  obtain h0 h3 where cp: "choose_path rnd c h = (Inr (path s), h0)" and s3: "same_host h0 h3"
    and o3: "\<And>q. q \<noteq> path s \<Longrightarrow> h_fs h3 q = h_fs h0 q"
    and k: "\<exists>n. h_fs h3 (path s) = Some n \<and> n_kind n = KSocket \<and> n_perm n = 384" "length (path s) \<le> maxSocketPath"
    and t: "token s = newToken (r_token rnd)"
    and w: "if PublishKey c then \<exists>hs. writeKey (r_tmp rnd) h3 (h_pid h3) (path s) (inbox_key s h3) = (None, hs)
        \<and> h' = last hs else h' = h3"
    using Listen_bound [OF assms(1)] by metis
  have al: "allocSocketPath (r_disc rnd) h = (Inr (path s), h0)" using cp assms(2) by (simp add: choose_path_def)
  note al = allocSocketPath_spec [OF al]
  then have s0: "same_host h h3" and o0: "\<And>q. q \<notin> set (socketDirs h) \<Longrightarrow> h_fs h0 q = h_fs h q"
    using s3 same_host_trans by blast+
  obtain dir where d: "dir \<in> set (socketDirs h)" "path s = path_join [dir, alloc_name (h_pid h) (r_disc rnd)]"
      "checkDir h0 dir = None" using al by blast
  have pid: "h_pid h3 = h_pid h" by (rule same_hostD(3) [OF s0])
  have pub: "h_fs h' (path s) = h_fs h3 (path s)
      \<and> ReadKey h' (h_pid h) (path s) = Inr (Some (norm_Key (inbox_key s h3)))" if pk: "PublishKey c"
  proof -
    obtain hs where wk: "writeKey (r_tmp rnd) h3 (h_pid h3) (path s) (inbox_key s h3) = (None, hs)" "h' = last hs"
      using w pk by auto
    obtain name3 where n3: "keyFileName h3 (h_pid h3) (path s) = Inr name3"
      using wk(1) by (auto simp: writeKey_def split: sum.splits)
    note ne = socket_not_key [OF n3, of dir "h_pid h" "r_disc rnd", folded d(2)]
    have hs: "hs \<noteq> []" using wk(1) by (auto simp: writeKey_def Let_def split: sum.splits if_splits prod.splits)
    then have same: "h_fs h' (path s) = h_fs h3 (path s)" "same_host h3 h'"
      using writeKey_other [OF n3 wk(1) _ ne] wk(2) by auto
    have "keyFileName h' (h_pid h) (path s) = keyFileName h3 (h_pid h) (path s)"
      using same by (intro keyFileName_cong) simp_all
    then have kn: "keyFileName h3 (h_pid h3) (path s) = Inr name" using assms(8) pid by simp
    have t3: "key_tmp h3 name (r_tmp rnd) = key_tmp h name (r_tmp rnd)"
      by (simp add: key_tmp_def sessionsDir_cong [OF s0])
    have "key_tmp h name (r_tmp rnd) \<notin> set (socketDirs h)" by (rule key_tmp_not_socketDir [OF assms(8)])
    then have free: "h_fs h3 (key_tmp h3 name (r_tmp rnd)) = None"
      using o3 o0 socket_not_key(1) [OF kn, of dir "h_pid h" "r_disc rnd" "r_tmp rnd", folded d(2)] t3 assms(9) by metis
    have nf: "\<not> h_fault h3 SysStat q" "\<not> h_fault h3 SysRead q" for q
      using assms(6,7) same_hostD(10) [OF s0] by simp_all
    have "ReadKey h' (h_pid h3) (path s) = Inr (Some (norm_Key (inbox_key s h3)))"
      unfolding wk(2) by (rule writeKey_reads_back [OF kn wk(1) free nf]) (use k(1) in simp_all)
    then show ?thesis using same(1) pid by simp
  qed
  have "PeerToken (norm_Key (inbox_key s h3)) = token s" using t token_valid by (simp add: norm_Key_def inbox_key_def)
  moreover have "PIDFromSocketName (path_base (path s)) = Some (h_pid h)"
    using pid_of_alloc_name [OF assms(3-5)] path_base_path_join [OF alloc_name_plain] by (simp add: d(2))
  moreover have "h_fs h' (path s) = h_fs h3 (path s)" using pub w by (cases "PublishKey c") auto
  ultimately show ?thesis using d k pub cp by auto
qed

subsection \<open>A concrete inbox\<close>

definition sample_rnd :: entropy where
  "sample_rnd = \<lparr>r_disc = [0, 0, 0, 0], r_token = [1], r_tmp = [2]\<rparr>"

definition dir_host :: host where
  "dir_host = inbox_host\<lparr>h_fs := [inbox_dir \<mapsto> \<lparr>n_kind = KDir, n_perm = mode_0700, n_uid = 1000, n_data = []\<rparr>]\<rparr>"

definition sample_path :: gostring where
  "sample_path = path_join [inbox_dir, alloc_name 7 [0, 0, 0, 0]]"

lemma sample_path_eq: "sample_path = ''/r/cc-socks/7-00000000.sock''"
  unfolding sample_path_def inbox_dir_def by code_simp

lemma inbox_dir_eq: "inbox_dir = ''/r/cc-socks''"
  unfolding inbox_dir_def by code_simp

lemma dir_host_socketDirs: "\<exists>ds. socketDirs dir_host = inbox_dir # ds"
proof -
  have "hd (socketDirs dir_host) = inbox_dir"
    by (simp add: socketDirs_def dedup_def Let_def getenv_def dir_host_def inbox_host_def inbox_dir_def)
  then show ?thesis using socketDirs_nonempty [of dir_host] by (cases "socketDirs dir_host") auto
qed

lemma dir_host_path: "choose_path sample_rnd (cfg sample_server) dir_host = (Inr sample_path, dir_host)"
proof -
  obtain ds where ds: "socketDirs dir_host = inbox_dir # ds" using dir_host_socketDirs by blast
  have c: "checkDir dir_host inbox_dir = None"
    by (simp add: checkDir_None os_stat_def dir_host_def inbox_host_def idle_host_def)
  have pid: "h_pid dir_host = 7" by (simp add: dir_host_def inbox_host_def idle_host_def)
  show ?thesis
    by (simp add: choose_path_def sample_server_def allocSocketPath_def Let_def ds c pid
        sample_path_def sample_rnd_def)
qed

definition bound_host :: host where
  "bound_host = dir_host\<lparr>h_fs := (h_fs dir_host)(sample_path \<mapsto>
     \<lparr>n_kind = KSocket, n_perm = 384, n_uid = word_of_int (h_uid dir_host), n_data = []\<rparr>)\<rparr>"

lemma Listen_sample:
  "Listen sample_rnd (cfg sample_server) dir_host =
     (Inr (sample_server\<lparr>path := sample_path, token := newToken [1]\<rparr>), bound_host)"
proof -
  have ne: "sample_path \<noteq> inbox_dir" by (simp add: sample_path_eq inbox_dir_eq)
  have st: "os_stat dir_host sample_path = Inl ENOENT"
    using ne by (simp add: os_stat_def dir_host_def inbox_host_def idle_host_def)
  obtain h2 where l: "net_listen dir_host sample_path = Inr h2" "os_chmod h2 sample_path 384 = Inr bound_host"
    using ne
    by (auto simp: net_listen_def os_chmod_def dir_host_def inbox_host_def idle_host_def bound_host_def
        maxSocketPath_def sample_path_eq)
  show ?thesis
    by (simp add: Listen_def dir_host_path st l) (simp add: sample_server_def sample_rnd_def)
qed

theorem listen_binds_private_inbox_witness:
  "\<exists>s h'. Listen sample_rnd (cfg sample_server) dir_host = (Inr s, h')
     \<and> length (path s) \<le> maxSocketPath \<and> PIDFromSocketName (path_base (path s)) = Some 7
     \<and> (\<exists>n. h_fs h' (path s) = Some n \<and> n_kind n = KSocket \<and> n_perm n = 384)"
proof -
  let ?s = "sample_server\<lparr>path := sample_path, token := newToken [1]\<rparr>"
  have h: "h_pid dir_host = 7" "\<not> h_fault dir_host sc q" for sc q
    by (simp_all add: dir_host_def inbox_host_def idle_host_def)
  obtain name where n: "keyFileName bound_host 7 sample_path = Inr name"
    using keyFileName_total [of bound_host "''/''"] by (auto simp: bound_host_def dir_host_def inbox_host_def idle_host_def)
  have "key_tmp dir_host name [2] \<noteq> inbox_dir"
    using key_tmp_not_socketDir [OF n, of dir_host "[2]"] dir_host_socketDirs by auto
  then have "h_fs dir_host (key_tmp dir_host name [2]) = None" by (simp add: dir_host_def)
  with listen_binds_private_inbox [OF Listen_sample, of name] Listen_sample h n show ?thesis
    by (simp add: sample_server_def sample_rnd_def)
qed

text \<open>
  An inbox whose directory is reached through a symbolic link: the key it published outlives it.
\<close>

definition linked_server :: Server where
  "linked_server = sample_server\<lparr>cfg := (cfg sample_server)\<lparr>PublishKey := True\<rparr>, path := ''/l/7.sock''\<rparr>"

lemma sha_of_link: "sha256_Sum256 (bytes_of ''/r/7.sock'') \<noteq> sha256_Sum256 (bytes_of ''/l/7.sock'')"
  unfolding sha256_Sum256_def by code_simp

lemma Clean_link: "Clean ''/l/7.sock'' = ''/l/7.sock''" "Clean ''/r/7.sock'' = ''/r/7.sock''"
  by code_simp+

theorem close_removes_inbox_witness:
  "\<exists>h name s' h'. keyFileName h (h_pid h) ''/l/7.sock'' = Inr name
     \<and> h_fs h (path_join [sessionsDir h, name]) = Some (key_node linked_host linked_key)
     \<and> Close linked_server h = (s', h') \<and> h_fs h' ''/l/7.sock'' = None \<and> closed s'
     \<and> ReadKey h' (h_pid h') ''/l/7.sock'' = Inr None
     \<and> h_fs h' (path_join [sessionsDir h, name]) = Some (key_node linked_host linked_key)"
proof -
  have cwd: "h_cwd linked_host = Some ''/''" "h_pid linked_host = 7" "h_fs linked_host ''/l/7.sock'' \<noteq> None"
    by (simp_all add: linked_host_def idle_host_def)
  obtain name where n: "keyFileName linked_host 7 ''/l/7.sock'' = Inr name"
    using keyFileName_total [OF cwd(1), of 7 "''/l/7.sock''"] by (elim exE)
  obtain lexical where l: "key_name_of linked_host 7 (Clean ''/l/7.sock'') = Inr lexical"
    using key_name_of_total [OF cwd(1), of 7 "Clean ''/l/7.sock''"] by (elim exE)
  have ne: "name \<noteq> lexical"
    using n l sha_of_link
    by (auto simp: keyFileName_def key_name_of_def path_abs_def evalSymlinks_def linked_host_def Clean_link)
  note free = linked_host_free [OF n]
  obtain hs where w: "writeKey [1] linked_host 7 ''/l/7.sock'' linked_key = (None, hs)"
    using linked_key_published [OF n] by blast
  let ?h = "last hs"
  note e = writeKey_effect [OF n w free(2)]
  have s: "same_host linked_host ?h" using e(1,2) by simp
  have there: "h_fs ?h ''/l/7.sock'' \<noteq> None"
    using writeKey_keeps [OF n w free(2), of "''/l/7.sock''"] cwd(3) by simp
  have pid: "h_pid ?h = 7" using same_hostD(3) [OF s] cwd(2) by simp
  have kn: "keyFileName ?h (h_pid ?h) (path linked_server) = Inr name"
    using n keyFileName_cong [OF s, of "''/l/7.sock''"] there cwd(3) pid by (simp add: linked_server_def)
  have kl: "key_name_of ?h (h_pid ?h) (Clean (path linked_server)) = Inr lexical"
    using l key_name_of_cong [OF s] pid by (simp add: linked_server_def)
  have nf: "\<not> h_fault ?h c q" for c q using free(4) same_hostD(10) [OF s] by simp
  have pub: "h_fs ?h (path_join [sessionsDir ?h, name]) = Some (key_node linked_host linked_key)"
    using e(4) by (simp add: sessionsDir_cong [OF s])
  have np: "path_join [sessionsDir ?h, name] \<noteq> path linked_server"
    using free(3) cwd(3) sessionsDir_cong [OF s] by (auto simp: linked_server_def)
  have o: "\<not> closed linked_server" "PublishKey (cfg linked_server)" by (simp_all add: linked_server_def sample_server_def)
  obtain s' h' where c: "Close linked_server ?h = (s', h')" by force
  from close_removes_inbox [OF o(1) c nf nf kn np kl] o(2) ne pub c kn show ?thesis
    by (intro exI [of _ ?h] exI [of _ name] exI [of _ s'] exI [of _ h']) (simp add: linked_server_def)
qed

end
