(* ===== verification/Client.thy ===== *)
theory Client
  imports Inbox
begin

text \<open>
  \<open>udsmsg/client.go\<close>: the sending side. A client carries the bytes it has written, in order,
  and the kernel's answer to each of its writes.
\<close>

record Client =
  target :: Target
  out :: gostring                \<comment> \<open>what has been written\<close>
  copen :: bool
  writes :: nat                  \<comment> \<open>how many writes were made\<close>
  wfail :: "nat \<Rightarrow> bool"          \<comment> \<open>the kernel refuses the n-th write\<close>

datatype send_error = Unencodable frame_error | WriteFailed

datatype dial_error =
    StaleProcess
  | NoTokenGiven
  | ConnectFailed
  | AuthNotSent send_error

definition Send :: "Client \<Rightarrow> Frame \<Rightarrow> send_error option \<times> Client" where
  "Send c f =
     (case encodeFrame f of
        Inl e \<Rightarrow> (Some (Unencodable e), c)
      | Inr line \<Rightarrow>
          if wfail c (writes c) then (Some WriteFailed, c\<lparr>writes := writes c + 1\<rparr>)
          else (None, c\<lparr>out := out c @ line, writes := writes c + 1\<rparr>))"

definition auth_frame :: "gostring \<Rightarrow> Frame" where
  "auth_frame tok = zero_Frame\<lparr>Type := TypeAuth, Token := tok\<rparr>"

definition Dial :: "host \<Rightarrow> (nat \<Rightarrow> bool) \<Rightarrow> Target \<Rightarrow> dial_error + Client" where
  "Dial h fails t =
     (if TPID t \<noteq> 0 \<and> TProcStart t \<noteq> [] \<and> \<not> Alive h (TPID t) (TProcStart t) then Inl StaleProcess
      else if TToken t = [] \<and> \<not> Unauthenticated t then Inl NoTokenGiven
      else if h_fault h SysConnect (SocketPath t) then Inl ConnectFailed
      else let c = \<lparr>target = t, out = [], copen = True, writes = 0, wfail = fails\<rparr>
           in if TToken t \<noteq> [] then
                (case Send c (auth_frame (TToken t)) of
                   (Some e, _) \<Rightarrow> Inl (AuthNotSent e)
                 | (None, c') \<Rightarrow> Inr c')
              else Inr c)"

definition CloseClient :: "Client \<Rightarrow> Client" where
  "CloseClient c = c\<lparr>copen := False\<rparr>"

subsection \<open>User messages\<close>

record User =
  UText :: gostring
  UFrom :: gostring
  UFromMode :: Mode
  UMsgID :: gostring
  UAttribution :: "CrossSession option"
  UPriority :: gostring

datatype user_error = BadMsgID gostring | BadReplyAddress gostring

text \<open>\<open>BuildUserFrame\<close> completes the user in place, so it returns the user too.\<close>

definition BuildUserFrame :: "bytes \<Rightarrow> User \<Rightarrow> (user_error + Frame) \<times> User" where
  "BuildUserFrame rnd u =
     (let u1 = (if UMsgID u = [] then u\<lparr>UMsgID := newMsgID rnd\<rparr> else u) in
      if \<not> msgIDPattern (UMsgID u1) then (Inl (BadMsgID (UMsgID u1)), u1)
      else if UFrom u1 \<noteq> [] \<and> \<not> validAddress (UFrom u1) then (Inl (BadReplyAddress (UFrom u1)), u1)
      else let u2 = (if UPriority u1 = [] then u1\<lparr>UPriority := priorityNext\<rparr> else u1);
               content = (case UAttribution u2 of None \<Rightarrow> UText u2 | Some cs \<Rightarrow> Wrap cs (UText u2))
           in (Inr \<lparr>MsgV = msgVersion, Type = TypeUser, MsgID = UMsgID u2, From = UFrom u2,
                 FromMode = UFromMode u2, Priority = UPriority u2, Token = [],
                 Message = Some \<lparr>Role = ''user'', Content = content\<rparr>, Raw = []\<rparr>, u2))"

definition SendUser :: "bytes \<Rightarrow> Client \<Rightarrow> User \<Rightarrow> ((user_error + send_error) + gostring) \<times> Client" where
  "SendUser rnd c u =
     (case BuildUserFrame rnd u of
        (Inl e, _) \<Rightarrow> (Inl (Inl e), c)
      | (Inr f, u') \<Rightarrow>
          (case Send c f of
             (Some e, c') \<Rightarrow> (Inl (Inr e), c')
           | (None, c') \<Rightarrow> (Inr (UMsgID u'), c')))"

definition EncodedUserSize :: "bytes \<Rightarrow> User \<Rightarrow> user_error + nat \<times> bool" where
  "EncodedUserSize rnd u =
     (case BuildUserFrame rnd u of
        (Inl e, _) \<Rightarrow> Inl e
      | (Inr f, _) \<Rightarrow> let sz = length (marshalFrame f) + 1 in Inr (sz, sz \<le> MaxLineBytes))"

subsection \<open>Measuring and sending agree\<close>

lemma BuildUserFrame_complete:
  assumes "BuildUserFrame rnd u = (Inr f, u')"
  shows "UMsgID u' \<noteq> [] \<and> UPriority u' \<noteq> [] \<and> msgIDPattern (UMsgID u')
    \<and> MsgID f = UMsgID u' \<and> Type f = TypeUser \<and> MsgV f = msgVersion \<and> Priority f = UPriority u'"
  using assms
  by (auto simp: BuildUserFrame_def Let_def msgIDPattern_def priorityNext_def split: if_splits)

lemma BuildUserFrame_stable:
  assumes "BuildUserFrame rnd u = (Inr f, u')"
  shows "BuildUserFrame rnd' u' = (Inr f, u')"
  using assms BuildUserFrame_complete [OF assms]
  by (auto simp: BuildUserFrame_def Let_def split: if_splits)

lemma EncodedUserSize_encode:
  assumes "BuildUserFrame rnd u = (Inr f, u')"
  shows "EncodedUserSize rnd u = Inr (length (marshalFrame f) + 1, length (marshalFrame f) < MaxLineBytes)"
  using assms by (auto simp: EncodedUserSize_def Let_def)

text \<open>
  (C32) Measuring a message predicts sending it: a user that \<open>EncodedUserSize\<close> says fits is
  written as one line of exactly the measured size, one that does not fit is refused before a
  byte is written, and measuring first does not change the message id that is sent, because a
  user completed once is not completed differently again.
\<close>

theorem measured_size_is_sent_size:
  assumes "BuildUserFrame rnd u = (Inr f, u')" "\<not> wfail c (writes c)"
  shows "BuildUserFrame rnd' u' = (Inr f, u') \<and>
    (case EncodedUserSize rnd u of
       Inr (sz, fits) \<Rightarrow>
         if fits then \<exists>line. length line = sz \<and> last line = newline
                \<and> SendUser rnd' c u' = (Inr (MsgID f), c\<lparr>out := out c @ line, writes := writes c + 1\<rparr>)
         else SendUser rnd' c u' = (Inl (Inr (Unencodable (FrameTooLong sz))), c)
     | Inl _ \<Rightarrow> False)"
proof -
  note st = BuildUserFrame_stable [OF assms(1)]
  have m: "UMsgID u' = MsgID f" using BuildUserFrame_complete [OF assms(1)] by simp
  show ?thesis
  proof (cases "length (marshalFrame f) < MaxLineBytes")
    case True
    then have "encodeFrame f = Inr (marshalFrame f @ [newline])" by (simp add: encodeFrame_Inr)
    then show ?thesis
      using True st m assms(2)
      by (auto simp: EncodedUserSize_encode [OF assms(1)] SendUser_def Send_def
          intro!: exI [of _ "marshalFrame f @ [newline]"])
  next
    case False
    then have "encodeFrame f = Inl (FrameTooLong (length (marshalFrame f) + 1))"
      by (simp add: encodeFrame_def Let_def)
    then show ?thesis
      using False st by (simp add: EncodedUserSize_encode [OF assms(1)] SendUser_def Send_def)
  qed
qed

definition sample_message :: User where
  "sample_message = \<lparr>UText = ''hi'', UFrom = [], UFromMode = [], UMsgID = [], UAttribution = None, UPriority = []\<rparr>"

definition fresh_client :: Client where
  "fresh_client = \<lparr>target = \<lparr>TPID = 7, SocketPath = ''/tmp/7.sock'', TToken = ''k'', TProcStart = [],
     Unauthenticated = False\<rparr>, out = [], copen = True, writes = 0, wfail = (\<lambda>_. False)\<rparr>"

lemma sample_message_builds:
  "\<exists>f u'. BuildUserFrame (replicate 16 0) sample_message = (Inr f, u') \<and> Content (the (Message f)) = ''hi''"
proof -
  have "msgIDPattern (newMsgID (replicate 16 0))"
    using uuid_format_pattern by (simp add: newMsgID_def newUUID_def Let_def)
  then show ?thesis by (simp add: BuildUserFrame_def sample_message_def Let_def)
qed

theorem measured_size_is_sent_size_witness:
  "\<exists>f u'. BuildUserFrame (replicate 16 0) sample_message = (Inr f, u')
     \<and> BuildUserFrame (replicate 16 1) u' = (Inr f, u')"
proof -
  obtain f u' where b: "BuildUserFrame (replicate 16 0) sample_message = (Inr f, u')"
    using sample_message_builds by blast
  have "\<not> wfail fresh_client (writes fresh_client)" by (simp add: fresh_client_def)
  from measured_size_is_sent_size [OF b this, of "replicate 16 1"] b show ?thesis by blast
qed

subsection \<open>From a client to an inbox\<close>

text \<open>A caller that sends a list of users over one client and stops at the first error.\<close>

fun send_users :: "Client \<Rightarrow> (bytes \<times> User) list \<Rightarrow> (Client \<times> Frame list) option" where
  "send_users c [] = Some (c, [])"
| "send_users c ((rnd, u) # us) =
     (case (fst (BuildUserFrame rnd u), SendUser rnd c u) of
        (Inr f, Inr _, c') \<Rightarrow> map_option (\<lambda>(c'', fs). (c'', f # fs)) (send_users c' us)
      | _ \<Rightarrow> None)"

lemma Send_None:
  assumes "Send c f = (None, c')"
  shows "out c' = out c @ marshalFrame f @ [newline]" "length (marshalFrame f) < MaxLineBytes" "target c' = target c"
  using assms by (auto simp: Send_def encodeFrame_Inr split: sum.splits if_splits)

lemma send_users_wire:
  assumes "send_users c us = Some (c', fs)"
  shows "out c' = out c @ wire fs \<and> (\<forall>f\<in>set fs. sendable f \<and> Type f = TypeUser)
    \<and> list_all2 (\<lambda>(rnd, u) f. fst (BuildUserFrame rnd u) = Inr f) us fs"
  using assms
proof (induction c us arbitrary: c' fs rule: send_users.induct)
  case (1 c)
  then show ?case by (simp add: wire_def)
next
  case (2 c rnd u us)
  obtain f u' where b: "BuildUserFrame rnd u = (Inr f, u')"
    using 2(2) by (cases "BuildUserFrame rnd u") (auto split: sum.splits)
  obtain c1 where s: "Send c f = (None, c1)" "SendUser rnd c u = (Inr (UMsgID u'), c1)"
    using 2(2) by (auto simp: SendUser_def b split: prod.splits option.splits)
  obtain gs where g: "send_users c1 us = Some (c', gs)" "fs = f # gs"
    using 2(2) by (auto simp: b s)
  have "sendable f" "Type f = TypeUser"
    using BuildUserFrame_complete [OF b] Send_None(2) [OF s(1)] by (simp_all add: sendable_def msgVersion_def int64_def)
  moreover note 2(1) [OF refl _ s(2) [symmetric] refl g(1), of f]
  ultimately show ?case using Send_None(1) [OF s(1)] b g(2) by (simp add: wire_def b)
qed

lemma Dial_wire:
  assumes "Dial h fails t = Inr c" "TToken t \<noteq> []"
  shows "out c = wire [auth_frame (TToken t)] \<and> sendable (auth_frame (TToken t)) \<and> target c = t"
proof -
  obtain c0 where s: "Send c0 (auth_frame (TToken t)) = (None, c)" "out c0 = []" "target c0 = t"
    using assms by (auto simp: Dial_def Let_def split: if_splits prod.splits option.splits)
  show ?thesis
    using Send_None [OF s(1)] s(2,3) by (simp add: wire_def sendable_def auth_frame_def zero_Frame_def int64_def)
qed

lemma wire_append: "wire (fs @ gs) = wire fs @ wire gs"
  by (simp add: wire_def)

lemma dial_and_send:
  assumes "Dial h fails t = Inr c0" "TToken t \<noteq> []" "toValid (TToken t) = token s" "send_users c0 us = Some (c, fs)"
    and "map snd (c_in conn) = out c" "snd (c_end conn) = EOF" "prompt s now conn"
    and "peerCred h' cred = Inr p" "has_OnUser (CHandler (cfg s))"
  shows "handleConn s h' cred now conn
    = map (\<lambda>f. OnUser (p\<lparr>Addr := path s, Authed := True\<rparr>) (received f)) fs"
proof -
  let ?a = "auth_frame (TToken t)"
  note d = Dial_wire [OF assms(1,2)] and u = send_users_wire [OF assms(4)]
  have w: "map snd (c_in conn) = wire (?a # fs)" using assms(5) d u by (simp add: wire_def)
  have "Type ?a = TypeAuth" "toValid (Token ?a) = token s" using assms(3) by (simp_all add: auth_frame_def)
  from serve_session [OF _ this _ assms(9), of fs "p\<lparr>Addr := path s\<rparr>"] d u
  show ?thesis unfolding handleConn_prompt [OF assms(7,8)] w assms(6) by simp
qed

subsection \<open>The text that arrives\<close>

lemma validString_scrubName: "validString (scrubName name)"
proof -
  have "validRune r" if "r \<in> set (trim isSpace (filter name_rune (runes name)))" for r
    using subsetD [OF set_trim that] runes_valid by auto
  then show ?thesis unfolding scrubName_runes validString_iff by blast
qed

lemma fromRe_ascii: "fromRe s \<Longrightarrow> validString s"
proof -
  assume "fromRe s"
  then have "list_all from_char s" by (simp add: fromRe_def)
  moreover have "from_char c \<Longrightarrow> bv c < 0x80" for c
    by (auto simp: from_char_def name_char_def is_digit_def)
  ultimately show ?thesis by (auto simp: list_all_iff intro!: validString_ascii)
qed

lemma validString_Wrap: "validString text \<Longrightarrow> validString (Wrap cs text)"
proof -
  have lit: "validString s" if "list_all (\<lambda>c. bv c < 0x80) s" for s by (rule validString_ascii [OF that])
  have "validString (attr k v)" if "validString k" "validString v" for k v
  proof -
    have "validString '' ''" "validString [CHR ''='', dquote]" "validString [dquote]" by (rule lit, simp)+
    then have "validString ('' '' @ k @ [CHR ''='', dquote] @ v @ [dquote])"
      using that by (intro validString_append)
    then show ?thesis by (simp add: attr_def)
  qed
  moreover have "validString attrFrom" "validString attrName" "validString attrMode" "validString ModePrompting"
    by (auto simp: attrFrom_def attrName_def attrMode_def ModePrompting_def intro!: lit)
  ultimately have "validString (open_attrs cs)"
    using fromRe_ascii validString_scrubName by (auto simp: open_attrs_def intro!: validString_append)
  moreover have "validString ''<''" "validString csElement" "validString [CHR ''>'', newline]" "validString close_tag"
    by (auto simp: csElement_def close_tag_def intro!: lit)
  moreover assume "validString text"
  ultimately have "validString ((''<'' @ csElement) @ open_attrs cs @ [CHR ''>'', newline] @ text @ close_tag)"
    by (intro validString_append)
  then show ?thesis by (simp add: Wrap_def)
qed

lemma built_text:
  assumes "BuildUserFrame rnd u = (Inr f, u')" "UAttribution u = Some cs" "validString (UText u)"
  shows "Unwrap (Text (received f)) = (attributed cs, UText u, True)"
proof -
  have "Content (the (Message f)) = Wrap cs (UText u)" "Message f \<noteq> None"
    using assms(1,2) by (auto simp: BuildUserFrame_def Let_def split: if_splits)
  then have "Text (received f) = toValid (Wrap cs (UText u))"
    by (auto simp: Text_def received_def norm_Frame_def norm_UserMessage_def)
  then show ?thesis using validString_Wrap [OF assms(3)] by (simp add: Unwrap_Wrap)
qed

text \<open>
  (C3) What a client sends is what an inbox delivers. A client dials with the token of the
  inbox and sends any number of users without an error; the bytes arrive in time and the
  connection ends. Then the user handler is called once for each of them, in order, with
  nothing else reported, and always with the kernel's identity of the peer marked as
  authenticated. The text of an attributed user opens to that text and attribution.
\<close>

theorem client_to_inbox:
  assumes "Dial h fails t = Inr c0" "TToken t \<noteq> []" "toValid (TToken t) = token s" "send_users c0 us = Some (c, fs)"
    and "map snd (c_in conn) = out c" "snd (c_end conn) = EOF" "prompt s now conn"
    and "peerCred h' cred = Inr p" "has_OnUser (CHandler (cfg s))"
    and "\<forall>(rnd, u)\<in>set us. UAttribution u \<noteq> None \<and> validString (UText u)"
  shows "handleConn s h' cred now conn
      = map (\<lambda>f. OnUser (p\<lparr>Addr := path s, Authed := True\<rparr>) (received f)) fs
    \<and> map (\<lambda>f. Unwrap (Text (received f))) fs
      = map (\<lambda>(rnd, u). (attributed (the (UAttribution u)), UText u, True)) us"
proof -
  have "list_all2 (\<lambda>(rnd, u) f. fst (BuildUserFrame rnd u) = Inr f) us fs"
    using send_users_wire [OF assms(4)] by blast
  then have "map (\<lambda>f. Unwrap (Text (received f))) fs
      = map (\<lambda>(rnd, u). (attributed (the (UAttribution u)), UText u, True)) us"
    using assms(10)
  proof (induction us fs rule: list_all2_induct)
    case (Cons ru us f fs)
    obtain rnd u where ru: "ru = (rnd, u)" by force
    with Cons obtain cs u' where "UAttribution u = Some cs" "BuildUserFrame rnd u = (Inr f, u')" "validString (UText u)"
      by (cases "BuildUserFrame rnd u") auto
    then show ?case using built_text Cons ru by simp
  qed simp
  then show ?thesis using dial_and_send [OF assms(1-9)] by simp
qed

lemma length_newMsgID: "length rnd = 16 \<Longrightarrow> length (newMsgID rnd) = 36"
  by (simp add: newMsgID_def newUUID_def uuid_format_def Let_def)

lemma length_scrubName: "length (scrubName name) \<le> 3 * length name"
proof -
  have t: "length (concat (map encodeRune (trim P rs))) \<le> length (concat (map encodeRune rs))" for P rs
  proof -
    have d: "length (concat (map encodeRune (dropWhile P xs))) \<le> length (concat (map encodeRune xs))" for xs
      by (induction xs) auto
    have r: "length (concat (map encodeRune (rev xs))) = length (concat (map encodeRune xs))" for xs
      by (induction xs) auto
    show ?thesis unfolding trim_def using d r by (metis le_trans)
  qed
  have f: "length (concat (map encodeRune (filter name_rune rs))) \<le> length (concat (map encodeRune rs))" for rs
    by (induction rs) auto
  have "length (concat (map encodeRune (runes s))) \<le> 3 * length s" for s
  proof (induction s rule: rune_induct)
    case (Rune s)
    obtain r n where d: "decodeRune s = (r, n)" by force
    have n: "0 < n" "n \<le> length s" using decodeRune_width [OF Rune(1)] d by simp_all
    have "length (encodeRune r) \<le> 3 * n"
    proof (cases "r = RuneError \<and> n = 1")
      case False
      then have "take n s = encodeRune r" using decodeRune_encoded [OF d Rune(1)] by auto
      from arg_cong [OF this, of length] show ?thesis using n by simp
    qed (simp add: encodeRune_RuneError)
    then show ?case using Rune n d runes_Cons [OF Rune(1)] by simp
  qed simp
  then show ?thesis unfolding scrubName_runes using t f by (meson le_trans)
qed

lemma length_Wrap: "length (Wrap cs text) \<le> 3 * length (cs_Name cs) + length text + 240"
proof -
  have "length (cs_From cs) \<le> 111" if "fromRe (cs_From cs)"
    using that by (simp add: fromRe_def schemeUDS_def maxSocketPath_def)
  then have "length (open_attrs cs) \<le> 3 * length (cs_Name cs) + 170"
    using length_scrubName [of "cs_Name cs"]
    by (cases "fromRe (cs_From cs)")
      (auto simp: open_attrs_def attr_def attrFrom_def attrName_def attrMode_def ModePrompting_def)
  then show ?thesis by (simp add: Wrap_def csElement_def close_tag_def)
qed

text \<open>A bound on the size of a user frame: six bytes for each byte of its strings.\<close>

definition member_cost :: "gostring \<times> gostring \<times> json \<Rightarrow> nat" where
  "member_cost m = (case m of (k, _, v) \<Rightarrow> 6 * length k + 4 + length (json_print v))"

lemma length_join: "length (join_with [c] xs) \<le> sum_list (map (\<lambda>x. length x + 1) xs)"
  by (induction xs) (auto simp: join_with_Cons)

lemma length_JObj: "length (json_print (JObj ms)) \<le> sum_list (map member_cost ms) + 2"
proof -
  have "sum_list (map (\<lambda>m. length (case m of (k, _, v) \<Rightarrow> json_quote k @ CHR '':'' # json_print v) + 1) ms)
      \<le> sum_list (map member_cost ms)"
    by (rule sum_list_mono) (use length_json_quote in \<open>auto simp: member_cost_def split: prod.splits\<close>)
  with length_join [of "CHR '',''" "map (\<lambda>(k, _, v). json_quote k @ CHR '':'' # json_print v) ms"]
  show ?thesis by (simp add: comp_def)
qed

lemma cost_omit_str: "sum_list (map member_cost (omit_str k v)) \<le> 6 * (length k + length v) + 6"
  using length_json_quote [of v] by (simp add: omit_str_def jmember_def member_cost_def)

lemma cost_str: "member_cost (jmember k (JStr v)) \<le> 6 * (length k + length v) + 6"
  using length_json_quote [of v] by (simp add: jmember_def member_cost_def)

lemma length_user_frame:
  assumes "MsgV f = msgVersion" "Type f = TypeUser" "Token f = []" "Message f = Some \<lparr>Role = ''user'', Content = content\<rparr>"
  shows "length (marshalFrame f) \<le> 6 * (length (MsgID f) + length (From f) + length (FromMode f)
    + length (Priority f) + length content) + 600"
proof -
  let ?m = "json_of_UserMessage \<lparr>Role = ''user'', Content = content\<rparr>"
  have v: "length (itoa msgVersion) = 1" by (simp add: msgVersion_def itoa_def) (subst nat_dec.simps, simp)
  have m: "length (json_print ?m) \<le> 6 * length content + 110"
    using length_JObj [of "[jmember ''role'' (JStr ''user''), jmember ''content'' (JStr content)]"]
      cost_str [of "''role''" "''user''"] cost_str [of "''content''" content]
    by (simp add: json_of_UserMessage_def)
  have "sum_list (map member_cost (omit_int ''msgV'' msgVersion @ [jmember ''type'' (JStr TypeUser)]
      @ omit_str ''msg_id'' (MsgID f) @ omit_str ''from'' (From f) @ omit_str ''from_mode'' (FromMode f)
      @ omit_str ''priority'' (Priority f) @ omit_str ''token'' [] @ [jmember ''message'' ?m]))
    \<le> 29 + 54 + (6 * (6 + length (MsgID f)) + 6) + (6 * (4 + length (From f)) + 6) + (6 * (9 + length (FromMode f)) + 6)
      + (6 * (8 + length (Priority f)) + 6) + 36 + (46 + length (json_print ?m))"
    using cost_str [of "''type''" TypeUser] cost_omit_str [of "''msg_id''" "MsgID f"] cost_omit_str [of "''from''" "From f"]
      cost_omit_str [of "''from_mode''" "FromMode f"] cost_omit_str [of "''priority''" "Priority f"] v
    by (simp add: omit_int_def msgVersion_def jmember_def member_cost_def TypeUser_def omit_str_def [of "''token''"])
  with m length_JObj [of "omit_int ''msgV'' msgVersion @ [jmember ''type'' (JStr TypeUser)]
      @ omit_str ''msg_id'' (MsgID f) @ omit_str ''from'' (From f) @ omit_str ''from_mode'' (FromMode f)
      @ omit_str ''priority'' (Priority f) @ omit_str ''token'' [] @ [jmember ''message'' ?m]"]
  show ?thesis using assms by (simp add: marshalFrame_def json_of_Frame_def)
qed

definition named_message :: User where
  "named_message = sample_message\<lparr>UAttribution := Some \<lparr>cs_From = [], cs_Name = ''me'', cs_Mode = []\<rparr>\<rparr>"

definition sent_conn :: "gostring \<Rightarrow> net_conn" where
  "sent_conn b = \<lparr>c_in = map (Pair 0) b, c_end = (1, EOF), c_deadline = None\<rparr>"

lemma sent_conn_prompt: "prompt sample_server 0 (sent_conn b)"
  by (simp add: prompt_def sent_conn_def deadline_of_def sample_server_def FirstLineTimeout_def list_all_iff)

lemma small_send:
  assumes "length (marshalFrame f) < MaxLineBytes" "\<And>n. \<not> wfail c n"
  shows "Send c f = (None, c\<lparr>out := out c @ marshalFrame f @ [newline], writes := writes c + 1\<rparr>)"
  using assms by (simp add: Send_def encodeFrame_def Let_def)

theorem client_to_inbox_witness:
  "\<exists>c0 c fs. Dial idle_host (\<lambda>_. False) (target fresh_client) = Inr c0
     \<and> send_users c0 [(replicate 16 0, named_message)] = Some (c, fs) \<and> length fs = 1
     \<and> handleConn sample_server idle_host (LinuxCred 5 1000 1000) 0 (sent_conn (out c))
       = map (\<lambda>f. OnUser (peerCred_linux idle_host 5 1000 1000\<lparr>Addr := ''/tmp/7.sock'', Authed := True\<rparr>) (received f)) fs
     \<and> map (\<lambda>f. Unwrap (Text (received f))) fs
       = [(attributed \<lparr>cs_From = [], cs_Name = ''me'', cs_Mode = []\<rparr>, ''hi'', True)]"
proof -
  let ?r = "replicate 16 0 :: bytes" and ?t = "target fresh_client"
  have p: "msgIDPattern (newMsgID ?r)" using uuid_format_pattern by (simp add: newMsgID_def newUUID_def Let_def)
  have a: "auth_frame ''k'' = sample_auth" by (simp add: auth_frame_def sample_auth_def)
  obtain c0 where d: "Dial idle_host (\<lambda>_. False) ?t = Inr c0" "\<And>n. \<not> wfail c0 n"
    using samples_sendable(1)
    by (simp add: Dial_def fresh_client_def idle_host_def Let_def a small_send sendable_def)
  let ?w = "Wrap \<lparr>cs_From = [], cs_Name = ''me'', cs_Mode = []\<rparr> ''hi''"
  define f where "f = \<lparr>MsgV = msgVersion, Type = TypeUser, MsgID = newMsgID ?r, From = [], FromMode = [],
     Priority = priorityNext, Token = [], Message = Some \<lparr>Role = ''user'', Content = ?w\<rparr>, Raw = []\<rparr>"
  have b: "fst (BuildUserFrame ?r named_message) = Inr f"
    using p by (simp add: BuildUserFrame_def named_message_def sample_message_def Let_def f_def priorityNext_def)
  have "length (newMsgID ?r) = 36" by (rule length_newMsgID) simp
  moreover have "length ?w \<le> 250"
    using length_Wrap [of "\<lparr>cs_From = [], cs_Name = ''me'', cs_Mode = []\<rparr>" "''hi''"] by simp
  ultimately have l: "length (marshalFrame f) < MaxLineBytes"
    using length_user_frame [of f ?w] by (simp add: f_def priorityNext_def MaxLineBytes_def)
  obtain c where s: "send_users c0 [(?r, named_message)] = Some (c, [f])"
    using b small_send [OF l d(2)] by (cases "BuildUserFrame ?r named_message") (auto simp: SendUser_def)
  have t: "TToken ?t \<noteq> []" "toValid (TToken ?t) = token sample_server"
    by (simp_all add: fresh_client_def sample_server_def toValid_ascii)
  have o: "map snd (c_in (sent_conn (out c))) = out c" "snd (c_end (sent_conn (out c))) = EOF"
    by (simp_all add: sent_conn_def comp_def)
  have pc: "peerCred idle_host (LinuxCred 5 1000 1000) = Inr (peerCred_linux idle_host 5 1000 1000)"
    by (simp add: peerCred_def)
  have "has_OnUser (CHandler (cfg sample_server))" "path sample_server = ''/tmp/7.sock''"
    by (simp_all add: sample_server_def)
  from client_to_inbox [OF d(1) t s o sent_conn_prompt pc this(1)] this(2) d(1) s
  show ?thesis by (simp add: named_message_def sample_message_def validString_ascii)
qed

end
