(* ===== verification/Deliver_Claude.thy ===== *)
theory Deliver_Claude
  imports Deliver Client
begin

text \<open>
  \<open>deliver/claude.go\<close>: delivery into the Claude Code session that launched this process. The
  backend never changes after it is made.
\<close>

record claudeBackend =
  socket :: gostring
  ctoken :: gostring
  replyTo :: gostring
  cmode :: Mode
  cname :: gostring

definition newClaude :: "host \<Rightarrow> gostring \<Rightarrow> gostring \<Rightarrow> gostring \<Rightarrow> gostring \<Rightarrow> Mode \<Rightarrow> claudeBackend" where
  "newClaude h sock tok name reply m =
     (let name = (if name = [] then defaultSenderName h else name)
      in \<lparr>socket = sock, ctoken = tok, replyTo = reply, cmode = m, cname = name\<rparr>)"

definition claudeOverhead :: nat where "claudeOverhead = 8 * 2 ^ 10"
definition worstCaseEscape :: nat where "worstCaseEscape = 6"

definition MaxIntactBytesClaude :: nat where
  "MaxIntactBytesClaude = (MaxLineBytes - claudeOverhead) div worstCaseEscape"

definition envelope :: "claudeBackend \<Rightarrow> CrossSession" where
  "envelope c = \<lparr>cs_From = replyTo c, cs_Name = cname c, cs_Mode = cmode c\<rparr>"

text \<open>The user that \<open>Fits\<close> measures, and the one that \<open>Deliver\<close> sends.\<close>

definition measured_user :: "claudeBackend \<Rightarrow> Delivery \<Rightarrow> User" where
  "measured_user c d = \<lparr>UText = compose d, UFrom = replyTo c, UFromMode = [], UMsgID = [],
     UAttribution = Some (envelope c), UPriority = []\<rparr>"

definition delivered_user :: "claudeBackend \<Rightarrow> gostring \<Rightarrow> User" where
  "delivered_user c text = \<lparr>UText = text, UFrom = replyTo c, UFromMode = cmode c, UMsgID = [],
     UAttribution = Some (envelope c), UPriority = []\<rparr>"

definition FitsClaude :: "bytes \<Rightarrow> claudeBackend \<Rightarrow> Delivery \<Rightarrow> user_error + nat \<times> bool" where
  "FitsClaude rnd c d = EncodedUserSize rnd (measured_user c d)"

text \<open>\<open>None\<close> is available.\<close>

definition AvailableClaude :: "host \<Rightarrow> claudeBackend \<Rightarrow> unavailable_reason option" where
  "AvailableClaude h c =
     (if socket c = [] then Some NotLaunched
      else if (case os_stat h (socket c) of Inl _ \<Rightarrow> True | Inr fi \<Rightarrow> n_kind fi \<noteq> KSocket) then Some (InboxGone (socket c))
      else if ctoken c = [] then Some NoChildToken
      else None)"

definition AdoptClaude :: "meta \<Rightarrow> claudeBackend \<Rightarrow> claudeBackend" where
  "AdoptClaude m c = c"

datatype claude_error =
    ClaudeUnavailable unavailable_reason
  | ClaudeTooLong nat nat
  | ClaudeDial dial_error
  | ClaudeNotWritten "user_error + send_error"

definition claude_target :: "host \<Rightarrow> claudeBackend \<Rightarrow> Target" where
  "claude_target h c =
     (let t = \<lparr>TPID = 0, SocketPath = socket c, TToken = ctoken c, TProcStart = [], Unauthenticated = False\<rparr> in
      case PIDFromSocketName (path_base (socket c)) of
        None \<Rightarrow> t
      | Some pid \<Rightarrow>
          let t = t\<lparr>TPID := pid\<rparr> in
          (case ProcStart h pid of Inl _ \<Rightarrow> t | Inr ps \<Rightarrow> t\<lparr>TProcStart := ps\<rparr>))"

text \<open>The result has the closed client too: its bytes are what the session receives.\<close>

definition DeliverClaude ::
    "host \<Rightarrow> (nat \<Rightarrow> bool) \<Rightarrow> bytes \<Rightarrow> claudeBackend \<Rightarrow> Delivery \<Rightarrow> claude_error + Receipt \<times> Client" where
  "DeliverClaude h fails rnd c d =
     (case AvailableClaude h c of
        Some reason \<Rightarrow> Inl (ClaudeUnavailable reason)
      | None \<Rightarrow>
          let text = compose d in
          if MaxIntactBytesClaude < length text then Inl (ClaudeTooLong (length text) MaxIntactBytesClaude)
          else (case Dial h fails (claude_target h c) of
                  Inl e \<Rightarrow> Inl (ClaudeDial e)
                | Inr client \<Rightarrow>
                    (case SendUser rnd client (delivered_user c text) of
                       (Inl e, _) \<Rightarrow> Inl (ClaudeNotWritten e)
                     | (Inr _, client') \<Rightarrow>
                         Inr (\<lparr>Observed = ObservedNothing, Detail = WrittenUnverified\<rparr>, CloseClient client'))))"

interpretation claude: deliverer AdoptClaude "\<lambda>_. True" "\<lambda>_. True" socket
  by unfold_locales (simp_all add: AdoptClaude_def)

subsection \<open>What is built\<close>

definition user_frame :: "bytes \<Rightarrow> claudeBackend \<Rightarrow> gostring \<Rightarrow> Mode \<Rightarrow> Frame" where
  "user_frame rnd c text m = \<lparr>MsgV = msgVersion, Type = TypeUser, MsgID = newMsgID rnd, From = replyTo c,
     FromMode = m, Priority = priorityNext, Token = [],
     Message = Some \<lparr>Role = ''user'', Content = Wrap (envelope c) text\<rparr>, Raw = []\<rparr>"

definition repliable :: "claudeBackend \<Rightarrow> bool" where
  "repliable c \<longleftrightarrow> replyTo c = [] \<or> validAddress (replyTo c)"

lemma newMsgID_pattern: "length rnd = 16 \<Longrightarrow> msgIDPattern (newMsgID rnd)"
  using uuid_format_pattern by (simp add: newMsgID_def newUUID_def Let_def)

lemma build_user:
  assumes "length rnd = 16" "repliable c"
  shows "fst (BuildUserFrame rnd (delivered_user c text)) = Inr (user_frame rnd c text (cmode c))"
    "fst (BuildUserFrame rnd (measured_user c d)) = Inr (user_frame rnd c (compose d) [])"
  using assms newMsgID_pattern [OF assms(1)]
  by (auto simp: BuildUserFrame_def delivered_user_def measured_user_def user_frame_def repliable_def Let_def priorityNext_def)

text \<open>The room that the overhead leaves for the sender's own strings.\<close>

definition modest :: "claudeBackend \<Rightarrow> bool" where
  "modest c \<longleftrightarrow> length (replyTo c) + length (cmode c) + 3 * length (cname c) \<le> 985"

lemma user_frame_fits:
  assumes "length rnd = 16" "modest c" "length text \<le> MaxIntactBytesClaude" "length m \<le> length (cmode c)"
  shows "length (marshalFrame (user_frame rnd c text m)) < MaxLineBytes"
proof -
  have "length (Wrap (envelope c) text) \<le> 3 * length (cname c) + length text + 240"
    using length_Wrap [of "envelope c" "text"] by (simp add: envelope_def)
  moreover have "6 * length text \<le> 1040384"
    using assms(3) by (simp add: MaxIntactBytesClaude_def MaxLineBytes_def claudeOverhead_def worstCaseEscape_def)
  ultimately show ?thesis
    using length_user_frame [of "user_frame rnd c text m" "Wrap (envelope c) text"] assms(2,4) length_newMsgID [OF assms(1)]
    by (simp add: user_frame_def priorityNext_def modest_def MaxLineBytes_def)
qed

text \<open>
  (C24) The floor holds: a body whose text is within \<open>MaxIntactBytes\<close> is delivered whatever its
  bytes are, six-fold escapes included, when the session is there and takes the bytes and the
  sender's own strings are modest: reply address, mode and three times the name together within
  985 bytes, which the reserved eight kilobytes pay for. And \<open>Fits\<close> agrees.
\<close>

theorem claude_floor_holds:
  assumes "AvailableClaude h c = None" "length (compose d) \<le> MaxIntactBytesClaude" "length rnd = 16"
    and "repliable c" "modest c"
    and "Dial h fails (claude_target h c) = Inr client" "\<And>n. \<not> fails n"
  shows "(\<exists>r cl. DeliverClaude h fails rnd c d = Inr (r, cl)) \<and> (\<exists>sz. FitsClaude rnd c d = Inr (sz, True))"
proof -
  let ?f = "user_frame rnd c (compose d) (cmode c)"
  have "wfail client = fails"
    using assms(6) by (auto simp: Dial_def Send_def Let_def split: if_splits sum.splits prod.splits option.splits)
  then have s: "Send client ?f = (None, client\<lparr>out := out client @ marshalFrame ?f @ [newline], writes := writes client + 1\<rparr>)"
    using small_send [OF user_frame_fits [OF assms(3,5,2) order.refl]] assms(7) by simp
  have "\<exists>i c'. SendUser rnd client (delivered_user c (compose d)) = (Inr i, c')"
    using build_user(1) [OF assms(3,4), of "compose d"] s
    by (cases "BuildUserFrame rnd (delivered_user c (compose d))") (simp add: SendUser_def)
  then have "\<exists>r cl. DeliverClaude h fails rnd c d = Inr (r, cl)"
    using assms(1,2,6) by (auto simp: DeliverClaude_def Let_def)
  moreover have "length (marshalFrame (user_frame rnd c (compose d) [])) < MaxLineBytes"
    by (rule user_frame_fits [OF assms(3,5,2)]) simp
  then have "\<exists>sz. FitsClaude rnd c d = Inr (sz, True)"
    using build_user(2) [OF assms(3,4), of d]
    by (cases "BuildUserFrame rnd (measured_user c d)") (simp add: FitsClaude_def EncodedUserSize_def Let_def)
  ultimately show ?thesis by simp
qed

subsection \<open>From a delivery to the session's inbox\<close>

lemma Deliver_sent:
  assumes "DeliverClaude h fails rnd c d = Inr (r, cl)"
  shows "AvailableClaude h c = None \<and> Observed r = ObservedNothing
    \<and> (\<exists>c0 c1 f. Dial h fails (claude_target h c) = Inr c0
        \<and> send_users c0 [(rnd, delivered_user c (compose d))] = Some (c1, [f])
        \<and> fst (BuildUserFrame rnd (delivered_user c (compose d))) = Inr f \<and> cl = CloseClient c1)"
  using assms
  by (auto simp: DeliverClaude_def Let_def SendUser_def split: option.splits if_splits sum.splits prod.splits)

lemma claude_target_facts: "TToken (claude_target h c) = ctoken c" "SocketPath (claude_target h c) = socket c"
  by (simp_all add: claude_target_def Let_def split: option.splits sum.splits)

text \<open>
  (C17) A delivery that reports no error is one message in the session: when the bytes it wrote
  reach an inbox whose token is the child token, the handler is called exactly once, for an
  authenticated peer, with a message that opens to the composed text, trailer included, under
  the sender's name; and the receipt claims no more than that the bytes were written.
\<close>

theorem claude_delivery_arrives:
  assumes "DeliverClaude h fails rnd c d = Inr (r, cl)" "toValid (ctoken c) = token s" "validString (compose d)"
    and "map snd (c_in conn) = out cl" "snd (c_end conn) = EOF" "prompt s now conn"
    and "peerCred h' cred = Inr p" "has_OnUser (CHandler (cfg s))"
  shows "\<exists>f. handleConn s h' cred now conn = [OnUser (p\<lparr>Addr := path s, Authed := True\<rparr>) f]
    \<and> Unwrap (Text f) = (attributed (envelope c), compose d, True) \<and> Observed r = ObservedNothing"
proof -
  obtain c0 c1 f where f: "AvailableClaude h c = None" "Dial h fails (claude_target h c) = Inr c0"
    "send_users c0 [(rnd, delivered_user c (compose d))] = Some (c1, [f])"
    "fst (BuildUserFrame rnd (delivered_user c (compose d))) = Inr f" "cl = CloseClient c1" "Observed r = ObservedNothing"
    using Deliver_sent [OF assms(1)] by blast
  have t: "TToken (claude_target h c) \<noteq> []" "toValid (TToken (claude_target h c)) = token s"
    using f(1) assms(2) by (auto simp: claude_target_facts AvailableClaude_def split: if_splits)
  have o: "map snd (c_in conn) = out c1" using assms(4) f(5) by (simp add: CloseClient_def)
  obtain u' where "BuildUserFrame rnd (delivered_user c (compose d)) = (Inr f, u')"
    using f(4) by (cases "BuildUserFrame rnd (delivered_user c (compose d))") simp
  then have "Unwrap (Text (received f)) = (attributed (envelope c), compose d, True)"
    using built_text [of rnd "delivered_user c (compose d)" f u' "envelope c"] assms(3) by (simp add: delivered_user_def)
  then show ?thesis
    using dial_and_send [OF f(2) t f(3) o assms(5-8)] f(6) by simp
qed

subsection \<open>Where the code says more than it does\<close>

text \<open>
  The check for a recycled process never fires: \<open>Deliver\<close> reads the start time of the
  process that has the pid now, and \<open>Dial\<close> compares it with that same process. No host makes a
  delivery fail with a stale process, so a pid recycled since the launch goes unnoticed.
\<close>

theorem claude_recycled_pid_unnoticed: "DeliverClaude h fails rnd c d \<noteq> Inl (ClaudeDial StaleProcess)"
proof -
  have "Alive h (TPID (claude_target h c)) (TProcStart (claude_target h c))"
    if "TProcStart (claude_target h c) \<noteq> []"
    using that by (auto simp: claude_target_def Let_def Alive_def split: option.splits sum.splits)
  then have "Dial h fails (claude_target h c) \<noteq> Inl StaleProcess"
    by (auto simp: Dial_def Let_def split: prod.splits option.splits)
  then show ?thesis
    by (auto simp: DeliverClaude_def Let_def split: option.splits sum.splits prod.splits)
qed

text \<open>The length of an object is that of its members, one comma less than their number, and the braces.\<close>

definition member_length :: "gostring \<times> gostring \<times> json \<Rightarrow> nat" where
  "member_length m = (case m of (k, _, v) \<Rightarrow> length (json_quote k) + length (json_print v) + 2)"

lemma length_join_exact: "xs \<noteq> [] \<Longrightarrow> length (join_with [c] xs) + 1 = sum_list (map (\<lambda>x. length x + 1) xs)"
  by (induction xs) (auto simp: join_with_Cons)

lemma length_JObj_exact: "ms \<noteq> [] \<Longrightarrow> length (json_print (JObj ms)) = sum_list (map member_length ms) + 1"
proof -
  assume "ms \<noteq> []"
  moreover have "(\<lambda>m. Suc (length (case m of (k, _ :: gostring, v) \<Rightarrow> json_quote k @ CHR '':'' # json_print v))) = member_length"
    by (simp add: member_length_def fun_eq_iff)
  ultimately show ?thesis
    using length_join_exact [of "map (\<lambda>(k, _, v). json_quote k @ CHR '':'' # json_print v) ms" "CHR '',''"]
    by (simp add: comp_def)
qed

lemma length_mode_member:
  "length (marshalFrame (f\<lparr>FromMode := m\<rparr>)) =
     length (marshalFrame (f\<lparr>FromMode := []\<rparr>)) + (if m = [] then 0 else member_length (jmember ''from_mode'' (JStr m)))"
  by (simp add: marshalFrame_def json_of_Frame_def length_JObj_exact omit_str_def [of "''from_mode''"] del: json_print.simps)

text \<open>
  \<open>Fits\<close> does not measure the frame that \<open>Deliver\<close> sends: it leaves the posture out of the
  frame's header, so for a sender with a posture the line on the wire is longer than the size
  it reports by exactly that member of the object.
\<close>

theorem claude_fits_leaves_mode_out:
  assumes "length rnd = 16" "repliable c"
  shows "\<exists>f sz. FitsClaude rnd c d = Inr (sz, sz \<le> MaxLineBytes)
    \<and> fst (BuildUserFrame rnd (delivered_user c (compose d))) = Inr f
    \<and> length (marshalFrame f) + 1 =
        sz + (if cmode c = [] then 0 else member_length (jmember ''from_mode'' (JStr (cmode c))))"
proof -
  let ?f = "user_frame rnd c (compose d) (cmode c)" and ?g = "user_frame rnd c (compose d) []"
  have "?f = ?g\<lparr>FromMode := cmode c\<rparr>" "?g = ?g\<lparr>FromMode := []\<rparr>" by (simp_all add: user_frame_def)
  then have "length (marshalFrame ?f) = length (marshalFrame ?g)
      + (if cmode c = [] then 0 else member_length (jmember ''from_mode'' (JStr (cmode c))))"
    using length_mode_member by metis
  moreover have "FitsClaude rnd c d = Inr (length (marshalFrame ?g) + 1, length (marshalFrame ?g) + 1 \<le> MaxLineBytes)"
    using build_user(2) [OF assms, of d]
    by (cases "BuildUserFrame rnd (measured_user c d)") (simp add: FitsClaude_def EncodedUserSize_def Let_def)
  ultimately show ?thesis using build_user(1) [OF assms, of "compose d"] by auto
qed

text \<open>
  A body of exactly \<open>MaxIntactBytes\<close> is always refused, although the overhead was reserved
  for the trailer too: \<open>Deliver\<close> compares the composed text, trailer included, with the number
  it gave out for the body. Not even the trailer fits on top.
\<close>

theorem claude_body_at_floor_refused:
  assumes "AvailableClaude h c = None" "length (Body d) = MaxIntactBytesClaude"
  shows "DeliverClaude h fails rnd c d = Inl (ClaudeTooLong (length (compose d)) MaxIntactBytesClaude)"
proof -
  have "0 < MaxIntactBytesClaude"
    by (simp add: MaxIntactBytesClaude_def MaxLineBytes_def claudeOverhead_def worstCaseEscape_def)
  then have "Body d \<noteq> []" using assms(2) by auto
  then have "MaxIntactBytesClaude < length (compose d)" using assms(2) by (simp add: compose_trailer)
  then show ?thesis using assms(1) by (simp add: DeliverClaude_def Let_def)
qed

subsection \<open>A concrete session\<close>

definition session_host :: host where
  "session_host = idle_host\<lparr>h_fs := [''/tmp/s.sock'' \<mapsto> \<lparr>n_kind = KSocket, n_perm = 384, n_uid = 1000, n_data = []\<rparr>]\<rparr>"

definition child_backend :: claudeBackend where
  "child_backend = \<lparr>socket = ''/tmp/s.sock'', ctoken = ''k'', replyTo = [], cmode = ModePrompting, cname = ''me''\<rparr>"

definition small_delivery :: Delivery where
  "small_delivery = \<lparr>Cursor = ''7'', Body = ''hi'', More = False\<rparr>"

theorem claude_fits_leaves_mode_out_witness:
  "\<exists>f sz. FitsClaude (replicate 16 0) child_backend small_delivery = Inr (sz, sz \<le> MaxLineBytes)
     \<and> fst (BuildUserFrame (replicate 16 0) (delivered_user child_backend (compose small_delivery))) = Inr f
     \<and> sz < length (marshalFrame f) + 1"
  using claude_fits_leaves_mode_out [of "replicate 16 0" child_backend small_delivery]
  by (auto simp: child_backend_def repliable_def ModePrompting_def member_length_def jmember_def)

lemma session_host_facts:
  "AvailableClaude session_host child_backend = None" "length (compose small_delivery) \<le> MaxIntactBytesClaude"
  "repliable child_backend" "modest child_backend"
  by (simp_all add: AvailableClaude_def session_host_def child_backend_def os_stat_def idle_host_def small_delivery_def
      compose_def repliable_def modest_def ModePrompting_def MaxIntactBytesClaude_def MaxLineBytes_def
      claudeOverhead_def worstCaseEscape_def Let_def)

lemma session_dial:
  "\<exists>c. Dial session_host (\<lambda>_. False) (claude_target session_host child_backend) = Inr c \<and> wfail c = (\<lambda>_. False)
     \<and> writes c = 1"
proof -
  have "ProcStart session_host pid \<noteq> Inr ps" for pid ps
    by (simp add: ProcStart_def os_readFile_def session_host_def idle_host_def)
  then have "TProcStart (claude_target session_host child_backend) = []"
    by (auto simp: claude_target_def Let_def split: option.splits sum.splits)
  moreover have "TToken (claude_target session_host child_backend) = ''k''"
    by (simp add: claude_target_facts child_backend_def)
  moreover have "auth_frame ''k'' = sample_auth" by (simp add: auth_frame_def sample_auth_def)
  moreover have "\<not> h_fault session_host k q" for k q by (simp add: session_host_def idle_host_def)
  ultimately show ?thesis
    using samples_sendable(1) by (simp add: Dial_def Let_def small_send sendable_def)
qed

theorem claude_floor_holds_witness:
  "\<exists>r cl. DeliverClaude session_host (\<lambda>_. False) (replicate 16 0) child_backend small_delivery = Inr (r, cl)"
  using session_dial claude_floor_holds [OF session_host_facts(1,2) _ session_host_facts(3,4), of "replicate 16 0" "\<lambda>_. False"]
  by auto

theorem claude_delivery_arrives_witness:
  "\<exists>r cl f. DeliverClaude session_host (\<lambda>_. False) (replicate 16 0) child_backend small_delivery = Inr (r, cl)
     \<and> handleConn sample_server idle_host (LinuxCred 5 1000 1000) 0 (sent_conn (out cl))
       = [OnUser (peerCred_linux idle_host 5 1000 1000\<lparr>Addr := path sample_server, Authed := True\<rparr>) f]
     \<and> Unwrap (Text f) = (attributed (envelope child_backend), compose small_delivery, True)"
proof -
  let ?rnd = "replicate 16 0 :: bytes"
  obtain c where c: "Dial session_host (\<lambda>_. False) (claude_target session_host child_backend) = Inr c" "wfail c = (\<lambda>_. False)"
    using session_dial by blast
  let ?f = "user_frame ?rnd child_backend (compose small_delivery) (cmode child_backend)"
  have "length (marshalFrame ?f) < MaxLineBytes"
    by (rule user_frame_fits) (simp_all add: session_host_facts)
  then have "Send c ?f = (None, c\<lparr>out := out c @ marshalFrame ?f @ [newline], writes := writes c + 1\<rparr>)"
    using c(2) by (intro small_send) simp_all
  then obtain r cl where d: "DeliverClaude session_host (\<lambda>_. False) ?rnd child_backend small_delivery = Inr (r, cl)"
    using build_user(1) [of ?rnd child_backend "compose small_delivery"] session_host_facts c(1)
    by (cases "BuildUserFrame ?rnd (delivered_user child_backend (compose small_delivery))")
      (auto simp: DeliverClaude_def Let_def SendUser_def)
  have v: "toValid (ctoken child_backend) = token sample_server" "validString (compose small_delivery)"
    by (simp_all add: child_backend_def sample_server_def toValid_ascii compose_def small_delivery_def Let_def validString_ascii)
  have o: "map snd (c_in (sent_conn (out cl))) = out cl" "snd (c_end (sent_conn (out cl))) = EOF"
    by (simp_all add: sent_conn_def comp_def)
  have pc: "peerCred idle_host (LinuxCred 5 1000 1000) = Inr (peerCred_linux idle_host 5 1000 1000)"
    by (simp add: peerCred_def)
  have "has_OnUser (CHandler (cfg sample_server))" by (simp add: sample_server_def)
  from claude_delivery_arrives [OF d v o sent_conn_prompt pc this] d show ?thesis by blast
qed

theorem claude_body_at_floor_refused_witness:
  "\<exists>n m. DeliverClaude session_host (\<lambda>_. False) (replicate 16 0) child_backend
     \<lparr>Cursor = ''7'', Body = replicate MaxIntactBytesClaude (CHR ''x''), More = False\<rparr> = Inl (ClaudeTooLong n m)"
  using claude_body_at_floor_refused [OF session_host_facts(1)] by (metis Delivery.select_convs(2) length_replicate)

end
