(* ===== verification/Codex_Discover.thy ===== *)
theory Codex_Discover
  imports Host
begin

text \<open>
  \<open>codexmsg/discover.go\<close>: where the control socket of the Codex daemon is, and whether it can
  be used.
\<close>

definition controlDirName :: gostring where "controlDirName = ''app-server-control''"
definition controlSocketName :: gostring where "controlSocketName = ''app-server-control.sock''"
definition startupLockName :: gostring where "startupLockName = ''app-server-startup.lock''"

definition maxUnixPath :: nat where "maxUnixPath = 108"

datatype socket_error =
    NoCodexHome
  | PathTooLong nat gostring
  | NoDaemonSocket gostring
  | SocketStat gostring
  | NotASocket gostring

definition Home :: "host \<Rightarrow> socket_error + gostring" where
  "Home h =
     (let c = getenv h ''CODEX_HOME'' in
      if c \<noteq> [] then Inr c
      else case userHomeDir h of
             None \<Rightarrow> Inl NoCodexHome
           | Some home \<Rightarrow> Inr (path_join [home, ''.codex'']))"

definition ControlSocketPath :: "gostring \<Rightarrow> gostring" where
  "ControlSocketPath codexHome = path_join [codexHome, controlDirName, controlSocketName]"

definition CheckSocketPath :: "host \<Rightarrow> gostring \<Rightarrow> socket_error option" where
  "CheckSocketPath h path =
     (if maxUnixPath < length path + 1 then Some (PathTooLong (length path) path)
      else case os_stat h path of
             Inl ENOENT \<Rightarrow> Some (NoDaemonSocket path)
           | Inl EFault \<Rightarrow> Some (SocketStat path)
           | Inr fi \<Rightarrow> if n_kind fi \<noteq> KSocket then Some (NotASocket path) else None)"

definition DefaultSocket :: "host \<Rightarrow> socket_error + gostring" where
  "DefaultSocket h =
     (case Home h of
        Inl e \<Rightarrow> Inl e
      | Inr home \<Rightarrow>
          let path = ControlSocketPath home in
          (case CheckSocketPath h path of Some e \<Rightarrow> Inl e | None \<Rightarrow> Inr path))"

subsection \<open>What an accepted path is\<close>

lemma Home_nonempty: "Home h = Inr home \<Longrightarrow> home \<noteq> []"
proof -
  have "path_join [d, ''.codex''] \<noteq> []" for d
    using path_base_path_join [of "''.codex''" d] by (auto simp: plain_name_def path_base_def)
  then show "Home h = Inr home \<Longrightarrow> home \<noteq> []"
    by (auto simp: Home_def Let_def split: if_splits option.splits)
qed

lemma CheckSocketPath_None:
  "CheckSocketPath h path = None \<longleftrightarrow>
     length path < maxUnixPath \<and> (\<exists>n. os_stat h path = Inr n \<and> n_kind n = KSocket)"
  by (auto simp: CheckSocketPath_def split: sum.splits os_error.splits)

lemma base_ControlSocketPath:
  assumes "codexHome \<noteq> []"
  shows "path_base (ControlSocketPath codexHome) = controlSocketName"
proof -
  have n: "plain_name controlSocketName" by (simp add: plain_name_def controlSocketName_def)
  then have s: "slash \<notin> set controlSocketName" "controlSocketName \<noteq> []" by (simp_all add: plain_name_def)
  have "ControlSocketPath codexHome = Clean ((codexHome @ slash # controlDirName) @ slash # controlSocketName)"
    using assms by (simp add: ControlSocketPath_def path_join_def)
  then show ?thesis
    using Clean_append_name [OF n, of "codexHome @ slash # controlDirName"] s by auto
qed

text \<open>
  A path that \<open>DefaultSocket\<close> returns is the control socket, never the IDE channel that
  lives beside it: its last element is the control socket's name, it fits \<open>sun_path\<close> with its
  terminating NUL, and a socket was there. An environment that names the home decides alone,
  and without one the home directory does.
\<close>

theorem default_socket_is_control_socket:
  assumes "DefaultSocket h = Inr p"
  shows "path_base p = controlSocketName \<and> length p + 1 \<le> maxUnixPath
    \<and> (\<exists>n. os_stat h p = Inr n \<and> n_kind n = KSocket)
    \<and> (if getenv h ''CODEX_HOME'' \<noteq> [] then p = ControlSocketPath (getenv h ''CODEX_HOME'')
       else \<exists>home. userHomeDir h = Some home \<and> p = ControlSocketPath (path_join [home, ''.codex'']))"
proof -
  obtain home where home: "Home h = Inr home" "p = ControlSocketPath home" "CheckSocketPath h p = None"
    using assms by (auto simp: DefaultSocket_def Let_def split: sum.splits option.splits)
  have "path_base p = controlSocketName" using Home_nonempty [OF home(1)] base_ControlSocketPath home(2) by simp
  moreover have "if getenv h ''CODEX_HOME'' \<noteq> [] then p = ControlSocketPath (getenv h ''CODEX_HOME'')
       else \<exists>d. userHomeDir h = Some d \<and> p = ControlSocketPath (path_join [d, ''.codex''])"
    using home(1,2) by (auto simp: Home_def Let_def split: if_splits option.splits)
  ultimately show ?thesis using home(3) by (auto simp: CheckSocketPath_None)
qed

definition daemon_host :: host where
  "daemon_host = idle_host\<lparr>h_env := [''CODEX_HOME'' \<mapsto> ''/c''],
     h_fs := [''/c/app-server-control/app-server-control.sock'' \<mapsto>
       \<lparr>n_kind = KSocket, n_perm = 384, n_uid = 1000, n_data = []\<rparr>]\<rparr>"

lemma DefaultSocket_daemon_host:
  "DefaultSocket daemon_host = Inr ''/c/app-server-control/app-server-control.sock''"
  by (simp add: DefaultSocket_def Home_def daemon_host_def getenv_def idle_host_def Let_def ControlSocketPath_def
      controlDirName_def controlSocketName_def path_join_def Clean_def clean_step_def CheckSocketPath_def
      maxUnixPath_def os_stat_def)

theorem default_socket_is_control_socket_witness:
  "path_base ''/c/app-server-control/app-server-control.sock'' = controlSocketName"
  using default_socket_is_control_socket [OF DefaultSocket_daemon_host] by blast

end
