(* ===== verification/Jsonrpc.thy ===== *)
theory Jsonrpc
  imports Frame
begin

text \<open>
  \<open>codexmsg/jsonrpc.go\<close>: the JSON-RPC dialect of the app server, and the errors that travel
  with it. A Go error is a value that may wrap another.
\<close>

record RequestID =
  Num :: int
  Str :: gostring
  IsID :: bool

definition zero_RequestID :: RequestID where "zero_RequestID = \<lparr>Num = 0, Str = [], IsID = False\<rparr>"

definition IntID :: "int \<Rightarrow> RequestID" where
  "IntID n = \<lparr>Num = n, Str = [], IsID = True\<rparr>"

definition json_of_RequestID :: "RequestID \<Rightarrow> json" where
  "json_of_RequestID r = (if Str r \<noteq> [] then JStr (Str r) else JNum (itoa (Num r)))"

text \<open>
  \<open>UnmarshalJSON\<close>, on the text of a value and the value itself: a text that begins with a
  quote is decoded into \<open>Str\<close>, anything else into \<open>Num\<close>.
\<close>

definition dec_RequestID :: "RequestID \<Rightarrow> gostring \<Rightarrow> json \<Rightarrow> RequestID option" where
  "dec_RequestID r raw v =
     (let r1 = r\<lparr>IsID := True\<rparr> in
      if raw \<noteq> [] \<and> hd raw = dquote then map_option (\<lambda>s. r1\<lparr>Str := s\<rparr>) (dec_str (Str r1) v)
      else map_option (\<lambda>n. r1\<lparr>Num := n\<rparr>) (dec_int (Num r1) v))"

definition key :: "RequestID \<Rightarrow> gostring" where
  "key r = (if Str r \<noteq> [] then ''s:'' @ Str r else ''n:'' @ itoa (Num r))"

definition String :: "RequestID \<Rightarrow> gostring" where
  "String r = (if Str r \<noteq> [] then Str r else itoa (Num r))"

record Request =
  ReqID :: RequestID
  Method :: gostring
  Params :: "json option"        \<comment> \<open>the raw params, \<open>None\<close> when there are none\<close>

definition json_of_Request :: "Request \<Rightarrow> json" where
  "json_of_Request r = JObj
     ([jmember ''id'' (json_of_RequestID (ReqID r)), jmember ''method'' (JStr (Method r))]
      @ (case Params r of None \<Rightarrow> [] | Some p \<Rightarrow> [jmember ''params'' p]))"

subsection \<open>Messages\<close>

record Error =
  Code :: int
  ErrMessage :: gostring
  Data :: gostring               \<comment> \<open>raw\<close>

definition zero_Error :: Error where "zero_Error = \<lparr>Code = 0, ErrMessage = [], Data = []\<rparr>"

record Message =
  MID :: "RequestID option"
  MMethod :: gostring
  MParams :: gostring            \<comment> \<open>raw\<close>
  MResult :: gostring            \<comment> \<open>raw\<close>
  MError :: "Error option"

definition zero_Message :: Message where
  "zero_Message = \<lparr>MID = None, MMethod = [], MParams = [], MResult = [], MError = None\<rparr>"

definition dec_Error :: "Error field_decoder" where
  "dec_Error e kv =
     (case kv of (k, raw, v) \<Rightarrow>
        if foldName k = foldName ''code'' then map_option (\<lambda>x. e\<lparr>Code := x\<rparr>) (dec_int (Code e) v)
        else if foldName k = foldName ''message'' then
          map_option (\<lambda>x. e\<lparr>ErrMessage := x\<rparr>) (dec_str (ErrMessage e) v)
        else if foldName k = foldName ''data'' then Some (e\<lparr>Data := raw\<rparr>)
        else Some e)"

text \<open>The pointer fields are cleared by \<open>null\<close> and otherwise decoded into what they point to.\<close>

definition dec_MID :: "RequestID option \<Rightarrow> gostring \<Rightarrow> json \<Rightarrow> RequestID option option" where
  "dec_MID cur raw v =
     (case v of
        JNull \<Rightarrow> Some None
      | _ \<Rightarrow> map_option Some
          (dec_RequestID (case cur of None \<Rightarrow> zero_RequestID | Some r \<Rightarrow> r) raw v))"

definition dec_MError :: "Error option \<Rightarrow> json \<Rightarrow> Error option option" where
  "dec_MError cur v =
     (case v of
        JNull \<Rightarrow> Some None
      | _ \<Rightarrow> map_option Some (dec_struct dec_Error (case cur of None \<Rightarrow> zero_Error | Some e \<Rightarrow> e) v))"

definition dec_RpcMessage :: "Message field_decoder" where
  "dec_RpcMessage m kv =
     (case kv of (k, raw, v) \<Rightarrow>
        if foldName k = foldName ''id'' then map_option (\<lambda>x. m\<lparr>MID := x\<rparr>) (dec_MID (MID m) raw v)
        else if foldName k = foldName ''method'' then
          map_option (\<lambda>x. m\<lparr>MMethod := x\<rparr>) (dec_str (MMethod m) v)
        else if foldName k = foldName ''params'' then Some (m\<lparr>MParams := raw\<rparr>)
        else if foldName k = foldName ''result'' then Some (m\<lparr>MResult := raw\<rparr>)
        else if foldName k = foldName ''error'' then
          map_option (\<lambda>x. m\<lparr>MError := x\<rparr>) (dec_MError (MError m) v)
        else Some m)"

definition unmarshalMessage :: "gostring \<Rightarrow> Message option" where
  "unmarshalMessage b =
     (case json_parse b of None \<Rightarrow> None | Some v \<Rightarrow> dec_struct dec_RpcMessage zero_Message v)"

definition IsResponse :: "Message \<Rightarrow> bool" where
  "IsResponse m \<longleftrightarrow> MID m \<noteq> None \<and> MMethod m = []"

subsection \<open>Errors\<close>

datatype go_error =
    RpcError Error
  | Wrapped gostring go_error        \<comment> \<open>\<open>fmt.Errorf\<close> with \<open>%w\<close>: the prefix and the cause\<close>
  | Plain gostring

definition CodeInvalidRequest :: int where "CodeInvalidRequest = - 32600"
definition CodeMethodNotFound :: int where "CodeMethodNotFound = - 32601"
definition CodeInternalError :: int where "CodeInternalError = - 32603"
definition CodeOverloaded :: int where "CodeOverloaded = - 32001"

definition rpc_error_text :: "Error \<Rightarrow> gostring" where
  "rpc_error_text e =
     (if Data e \<noteq> []
      then ''app server error '' @ itoa (Code e) @ '': '' @ ErrMessage e @ '' ('' @ Data e @ '')''
      else ''app server error '' @ itoa (Code e) @ '': '' @ ErrMessage e)"

fun error_text :: "go_error \<Rightarrow> gostring" where
  "error_text (RpcError e) = rpc_error_text e"
| "error_text (Wrapped p e) = p @ '': '' @ error_text e"
| "error_text (Plain s) = s"

fun asError :: "go_error \<Rightarrow> Error option" where
  "asError (RpcError e) = Some e"
| "asError (Wrapped p e) = asError e"
| "asError (Plain s) = None"

definition IsMethodNotFound :: "go_error \<Rightarrow> bool" where
  "IsMethodNotFound err =
     (case asError err of None \<Rightarrow> False | Some e \<Rightarrow> Code e = CodeMethodNotFound)"

subsection \<open>Correlation\<close>

lemma nat_dec_inject [simp]: "nat_dec a = nat_dec b \<longleftrightarrow> a = b"
  by (metis digits_val_nat_dec)

lemma itoa_inj [simp]: "itoa a = itoa b \<longleftrightarrow> a = b"
proof -
  have h: "hd (nat_dec n) \<noteq> CHR ''-''" for n using hd_nat_dec [of n] by (auto simp: is_digit_def)
  then have "nat_dec n \<noteq> CHR ''-'' # s" for n s by (metis list.sel(1))
  then show ?thesis by (auto simp: itoa_def) (metis)+
qed

lemma key_IntID [simp]: "key (IntID a) = key (IntID b) \<longleftrightarrow> a = b"
  by (simp add: key_def IntID_def)

text \<open>A string id never collides with a number.\<close>

lemma key_Str: "Str r \<noteq> [] \<Longrightarrow> key r \<noteq> key (IntID n)"
  by (simp add: key_def IntID_def)

lemma rpc_names:
  "foldName ''id'' = [73, 68]" "foldName ''method'' = [77, 69, 84, 72, 79, 68]"
  "foldName ''params'' = [80, 65, 82, 65, 77, 83]" "foldName ''result'' = [82, 69, 83, 85, 76, 84]"
  "foldName ''error'' = [69, 82, 82, 79, 82]" "foldName ''code'' = [67, 79, 68, 69]"
  "foldName ''message'' = [77, 69, 83, 83, 65, 71, 69]" "foldName ''data'' = [68, 65, 84, 65]"
  by (simp_all add: foldName_def runes_ascii foldRune_def)

lemma rpc_keys: "toValid ''id'' = ''id''" "toValid ''result'' = ''result''" "toValid ''method'' = ''method''"
    "toValid ''params'' = ''params''" "toValid ''error'' = ''error''"
  by (simp_all add: toValid_ascii)

text \<open>The answer a server gives to the request \<open>n\<close> with a result.\<close>

definition response_text :: "int \<Rightarrow> json \<Rightarrow> gostring" where
  "response_text n v = json_print (JObj [jmember ''id'' (JNum (itoa n)), jmember ''result'' v])"

lemma hd_itoa_no_quote: "hd (itoa n) \<noteq> dquote"
  using hd_itoa [of n] by (auto simp: is_digit_def)

lemma unmarshal_response:
  assumes "int64 n" "printable v" "jdepth v < maxNestingDepth"
  shows "unmarshalMessage (response_text n v) =
    Some (zero_Message\<lparr>MID := Some (IntID n), MResult := json_print v\<rparr>)"
proof -
  let ?o = "JObj [jmember ''id'' (JNum (itoa n)), jmember ''result'' v]"
  have p: "printable ?o" using assms(2) by (simp add: jmember_def)
  have "jdepth ?o \<le> Suc (maxNestingDepth - 1)"
    by (rule jdepth_JObj_le) (use assms(3) in \<open>auto simp: jmember_def\<close>)
  then have d: "jdepth ?o \<le> maxNestingDepth" by (simp only: maxNestingDepth_def)
  show ?thesis
    unfolding unmarshalMessage_def response_text_def json_parse_print [OF p d]
    using assms(1) hd_itoa_no_quote [of n]
    by (simp add: jmember_def dec_struct_def rpc_keys rpc_names dec_RpcMessage_def dec_MID_def dec_RequestID_def
        dec_int_def zero_Message_def zero_RequestID_def IntID_def Let_def)
qed

end
