(* ===== verification/Base64.thy ===== *)
theory Base64
  imports Prelude
begin

text \<open>\<open>base64.StdEncoding.EncodeToString\<close>, which the WebSocket handshake uses.\<close>

definition b64_alphabet :: gostring where
  "b64_alphabet = ''ABCDEFGHIJKLMNOPQRSTUVWXYZabcdefghijklmnopqrstuvwxyz0123456789+/''"

definition b64_char :: "nat \<Rightarrow> char" where
  "b64_char n = b64_alphabet ! n"

fun base64 :: "bytes \<Rightarrow> gostring" where
  "base64 (a # b # c # r) =
     (let n = unat a * 65536 + unat b * 256 + unat c in
      b64_char (n div 262144) # b64_char (n div 4096 mod 64) # b64_char (n div 64 mod 64)
      # b64_char (n mod 64) # base64 r)"
| "base64 [a, b] =
     (let n = unat a * 65536 + unat b * 256 in
      [b64_char (n div 262144), b64_char (n div 4096 mod 64), b64_char (n div 64 mod 64), CHR ''=''])"
| "base64 [a] =
     (let n = unat a * 65536 in
      [b64_char (n div 262144), b64_char (n div 4096 mod 64), CHR ''='', CHR ''=''])"
| "base64 [] = []"

end
