(* ===== verification/Ws.thy ===== *)
theory Ws
  imports Base64 Sha Json Line_Reader Interfaces
begin

text \<open>
  \<open>codexmsg/ws.go\<close>: the client half of RFC 6455. A connection is the bytes still to come with
  what follows them, the bytes written so far, the kernel's answer to each write, and the random
  masks. After its bytes the other side may end the connection, or fall silent and leave it open:
  then a read that needs more bytes does not return.
\<close>

unbundle bit_operations_syntax

definition wsGUID :: gostring where "wsGUID = ''258EAFA5-E914-47DA-95CA-C5AB0DC85B11''"

definition opContinuation :: nat where "opContinuation = 0"
definition opText :: nat where "opText = 1"
definition opBinary :: nat where "opBinary = 2"
definition opClose :: nat where "opClose = 8"
definition opPing :: nat where "opPing = 9"
definition opPong :: nat where "opPong = 10"

definition maxFrame :: nat where "maxFrame = 16 * 2 ^ 20"

datatype stream_end = Ends read_err | Silent

record wsConn =
  ws_in :: bytes
  ws_end :: stream_end
  ws_out :: bytes
  ws_wfail :: "nat \<Rightarrow> bool"
  ws_writes :: nat
  ws_masks :: "nat \<Rightarrow> bytes"
  ws_nmask :: nat
  ws_open :: bool

definition wsAccept :: "gostring \<Rightarrow> gostring" where
  "wsAccept key = base64 (sha1_Sum (bytes_of (key @ wsGUID)))"

subsection \<open>Writing a frame\<close>

text \<open>\<open>binary.BigEndian\<close>, over \<open>k\<close> bytes.\<close>

fun put_be :: "nat \<Rightarrow> nat \<Rightarrow> bytes" where
  "put_be 0 n = []"
| "put_be (Suc k) n = word_of_nat (n div 256 ^ k) # put_be k n"

definition get_be :: "bytes \<Rightarrow> nat" where
  "get_be bs = foldl (\<lambda>n b. 256 * n + unat b) 0 bs"

text \<open>The length field: seven bits, and for longer payloads two or eight bytes more.\<close>

definition len_field :: "nat \<Rightarrow> nat \<times> bytes" where
  "len_field n = (if n < 126 then (n, []) else if n \<le> 0xFFFF then (126, put_be 2 n) else (127, put_be 8 n))"

definition mask_bytes :: "bytes \<Rightarrow> bytes \<Rightarrow> bytes" where
  "mask_bytes mk payload = map (\<lambda>i. payload ! i XOR mk ! (i mod 4)) [0..<length payload]"

definition ws_head :: "nat \<Rightarrow> nat \<Rightarrow> bytes" where
  "ws_head opcode n =
     (case len_field n of (l, ext) \<Rightarrow> [0x80 OR word_of_nat opcode, 0x80 OR word_of_nat l] @ ext)"

text \<open>The errors of the code, and \<open>WsBlocked\<close> for a read that has not returned.\<close>

datatype ws_error =
    WsRead read_err
  | WsBlocked
  | WsUnexpectedEOF
  | WsWrite
  | WsTooLarge nat
  | WsDataInside
  | WsNothingToContinue
  | WsUnknownOpcode nat

text \<open>One write of the connection.\<close>

definition ws_write :: "wsConn \<Rightarrow> bytes \<Rightarrow> ws_error option \<times> wsConn" where
  "ws_write w b =
     (if ws_wfail w (ws_writes w) then (Some WsWrite, w\<lparr>ws_writes := ws_writes w + 1\<rparr>)
      else (None, w\<lparr>ws_out := ws_out w @ b, ws_writes := ws_writes w + 1\<rparr>))"

definition writeFrame :: "wsConn \<Rightarrow> nat \<Rightarrow> bytes \<Rightarrow> ws_error option \<times> wsConn" where
  "writeFrame w opcode payload =
     (let mk = ws_masks w (ws_nmask w);
          w1 = w\<lparr>ws_nmask := ws_nmask w + 1\<rparr>
      in case ws_write w1 (ws_head opcode (length payload) @ mk) of
           (Some e, w2) \<Rightarrow> (Some e, w2)
         | (None, w2) \<Rightarrow> if payload = [] then (None, w2) else ws_write w2 (mask_bytes mk payload))"

definition WriteText :: "wsConn \<Rightarrow> bytes \<Rightarrow> ws_error option \<times> wsConn" where
  "WriteText w payload = writeFrame w opText payload"

subsection \<open>Reading a frame\<close>

text \<open>\<open>io.ReadFull\<close> of \<open>n\<close> bytes from a stream after which comes \<open>e\<close>.\<close>

definition readFull :: "stream_end \<Rightarrow> nat \<Rightarrow> bytes \<Rightarrow> ws_error + bytes \<times> bytes" where
  "readFull e n s =
     (if n \<le> length s then Inr (take n s, drop n s)
      else case e of
             Silent \<Rightarrow> Inl WsBlocked
           | Ends x \<Rightarrow> if x = EOF \<and> s \<noteq> [] then Inl WsUnexpectedEOF else Inl (WsRead x))"

definition read_ext :: "stream_end \<Rightarrow> nat \<Rightarrow> bytes \<Rightarrow> ws_error + nat \<times> bytes" where
  "read_ext e k s = (case readFull e k s of Inl x \<Rightarrow> Inl x | Inr (ext, t) \<Rightarrow> Inr (get_be ext, t))"

definition read_length :: "stream_end \<Rightarrow> nat \<Rightarrow> bytes \<Rightarrow> ws_error + nat \<times> bytes" where
  "read_length e l s = (if l = 126 then read_ext e 2 s else if l = 127 then read_ext e 8 s else Inr (l, s))"

text \<open>\<open>readFrame\<close>: the opcode, the payload, the FIN bit and the rest of the stream.\<close>

definition readFrame :: "stream_end \<Rightarrow> bytes \<Rightarrow> ws_error + (nat \<times> bytes \<times> bool) \<times> bytes" where
  "readFrame e s =
     (case readFull e 2 s of
        Inl x \<Rightarrow> Inl x
      | Inr (head, s1) \<Rightarrow>
          let isfin = (head ! 0 AND 0x80 \<noteq> 0);
              opcode = unat (head ! 0 AND 0x0F);
              masked = (head ! 1 AND 0x80 \<noteq> 0)
          in case read_length e (unat (head ! 1 AND 0x7F)) s1 of
               Inl x \<Rightarrow> Inl x
             | Inr (n, s2) \<Rightarrow>
                 if maxFrame < n then Inl (WsTooLarge n)
                 else (case (if masked then readFull e 4 s2 else Inr ([], s2)) of
                         Inl x \<Rightarrow> Inl x
                       | Inr (mk, s3) \<Rightarrow>
                           (case readFull e n s3 of
                              Inl x \<Rightarrow> Inl x
                            | Inr (payload, s4) \<Rightarrow>
                                Inr ((opcode, if masked then mask_bytes mk payload else payload, isfin), s4))))"

lemma readFull_length: "readFull e n s = Inr (x, t) \<Longrightarrow> length s = n + length t \<and> s = x @ t"
  by (auto simp: readFull_def split: if_splits stream_end.splits)

lemma readFull_append [simp]: "length x = n \<Longrightarrow> readFull e n (x @ t) = Inr (x, t)"
  by (simp add: readFull_def)

lemma read_length_length: "read_length e l s = Inr (n, t) \<Longrightarrow> length t \<le> length s"
  by (auto simp: read_length_def read_ext_def dest!: readFull_length split: if_splits sum.splits)

lemma readFrame_shrinks: "readFrame e s = Inr (f, t) \<Longrightarrow> length t < length s"
  by (fastforce simp: readFrame_def Let_def dest!: readFull_length read_length_length
      split: sum.splits prod.splits if_splits)

subsection \<open>Messages\<close>

lemma ws_write_in [simp]:
  "ws_in (snd (ws_write w b)) = ws_in w" "ws_end (snd (ws_write w b)) = ws_end w" "ws_open (snd (ws_write w b)) = ws_open w"
  by (simp_all add: ws_write_def)

lemma writeFrame_in [simp]:
  "ws_in (snd (writeFrame w op p)) = ws_in w" "ws_end (snd (writeFrame w op p)) = ws_end w"
  "ws_open (snd (writeFrame w op p)) = ws_open w"
  by (auto simp: writeFrame_def Let_def ws_write_def split: prod.splits option.splits)

lemma writeFrame_same: "(r, w') = writeFrame w op p \<Longrightarrow> ws_in w' = ws_in w"
  using writeFrame_in(1) [of w op p] by (metis snd_conv)

text \<open>
  \<open>ReadMessage\<close>: the loop has the buffer and the opcode of the message in progress, \<open>msgOp\<close>,
  which is 0 when there is none.
\<close>

function read_message :: "bytes \<Rightarrow> nat \<Rightarrow> wsConn \<Rightarrow> (ws_error + bytes) \<times> wsConn" where
  "read_message buf msgOp w =
     (case readFrame (ws_end w) (ws_in w) of
        Inl x \<Rightarrow> (Inl x, w)
      | Inr ((op, payload, isfin), s) \<Rightarrow>
          let w = w\<lparr>ws_in := s\<rparr> in
          if op = opPing then
            (case writeFrame w opPong payload of
               (Some x, w') \<Rightarrow> (Inl x, w')
             | (None, w') \<Rightarrow> read_message buf msgOp w')
          else if op = opPong then read_message buf msgOp w
          else if op = opClose then (Inl (WsRead EOF), snd (writeFrame w opClose payload))
          else if op = opText \<or> op = opBinary then
            (if buf \<noteq> [] then (Inl WsDataInside, w)
             else if isfin then (Inr payload, w)
             else read_message payload op w)
          else if op = opContinuation then
            (if msgOp = 0 then (Inl WsNothingToContinue, w)
             else if isfin then (Inr (buf @ payload), w)
             else read_message (buf @ payload) msgOp w)
          else (Inl (WsUnknownOpcode op), w))"
  by pat_completeness auto
termination
  by (relation "measure (\<lambda>(_, _, w). length (ws_in w))")
    (auto dest!: readFrame_shrinks sym [of "Inr _"] writeFrame_same)

declare read_message.simps [simp del]

definition ReadMessage :: "wsConn \<Rightarrow> (ws_error + bytes) \<times> wsConn" where
  "ReadMessage w = read_message [] 0 w"

text \<open>\<open>Close\<close>: the close frame and the end of the connection, which refuses every later write.\<close>

definition WsClose :: "wsConn \<Rightarrow> wsConn" where
  "WsClose w = (snd (writeFrame w opClose (put_be 2 1000)))\<lparr>ws_open := False, ws_wfail := (\<lambda>_. True)\<rparr>"

text \<open>Only a stream that falls silent blocks a read.\<close>

lemma readFull_blocked: "readFull e n s = Inl WsBlocked \<Longrightarrow> e = Silent"
  by (auto simp: readFull_def split: if_splits stream_end.splits)

lemma readFrame_blocked: "readFrame e s = Inl WsBlocked \<Longrightarrow> e = Silent"
  by (auto simp: readFrame_def read_length_def read_ext_def Let_def dest: readFull_blocked
      split: sum.splits prod.splits if_splits)

lemma writeFrame_not_blocked: "writeFrame w op p \<noteq> (Some WsBlocked, w')"
  by (auto simp: writeFrame_def ws_write_def Let_def split: prod.splits option.splits)

text \<open>
  What \<open>ReadMessage\<close> may do to the connection: a message read takes at least one byte off the
  stream, and so does an answered ping; it only appends to what was written.
\<close>

lemma ws_write_appends: "\<exists>z. ws_out (snd (ws_write w b)) = ws_out w @ z"
  by (simp add: ws_write_def)

lemma writeFrame_appends: "\<exists>z. ws_out (snd (writeFrame w op p)) = ws_out w @ z"
  by (auto simp: writeFrame_def Let_def ws_write_def split: prod.splits option.splits)

lemma read_message_effect:
  "read_message buf op w = (r, w') \<Longrightarrow>
     length (ws_in w') \<le> length (ws_in w) \<and> (isl r \<or> length (ws_in w') < length (ws_in w))
     \<and> ws_end w' = ws_end w \<and> ws_open w' = ws_open w \<and> (r = Inl WsBlocked \<longrightarrow> ws_end w = Silent) \<and> (\<exists>z. ws_out w' = ws_out w @ z)"
  (is "_ \<Longrightarrow> ?P w r w'")
proof (induction "length (ws_in w)" arbitrary: buf op w rule: less_induct)
  case less
  show ?case
  proof (cases "readFrame (ws_end w) (ws_in w)")
    case (Inl x)
    then show ?thesis using less.prems readFrame_blocked by (subst (asm) read_message.simps) auto
  next
    case (Inr q)
    obtain opc p isfin t where q: "q = ((opc, p, isfin), t)" by (metis surj_pair)
    have l: "length t < length (ws_in w)" using readFrame_shrinks Inr q by blast
    let ?w = "w\<lparr>ws_in := t\<rparr>"
    have next_frame: "?P w r w'"
      if "read_message buf' op' v = (r, w')" "ws_in v = t" "ws_end v = ws_end w" "ws_open v = ws_open w" "\<exists>z. ws_out v = ws_out w @ z" for buf' op' v
      using less.hyps [OF _ that(1)] that(2-5) l by auto
    obtain x v where v: "writeFrame ?w opPong p = (x, v)" by force
    have vt: "ws_in v = t" "ws_end v = ws_end w" "ws_open v = ws_open w" "\<exists>z. ws_out v = ws_out w @ z" "x \<noteq> Some WsBlocked"
      using writeFrame_in [of ?w opPong p] writeFrame_appends [of ?w opPong p] writeFrame_not_blocked [of ?w opPong p v] v
      by auto
    have ct: "ws_in (snd (writeFrame ?w opClose p)) = t" "ws_end (snd (writeFrame ?w opClose p)) = ws_end w"
      "ws_open (snd (writeFrame ?w opClose p)) = ws_open w" "\<exists>z. ws_out (snd (writeFrame ?w opClose p)) = ws_out w @ z"
      using writeFrame_appends [of ?w opClose p] by simp_all
    note e = less.prems [unfolded read_message.simps [of buf op w] Inr q sum.case prod.case Let_def]
    show ?thesis
    proof (cases "opc = opPing")
      case True
      then show ?thesis
        using e v vt l next_frame [of buf op v] by (cases x) auto
    next
      case False
      then show ?thesis
        using e ct l next_frame [where v = ?w] by (auto split: if_splits)
    qed
  qed
qed

lemma ReadMessage_effect:
  "ReadMessage w = (Inl e, w') \<Longrightarrow> length (ws_in w') \<le> length (ws_in w)"
  "ReadMessage w = (Inr p, w') \<Longrightarrow> length (ws_in w') < length (ws_in w)"
  "ReadMessage w = (r, w') \<Longrightarrow> ws_end w' = ws_end w \<and> ws_open w' = ws_open w"
  "ReadMessage w = (Inl WsBlocked, w') \<Longrightarrow> ws_end w = Silent"
  unfolding ReadMessage_def by (auto dest: read_message_effect)

subsection \<open>Frames on the wire\<close>

text \<open>A frame of either side: with or without FIN, masked or not.\<close>

definition ws_frame :: "bool \<Rightarrow> bytes option \<Rightarrow> nat \<Rightarrow> bytes \<Rightarrow> bytes" where
  "ws_frame isfin mo op p =
     (case len_field (length p) of (l, ext) \<Rightarrow>
        [(if isfin then 0x80 else 0) OR word_of_nat op, (if mo = None then 0 else 0x80) OR word_of_nat l] @ ext)
     @ (case mo of None \<Rightarrow> p | Some mk \<Rightarrow> mk @ mask_bytes mk p)"

definition ws_ok :: "bytes option \<Rightarrow> nat \<Rightarrow> bytes \<Rightarrow> bool" where
  "ws_ok mo op p \<longleftrightarrow> op < 16 \<and> length p \<le> maxFrame \<and> (case mo of None \<Rightarrow> True | Some mk \<Rightarrow> length mk = 4)"

lemma bit_0x80: "bit (0x80 :: 8 word) i \<longleftrightarrow> i = 7"
  using bit_exp_iff [of 7 i, where ?'a = "8 word"] by auto

lemma low_bits:
  assumes "n < 2 ^ k" "k \<le> 7"
  shows "unat (((if b then 0x80 else 0) OR word_of_nat n :: 8 word) AND mask k) = n"
proof -
  have z: "(0x80 :: 8 word) AND mask k = 0"
    using assms(2) by (intro bit_word_eqI) (auto simp: bit_and_iff bit_mask_iff bit_0x80 simp del: bit_numeral_word_iff)
  have n: "n < 256" using assms less_le_trans [OF assms(1), of 256] power_increasing [OF assms(2), of "2::nat"] by simp
  have "((if b then 0x80 else 0) OR word_of_nat n :: 8 word) AND mask k = word_of_nat n AND mask k"
    using z by (simp add: bit.conj_disj_distrib2)
  also have "\<dots> = word_of_nat n"
  proof -
    have "take_bit k (word_of_nat n :: 8 word) = word_of_nat (take_bit k n)"
      by (rule bit_word_eqI) (auto simp: bit_take_bit_iff bit_of_nat_iff)
    then show ?thesis using assms(1) by (simp add: take_bit_eq_mask [symmetric] take_bit_nat_eq_self)
  qed
  finally show ?thesis using n by (simp add: unat_of_nat)
qed

lemma high_bit:
  assumes "n < 128"
  shows "((if b then 0x80 else 0) OR word_of_nat n :: 8 word) AND 0x80 \<noteq> 0 \<longleftrightarrow> b"
proof -
  have "\<not> bit n 7" using assms by (simp add: bit_iff_odd)
  then have "(word_of_nat n :: 8 word) AND 0x80 = 0"
    by (intro bit_word_eqI) (auto simp: bit_and_iff bit_of_nat_iff bit_0x80 simp del: bit_numeral_word_iff)
  then have "((if b then 0x80 else 0) OR word_of_nat n :: 8 word) AND 0x80 = (if b then 0x80 else 0)"
    by (simp add: bit.conj_disj_distrib2)
  then show ?thesis by simp
qed

lemma mask_bytes_twice: "mask_bytes mk (mask_bytes mk p) = p"
  by (rule nth_equalityI) (simp_all add: mask_bytes_def xor.assoc)

lemma length_mask_bytes [simp]: "length (mask_bytes mk p) = length p"
  by (simp add: mask_bytes_def)

lemma length_put_be [simp]: "length (put_be k n) = k"
  by (induction k) simp_all

lemma get_be_put_be: "n < 256 ^ k \<Longrightarrow> get_be (put_be k n) = n"
proof -
  have "foldl (\<lambda>n b. 256 * n + unat b) acc (put_be k n) = acc * 256 ^ k + n mod 256 ^ k" for acc
  proof (induction k arbitrary: acc)
    case (Suc k)
    have "n mod (256 ^ k * 256) = 256 ^ k * (n div 256 ^ k mod 256) + n mod 256 ^ k" by (rule mod_mult2_eq)
    then show ?case by (simp add: Suc unat_of_nat) (simp add: algebra_simps)
  qed simp
  then show "n < 256 ^ k \<Longrightarrow> get_be (put_be k n) = n" by (simp add: get_be_def)
qed

lemma read_length_field:
  assumes "len_field n = (l, ext)" "n \<le> maxFrame"
  shows "l < 128 \<and> read_length e l (ext @ rest) = Inr (n, rest)"
proof -
  have m: "n < 256 ^ 8" "n \<le> 0xFFFF \<Longrightarrow> n < 256 ^ 2" using assms(2) by (simp_all add: maxFrame_def)
  consider "l = n" "ext = []" "n < 126" | "l = 126" "ext = put_be 2 n" "n \<le> 0xFFFF" | "l = 127" "ext = put_be 8 n"
    using assms(1) by (auto simp: len_field_def split: if_splits)
  then show ?thesis
    by cases (simp_all add: read_length_def read_ext_def get_be_put_be [OF m(1)] get_be_put_be [OF m(2)])
qed

lemma readFrame_ws_frame:
  assumes "ws_ok mo op p"
  shows "readFrame e (ws_frame isfin mo op p @ rest) = Inr ((op, p, isfin), rest)"
proof -
  obtain l ext where l: "len_field (length p) = (l, ext)" by force
  have ok: "op < 16" "length p \<le> maxFrame" using assms by (auto simp: ws_ok_def)
  note len = read_length_field [OF l ok(2)]
  let ?b0 = "(if isfin then 0x80 else 0) OR word_of_nat op :: 8 word"
    and ?b1 = "(if mo \<noteq> None then 0x80 else 0) OR word_of_nat l :: 8 word"
  have f: "?b0 AND 0x80 \<noteq> 0 \<longleftrightarrow> isfin" "?b1 AND 0x80 \<noteq> 0 \<longleftrightarrow> mo \<noteq> None"
    using high_bit [of op isfin] high_bit [of l "mo \<noteq> None"] ok len by auto
  have "mask 4 = (0x0F :: 8 word)" "mask 7 = (0x7F :: 8 word)" by (simp_all add: mask_eq_exp_minus_1)
  then have lo: "unat (?b0 AND 0x0F) = op" "unat (?b1 AND 0x7F) = l"
    using low_bits [of op 4 isfin] low_bits [of l 7 "mo \<noteq> None"] ok len by simp_all
  let ?tail = "(case mo of None \<Rightarrow> p | Some mk \<Rightarrow> mk @ mask_bytes mk p) @ rest"
  have "ws_frame isfin mo op p @ rest = [?b0, ?b1] @ ext @ ?tail" by (simp add: ws_frame_def l)
  moreover have "readFull e 2 ([?b0, ?b1] @ ext @ ?tail) = Inr ([?b0, ?b1], ext @ ?tail)" by (rule readFull_append) simp
  ultimately show ?thesis
    using len ok(2) f lo assms
    by (cases mo) (simp_all add: readFrame_def Let_def ws_ok_def mask_bytes_twice)
qed

lemma writeFrame_ok:
  assumes "\<And>n. \<not> ws_wfail w n"
  obtains k where "writeFrame w op p =
    (None, w\<lparr>ws_out := ws_out w @ ws_frame True (Some (ws_masks w (ws_nmask w))) op p,
       ws_nmask := ws_nmask w + 1, ws_writes := k\<rparr>)"
  using assms
  by (cases w; cases "p = []") (auto simp: writeFrame_def ws_write_def Let_def ws_head_def ws_frame_def mask_bytes_def
      split: prod.splits)

text \<open>The frames a client writes, read one by one.\<close>

definition read_ws :: "bytes \<Rightarrow> ((nat \<times> bytes \<times> bool) \<times> bytes) option" where
  "read_ws s = (case readFrame (Ends EOF) s of Inl _ \<Rightarrow> None | Inr x \<Rightarrow> Some x)"

interpretation ws_frames: framing "\<lambda>(mk, op, p). ws_ok (Some mk) op p" "\<lambda>(mk, op, p). ws_frame True (Some mk) op p"
  read_ws "\<lambda>(mk, op, p). (op, p, True)"
proof
  show "read_ws ((case x of (mk, op, p) \<Rightarrow> ws_frame True (Some mk) op p) @ rest)
      = Some (case x of (mk, op, p) \<Rightarrow> (op, p, True), rest)"
    if "case x of (mk, op, p) \<Rightarrow> ws_ok (Some mk) op p" for x rest
    using that by (cases x) (simp add: read_ws_def readFrame_ws_frame)
  show "read_ws [] = None" by (simp add: read_ws_def readFrame_def readFull_def)
qed

text \<open>
  (C20) Every frame \<open>writeFrame\<close> sends is read back by \<open>readFrame\<close> as it was given, for all
  three encodings of the length and every mask, leaving what follows it on the stream; it is a
  single final frame and the payload is masked.
\<close>

theorem ws_frame_round_trip:
  assumes "\<And>n. \<not> ws_wfail w n" "length (ws_masks w (ws_nmask w)) = 4" "op < 16" "length p \<le> maxFrame"
  shows "\<exists>bs. fst (writeFrame w op p) = None \<and> ws_out (snd (writeFrame w op p)) = ws_out w @ bs
    \<and> readFrame e (bs @ rest) = Inr ((op, p, True), rest) \<and> bs ! 1 AND 0x80 \<noteq> 0"
proof -
  let ?mk = "ws_masks w (ws_nmask w)"
  obtain k where k: "writeFrame w op p = (None, w\<lparr>ws_out := ws_out w @ ws_frame True (Some ?mk) op p,
       ws_nmask := ws_nmask w + 1, ws_writes := k\<rparr>)" using writeFrame_ok [OF assms(1)] by blast
  have ok: "ws_ok (Some ?mk) op p" using assms(2-4) by (simp add: ws_ok_def)
  obtain l ext where l: "len_field (length p) = (l, ext)" by force
  have "l < 128" using read_length_field [OF l assms(4)] by simp
  then have "ws_frame True (Some ?mk) op p ! 1 AND 0x80 \<noteq> 0"
    using high_bit [of l True] by (simp add: ws_frame_def l)
  then show ?thesis using readFrame_ws_frame [OF ok] k by (intro exI [of _ "ws_frame True (Some ?mk) op p"]) simp
qed

definition sample_ws :: wsConn where
  "sample_ws = \<lparr>ws_in = [], ws_end = Ends EOF, ws_out = [], ws_wfail = (\<lambda>_. False), ws_writes = 0,
     ws_masks = (\<lambda>_. [1, 2, 3, 4]), ws_nmask = 0, ws_open = True\<rparr>"

theorem ws_frame_round_trip_witness:
  "\<exists>bs. ws_out (snd (writeFrame sample_ws opText [65, 66])) = bs
     \<and> readFrame (Ends EOF) (bs @ [7]) = Inr ((opText, [65, 66], True), [7])"
  using ws_frame_round_trip [of sample_ws opText "[65, 66]" "Ends EOF" "[7]"]
  by (auto simp: sample_ws_def opText_def maxFrame_def)

text \<open>
  Whatever a peer sends, a frame that \<open>readFrame\<close> returns is bounded: its payload is
  within the cap, its opcode is four bits, and at least two bytes of the stream were consumed,
  so every loop over frames ends.
\<close>

theorem read_frame_bounds:
  "case readFrame e s of
     Inl _ \<Rightarrow> True
   | Inr ((op, p, isfin), t) \<Rightarrow> length p \<le> maxFrame \<and> op < 16 \<and> length t + 2 \<le> length s"
proof -
  have op: "unat (b AND 0x0F) < 16" for b :: "8 word"
    using word_and_le1 [of b "0x0F"] by (simp add: word_le_nat_alt)
  show ?thesis
    by (auto simp: readFrame_def Let_def op split: sum.splits prod.splits if_splits
        dest!: readFull_length read_length_length)
qed

subsection \<open>Messages on the wire\<close>

text \<open>
  The frames of one message as a peer may send them: fragments with pings and pongs between
  them. The first fragment has the opcode of the message, the others are continuations, and
  the last frame is the final fragment.
\<close>

datatype ws_item = Ctl "bytes option" nat bytes | Frag "bytes option" bytes

fun item_stream :: "nat \<Rightarrow> bool \<Rightarrow> ws_item list \<Rightarrow> bytes" where
  "item_stream op started [] = []"
| "item_stream op started (Ctl mo c p # is) = ws_frame True mo c p @ item_stream op started is"
| "item_stream op started (Frag mo p # is) =
     ws_frame (is = []) mo (if started then opContinuation else op) p @ item_stream op True is"

fun item_ok :: "ws_item \<Rightarrow> bool" where
  "item_ok (Ctl mo c p) = (c \<in> {opPing, opPong} \<and> ws_ok mo c p)"
| "item_ok (Frag mo p) = ws_ok mo opText p"

fun is_frag :: "ws_item \<Rightarrow> bool" where
  "is_frag (Frag _ _) = True"
| "is_frag (Ctl _ _ _) = False"

fun body :: "ws_item list \<Rightarrow> bytes" where
  "body [] = []"
| "body (Ctl _ _ _ # is) = body is"
| "body (Frag _ p # is) = p @ body is"

text \<open>The pongs that answer the pings, with the masks in the order they are drawn.\<close>

fun pongs :: "(nat \<Rightarrow> bytes) \<Rightarrow> nat \<Rightarrow> ws_item list \<Rightarrow> bytes" where
  "pongs mks n [] = []"
| "pongs mks n (Ctl _ c p # is) =
     (if c = opPing then ws_frame True (Some (mks n)) opPong p @ pongs mks (Suc n) is else pongs mks n is)"
| "pongs mks n (Frag _ _ # is) = pongs mks n is"

lemmas opcodes = opContinuation_def opText_def opBinary_def opClose_def opPing_def opPong_def

lemma read_message_items:
  assumes "list_all item_ok is" "is \<noteq> []" "is_frag (last is)" "op \<in> {opText, opBinary}"
    and "started \<longrightarrow> msgOp \<noteq> 0" "\<not> started \<longrightarrow> buf = []" "\<And>n. \<not> ws_wfail w n"
    and "ws_in w = item_stream op started is @ rest"
  shows "\<exists>w'. read_message buf msgOp w = (Inr (buf @ body is), w') \<and> ws_in w' = rest
    \<and> ws_out w' = ws_out w @ pongs (ws_masks w) (ws_nmask w) is"
  using assms
proof (induction "is" arbitrary: started msgOp buf w)
  case (Cons i "is")
  show ?case
  proof (cases i)
    case (Ctl mo c p)
    have ne: "is \<noteq> []" "is_frag (last is)" using Cons.prems(3) Ctl by (auto split: if_splits)
    have rf: "readFrame (ws_end w) (ws_in w) = Inr ((c, p, True), item_stream op started is @ rest)"
      using Cons.prems(1,8) Ctl by (simp add: readFrame_ws_frame)
    let ?w = "w\<lparr>ws_in := item_stream op started is @ rest\<rparr>"
    show ?thesis
    proof (cases "c = opPing")
      case True
      have nf: "\<And>n. \<not> ws_wfail ?w n" using Cons.prems(7) by simp
      obtain k where k: "writeFrame ?w opPong p = (None, ?w\<lparr>ws_out := ws_out ?w @
          ws_frame True (Some (ws_masks ?w (ws_nmask ?w))) opPong p, ws_nmask := ws_nmask ?w + 1, ws_writes := k\<rparr>)"
        using writeFrame_ok [OF nf] by blast
      let ?v = "?w\<lparr>ws_out := ws_out ?w @ ws_frame True (Some (ws_masks ?w (ws_nmask ?w))) opPong p,
          ws_nmask := ws_nmask ?w + 1, ws_writes := k\<rparr>"
      have "read_message buf msgOp w = read_message buf msgOp ?v"
        using True k by (simp add: read_message.simps [of buf msgOp w] rf)
      moreover obtain w' where "read_message buf msgOp ?v = (Inr (buf @ body is), w')" "ws_in w' = rest"
          "ws_out w' = ws_out ?v @ pongs (ws_masks ?v) (ws_nmask ?v) is"
        using Cons.IH [of started msgOp buf ?v] Cons.prems ne by auto
      ultimately show ?thesis using Ctl True by (intro exI [of _ w']) simp
    next
      case False
      then have "c = opPong" using Cons.prems(1) Ctl by simp
      then have "read_message buf msgOp w = read_message buf msgOp ?w"
        by (simp add: read_message.simps [of buf msgOp w] rf opcodes)
      then show ?thesis using Cons.IH [of started msgOp buf ?w] Cons.prems ne Ctl False by auto
    qed
  next
    case (Frag mo p)
    let ?op = "if started then opContinuation else op"
    let ?w = "w\<lparr>ws_in := item_stream op True is @ rest\<rparr>"
    have "ws_ok mo ?op p" using Cons.prems(1,4) Frag by (auto simp: ws_ok_def opcodes split: option.splits)
    then have rf: "readFrame (ws_end w) (ws_in w) = Inr ((?op, p, is = []), item_stream op True is @ rest)"
      using Cons.prems(8) Frag by (simp add: readFrame_ws_frame)
    have step: "read_message buf msgOp w =
        (if is = [] then (Inr (buf @ p), ?w) else read_message (buf @ p) (if started then msgOp else op) ?w)"
      using Cons.prems(4-6) by (auto simp: read_message.simps [of buf msgOp w] rf opcodes)
    show ?thesis
    proof (cases "is = []")
      case True
      then show ?thesis using step Frag by (intro exI [of _ ?w]) simp
    next
      case False
      have "(if started then msgOp else op) \<noteq> 0" using Cons.prems(4,5) by (auto simp: opcodes)
      then show ?thesis
        using Cons.IH [of True "if started then msgOp else op" "buf @ p" ?w] Cons.prems False Frag step by auto
    qed
  qed
qed simp

text \<open>
  (C21) A message is reassembled however the peer fragments it: for any split into text or
  binary fragments, masked or not, with any pings and pongs between them, \<open>ReadMessage\<close>
  returns the concatenation of the fragments, answers every ping with its own payload and in
  order, writes nothing else, and leaves the stream at the next message.
\<close>

theorem fragmented_message_reassembled:
  assumes "list_all item_ok is" "is \<noteq> []" "is_frag (last is)" "op \<in> {opText, opBinary}"
    and "\<And>n. \<not> ws_wfail w n" "ws_in w = item_stream op False is @ rest"
  shows "\<exists>w'. ReadMessage w = (Inr (body is), w') \<and> ws_in w' = rest
    \<and> ws_out w' = ws_out w @ pongs (ws_masks w) (ws_nmask w) is"
  using read_message_items [OF assms(1-4) _ _ assms(5,6), of 0 "[]"] by (simp add: ReadMessage_def)

definition sample_items :: "ws_item list" where
  "sample_items = [Frag None [1, 2], Ctl None opPing [9], Frag (Some [1, 2, 3, 4]) [3]]"

theorem fragmented_message_reassembled_witness:
  "\<exists>w'. ReadMessage (sample_ws\<lparr>ws_in := item_stream opText False sample_items @ [5]\<rparr>) = (Inr [1, 2, 3], w')
     \<and> ws_in w' = [5] \<and> ws_out w' = ws_frame True (Some [1, 2, 3, 4]) opPong [9]"
  using fragmented_message_reassembled [of sample_items opText
      "sample_ws\<lparr>ws_in := item_stream opText False sample_items @ [5]\<rparr>" "[5]"]
  by (simp add: sample_items_def sample_ws_def ws_ok_def opcodes maxFrame_def)

text \<open>The frames of a message that is still open: no fragment of it is the final one.\<close>

fun open_stream :: "nat \<Rightarrow> bool \<Rightarrow> ws_item list \<Rightarrow> bytes" where
  "open_stream op begun [] = []"
| "open_stream op begun (Ctl mo c p # is) = ws_frame True mo c p @ open_stream op begun is"
| "open_stream op begun (Frag mo p # is) =
     ws_frame False mo (if begun then opContinuation else op) p @ open_stream op True is"

fun pings :: "ws_item list \<Rightarrow> nat" where
  "pings [] = 0"
| "pings (Ctl _ c _ # is) = (if c = opPing then Suc (pings is) else pings is)"
| "pings (Frag _ _ # is) = pings is"

text \<open>
  Reading them leaves the loop with the body so far and the opcode of the message, the pings
  answered, in front of whatever comes next.
\<close>

lemma read_message_open:
  assumes "list_all item_ok is" "op \<in> {opText, opBinary}" "if begun then msgOp = op else msgOp = 0 \<and> buf = []"
    and "\<And>n. \<not> ws_wfail w n" "ws_in w = open_stream op begun is @ rest"
  shows "\<exists>k. read_message buf msgOp w =
    read_message (buf @ body is) (if begun \<or> list_ex is_frag is then op else 0)
      (w\<lparr>ws_in := rest, ws_out := ws_out w @ pongs (ws_masks w) (ws_nmask w) is,
         ws_nmask := ws_nmask w + pings is, ws_writes := k\<rparr>)"
  using assms
proof (induction "is" arbitrary: begun msgOp buf w)
  case Nil
  then have "w = w\<lparr>ws_in := rest, ws_out := ws_out w, ws_nmask := ws_nmask w, ws_writes := ws_writes w\<rparr>" by simp
  then show ?case using Nil.prems(3) by (intro exI [of _ "ws_writes w"]) (auto split: if_splits)
next
  case (Cons i "is")
  show ?case
  proof (cases i)
    case (Ctl mo c p)
    have rf: "readFrame (ws_end w) (ws_in w) = Inr ((c, p, True), open_stream op begun is @ rest)"
      using Cons.prems(1,5) Ctl by (simp add: readFrame_ws_frame)
    let ?w = "w\<lparr>ws_in := open_stream op begun is @ rest\<rparr>"
    show ?thesis
    proof (cases "c = opPing")
      case True
      have nf: "\<And>n. \<not> ws_wfail ?w n" using Cons.prems(4) by simp
      obtain k where k: "writeFrame ?w opPong p = (None, ?w\<lparr>ws_out := ws_out ?w @
          ws_frame True (Some (ws_masks ?w (ws_nmask ?w))) opPong p, ws_nmask := ws_nmask ?w + 1, ws_writes := k\<rparr>)"
        using writeFrame_ok [OF nf] by blast
      let ?v = "?w\<lparr>ws_out := ws_out ?w @ ws_frame True (Some (ws_masks ?w (ws_nmask ?w))) opPong p,
          ws_nmask := ws_nmask ?w + 1, ws_writes := k\<rparr>"
      have "read_message buf msgOp w = read_message buf msgOp ?v"
        using True k by (simp add: read_message.simps [of buf msgOp w] rf)
      then show ?thesis using Cons.IH [of begun msgOp buf ?v] Cons.prems Ctl True by simp
    next
      case False
      then have "c = opPong" using Cons.prems(1) Ctl by simp
      then have "read_message buf msgOp w = read_message buf msgOp ?w"
        by (simp add: read_message.simps [of buf msgOp w] rf opcodes)
      then show ?thesis using Cons.IH [of begun msgOp buf ?w] Cons.prems Ctl False by simp
    qed
  next
    case (Frag mo p)
    let ?op = "if begun then opContinuation else op"
    let ?w = "w\<lparr>ws_in := open_stream op True is @ rest\<rparr>"
    have "ws_ok mo ?op p" using Cons.prems(1,2) Frag by (auto simp: ws_ok_def opcodes split: option.splits)
    then have rf: "readFrame (ws_end w) (ws_in w) = Inr ((?op, p, False), open_stream op True is @ rest)"
      using Cons.prems(5) Frag by (simp add: readFrame_ws_frame)
    have "read_message buf msgOp w = read_message (buf @ p) op ?w"
      using Cons.prems(2,3) by (auto simp: read_message.simps [of buf msgOp w] rf opcodes split: if_splits)
    then show ?thesis using Cons.IH [of True op "buf @ p" ?w] Cons.prems Frag by simp
  qed
qed

text \<open>
  (C37) How a message that is never completed ends, whatever fragments, pings and pongs came
  before: at a close frame the connection ends cleanly and the close is echoed; an opcode outside
  the protocol, a continuation when no message was begun, and a new data frame when the message
  begun has some content are refused; nothing but the pongs (and the echo) was written, and the
  stream stands behind the offending frame. A new final data frame is not refused when the
  message begun is still empty, although it was begun: the new one is returned and the other is lost.
\<close>

theorem broken_messages_end:
  assumes "list_all item_ok is" "op \<in> {opText, opBinary}" "\<And>n. \<not> ws_wfail w n" "ws_ok mo c q"
    and "ws_in w = open_stream op False is @ ws_frame isfin mo c q @ rest"
  defines "r \<equiv> fst (ReadMessage w)" and "w' \<equiv> snd (ReadMessage w)"
    and "answered \<equiv> ws_out w @ pongs (ws_masks w) (ws_nmask w) is"
  shows "(c = opClose \<longrightarrow> r = Inl (WsRead EOF) \<and> ws_in w' = rest
        \<and> ws_out w' = answered @ ws_frame True (Some (ws_masks w (ws_nmask w + pings is))) opClose q)
    \<and> (c \<notin> {opContinuation, opText, opBinary, opClose, opPing, opPong} \<longrightarrow>
        r = Inl (WsUnknownOpcode c) \<and> ws_in w' = rest \<and> ws_out w' = answered)
    \<and> (c = opContinuation \<and> \<not> list_ex is_frag is \<longrightarrow>
        r = Inl WsNothingToContinue \<and> ws_in w' = rest \<and> ws_out w' = answered)
    \<and> (c \<in> {opText, opBinary} \<and> body is \<noteq> [] \<longrightarrow>
        r = Inl WsDataInside \<and> ws_in w' = rest \<and> ws_out w' = answered)
    \<and> (c \<in> {opText, opBinary} \<and> body is = [] \<and> isfin \<longrightarrow>
        r = Inr q \<and> ws_in w' = rest \<and> ws_out w' = answered)"
proof -
  let ?m = "if list_ex is_frag is then op else 0"
  obtain k where k: "ReadMessage w = read_message (body is) ?m
      (w\<lparr>ws_in := ws_frame isfin mo c q @ rest, ws_out := answered, ws_nmask := ws_nmask w + pings is, ws_writes := k\<rparr>)"
    using read_message_open [OF assms(1,2) _ assms(3,5), of 0 "[]"] by (auto simp: ReadMessage_def answered_def)
  let ?v = "w\<lparr>ws_in := ws_frame isfin mo c q @ rest, ws_out := answered, ws_nmask := ws_nmask w + pings is, ws_writes := k\<rparr>"
  let ?u = "?v\<lparr>ws_in := rest\<rparr>"
  have rf: "readFrame (ws_end ?v) (ws_in ?v) = Inr ((c, q, isfin), rest)" using readFrame_ws_frame [OF assms(4)] by simp
  note step = k [unfolded read_message.simps [of "body is" ?m ?v] rf sum.case prod.case Let_def]
  have nf: "\<And>n. \<not> ws_wfail ?u n" using assms(3) by simp
  obtain j where j: "writeFrame ?u opClose q = (None, ?u\<lparr>ws_out := ws_out ?u @
      ws_frame True (Some (ws_masks ?u (ws_nmask ?u))) opClose q, ws_nmask := ws_nmask ?u + 1, ws_writes := j\<rparr>)"
    using writeFrame_ok [OF nf] by blast
  show ?thesis
    unfolding r_def w'_def
    by (intro conjI impI; use step j in \<open>(auto simp: opcodes; fail) | simp add: opcodes\<close>)
qed

theorem broken_messages_end_witness:
  "fst (ReadMessage (sample_ws\<lparr>ws_in := open_stream opText False [Frag None [1], Ctl None opPing [9]]
      @ ws_frame True None opText [7] @ [5]\<rparr>)) = Inl WsDataInside
   \<and> ws_out (snd (ReadMessage (sample_ws\<lparr>ws_in := open_stream opText False [Frag None [1], Ctl None opPing [9]]
      @ ws_frame True None opText [7] @ [5]\<rparr>))) = ws_frame True (Some [1, 2, 3, 4]) opPong [9]"
  using broken_messages_end [of "[Frag None [1], Ctl None opPing [9]]" opText
      "sample_ws\<lparr>ws_in := open_stream opText False [Frag None [1], Ctl None opPing [9]] @ ws_frame True None opText [7] @ [5]\<rparr>"
      None opText "[7]" True "[5]"]
  by (simp add: sample_ws_def ws_ok_def opcodes maxFrame_def)

text \<open>
  The check for a data frame inside a fragmented message looks at the buffer and not at
  the message in progress, so it misses one case: after a first fragment with an empty payload
  a new text frame is not refused, and the message that was begun is silently replaced by it.
\<close>

theorem empty_fragment_hides_message:
  "fst (ReadMessage (sample_ws\<lparr>ws_in := ws_frame False None opBinary [] @ ws_frame True None opText [65]\<rparr>)) = Inr [65]"
proof -
  let ?w = "sample_ws\<lparr>ws_in := ws_frame False None opBinary [] @ ws_frame True None opText [65]\<rparr>"
  let ?v = "sample_ws\<lparr>ws_in := ws_frame True None opText [65]\<rparr>"
  have 1: "readFrame (ws_end ?w) (ws_in ?w) = Inr ((opBinary, [], False), ws_frame True None opText [65])"
    using readFrame_ws_frame [of None opBinary "[]"] by (simp add: ws_ok_def opcodes)
  have 2: "readFrame (ws_end ?v) (ws_in ?v) = Inr ((opText, [65], True), [])"
    using readFrame_ws_frame [of None opText "[65]" _ True "[]"] by (simp add: ws_ok_def opcodes maxFrame_def)
  have "ReadMessage ?w = read_message [] opBinary ?v"
    unfolding ReadMessage_def read_message.simps [of "[]" 0 ?w] 1 by (simp add: opcodes)
  then show ?thesis unfolding read_message.simps [of "[]" opBinary ?v] 2 by (simp add: opcodes)
qed

subsection \<open>The handshake\<close>

text \<open>
  What \<open>http.ReadResponse\<close> makes of the answer to the upgrade request: a failure, or the
  status code, the header fields in order and the bytes after the response.
\<close>

record http_response =
  StatusCode :: int
  Headers :: "(gostring \<times> gostring) list"
  After :: bytes

text \<open>\<open>Header.Get\<close>: the first value under a name, or the empty string.\<close>

definition header_get :: "http_response \<Rightarrow> gostring \<Rightarrow> gostring" where
  "header_get r name =
     (case filter (\<lambda>(k, _). foldName k = foldName name) (Headers r) of [] \<Rightarrow> [] | (_, v) # _ \<Rightarrow> v)"

datatype handshake_error =
    UpgradeNotSent
  | NoUpgradeResponse
  | UpgradeRefused int
  | NotWebsocket gostring
  | WrongAccept

definition upgrade_request :: "gostring \<Rightarrow> gostring \<Rightarrow> gostring \<Rightarrow> gostring" where
  "upgrade_request hst pth key =
     (let crlf = [CHR 0x0D, newline] in
      ''GET '' @ pth @ '' HTTP/1.1'' @ crlf @ ''Host: '' @ hst @ crlf @ ''Upgrade: websocket'' @ crlf
      @ ''Connection: Upgrade'' @ crlf @ ''Sec-WebSocket-Key: '' @ key @ crlf
      @ ''Sec-WebSocket-Version: 13'' @ crlf @ crlf)"

text \<open>
  \<open>wsHandshake\<close> with the sixteen bytes of the nonce. The answer is a function of the request,
  because the accept token depends on the key in it.
\<close>

definition wsHandshake ::
    "bytes \<Rightarrow> wsConn \<Rightarrow> (gostring \<Rightarrow> http_response option) \<Rightarrow> gostring \<Rightarrow> gostring \<Rightarrow> handshake_error + wsConn" where
  "wsHandshake nonce w answer hst pth =
     (let key = base64 nonce; req = upgrade_request hst pth key in
      case ws_write w (bytes_of req) of
        (Some _, _) \<Rightarrow> Inl UpgradeNotSent
      | (None, w1) \<Rightarrow>
          (case answer req of
             None \<Rightarrow> Inl NoUpgradeResponse
           | Some resp \<Rightarrow>
               if StatusCode resp \<noteq> 101 then Inl (UpgradeRefused (StatusCode resp))
               else if foldName (header_get resp ''Upgrade'') \<noteq> foldName ''websocket'' then
                 Inl (NotWebsocket (header_get resp ''Upgrade''))
               else if header_get resp ''Sec-WebSocket-Accept'' \<noteq> wsAccept key then Inl WrongAccept
               else Inr (w1\<lparr>ws_in := After resp\<rparr>)))"

lemma wsHandshake_Inr:
  assumes "wsHandshake nonce w answer hst pth = Inr w'"
  shows "\<exists>resp. answer (upgrade_request hst pth (base64 nonce)) = Some resp \<and> StatusCode resp = 101
    \<and> foldName (header_get resp ''Upgrade'') = foldName ''websocket''
    \<and> header_get resp ''Sec-WebSocket-Accept'' = wsAccept (base64 nonce) \<and> ws_in w' = After resp
    \<and> ws_out w' = ws_out w @ bytes_of (upgrade_request hst pth (base64 nonce))"
  using assms
  by (auto simp: wsHandshake_def Let_def ws_write_def split: prod.splits option.splits if_splits)

end
