(* ===== verification/Codex_Client.thy ===== *)
theory Codex_Client
  imports Codex_Discover Jsonrpc Ws
begin

text \<open>
  \<open>codexmsg/client.go\<close>: one connection to the app server, shared by every caller. A client is
  the fields of the Go struct together with what its goroutines are doing: for each \<open>Call\<close>
  where it is and what its channel holds, the reader, the \<open>fail\<close> in progress, and the \<open>Close\<close>
  calls that are past their test of \<open>closed\<close>. One step is one critical section or one channel
  operation, in any order the scheduler likes. Sending on or closing a closed channel panics.

  The n-th \<open>Call\<close> has channel \<open>n\<close>. The ids are 64-bit, so a connection makes fewer than
  \<open>2 ^ 64\<close> calls; that bound is the guard of the step \<open>start\<close>.
\<close>

datatype chan = ChEmpty | ChFull Message | ChClosed

datatype call_error =
    CallClosed "ws_error option"          \<comment> \<open>closed before it was registered\<close>
  | CallCut "ws_error option"             \<comment> \<open>its channel was closed\<close>
  | CallSend ws_error
  | CallContext

datatype phase =
    NotStarted
  | Prepared                              \<comment> \<open>has its id and its channel\<close>
  | Registered                            \<comment> \<open>is in the pending table, about to write\<close>
  | Waiting                               \<comment> \<open>in the \<open>select\<close>\<close>
  | Dropping call_error                   \<comment> \<open>about to delete its entry\<close>
  | Finished "call_error + Message"

datatype reader_state =
    Reading
  | Sending nat Message
  | Blocked                               \<comment> \<open>in a read that does not return: the daemon is silent\<close>
  | Stopped

record CodexClient =
  cws :: wsConn
  nextID :: "64 word"
  pending :: "gostring \<rightharpoonup> nat"
  cclosed :: bool
  cerr :: "ws_error option"
  started :: nat                          \<comment> \<open>how many calls were begun\<close>
  reqs :: "nat \<Rightarrow> Request"
  chans :: "nat \<Rightarrow> chan"
  phases :: "nat \<Rightarrow> phase"
  reader :: reader_state
  closing :: "nat set option"             \<comment> \<open>what the loop of \<open>fail\<close> has still to close\<close>
  done_closes :: nat                      \<comment> \<open>how often \<open>done\<close> was closed\<close>
  first_closers :: nat                    \<comment> \<open>\<open>Close\<close> calls that found it open, before \<open>ws.Close\<close>\<close>
  late_closers :: nat                     \<comment> \<open>those that found it closed\<close>
  closers :: nat                          \<comment> \<open>those about to call \<open>fail\<close>\<close>
  panicked :: bool

subsection \<open>Connecting\<close>

record CodexOptions =
  OSocketPath :: gostring
  OPath :: gostring

datatype codex_dial_error =
    DialSocket socket_error
  | DialConnect gostring
  | DialUpgrade gostring handshake_error

definition dial_path :: "host \<Rightarrow> CodexOptions \<Rightarrow> socket_error + gostring" where
  "dial_path h opt =
     (let path = OSocketPath opt in
      if path = [] then DefaultSocket h
      else case CheckSocketPath h path of Some e \<Rightarrow> Inl e | None \<Rightarrow> Inr path)"

definition new_client :: "wsConn \<Rightarrow> CodexClient" where
  "new_client w = \<lparr>cws = w, nextID = 0, pending = Map.empty, cclosed = False, cerr = None, started = 0,
     reqs = (\<lambda>_. \<lparr>ReqID = zero_RequestID, Method = [], Params = None\<rparr>), chans = (\<lambda>_. ChEmpty),
     phases = (\<lambda>_. NotStarted), reader = Reading, closing = None, done_closes = 0,
     first_closers = 0, late_closers = 0, closers = 0, panicked = False\<rparr>"

definition DialCodex ::
    "host \<Rightarrow> CodexOptions \<Rightarrow> bytes \<Rightarrow> wsConn \<Rightarrow> (gostring \<Rightarrow> http_response option)
       \<Rightarrow> codex_dial_error + CodexClient" where
  "DialCodex h opt nonce conn answer =
     (case dial_path h opt of
        Inl e \<Rightarrow> Inl (DialSocket e)
      | Inr path \<Rightarrow>
          if h_fault h SysConnect path then Inl (DialConnect path)
          else let target = (if OPath opt = [] then ''/'' else OPath opt) in
               (case wsHandshake nonce conn answer ''localhost'' target of
                  Inl e \<Rightarrow> Inl (DialUpgrade path e)
                | Inr w \<Rightarrow> Inr (new_client w)))"

subsection \<open>The reader\<close>

text \<open>A received message: a response is taken out of the table, everything else is dropped.\<close>

definition read_data :: "CodexClient \<Rightarrow> bytes \<Rightarrow> CodexClient" where
  "read_data s data =
     (case unmarshalMessage (string_of data) of
        None \<Rightarrow> s
      | Some m \<Rightarrow>
          if IsResponse m then
            (let k = key (the (MID m)) in
             case pending s k of
               None \<Rightarrow> s
             | Some n \<Rightarrow> s\<lparr>pending := (pending s)(k := None), reader := Sending n m\<rparr>)
          else s)"

definition reader_send :: "nat \<Rightarrow> Message \<Rightarrow> CodexClient \<Rightarrow> CodexClient" where
  "reader_send n m s =
     (if chans s n = ChClosed then s\<lparr>panicked := True\<rparr>
      else s\<lparr>chans := (chans s)(n := ChFull m), reader := Reading\<rparr>)"

text \<open>The critical section of \<open>fail\<close>; the loop over the table and \<open>close(c.done)\<close> follow.\<close>

definition failClient :: "ws_error \<Rightarrow> CodexClient \<Rightarrow> CodexClient" where
  "failClient e s =
     (if cclosed s then s
      else s\<lparr>cclosed := True,
             cerr := (if cerr s = None \<and> e \<noteq> WsRead EOF then Some e else cerr s),
             closing := Some (ran (pending s)),
             pending := Map.empty\<rparr>)"

definition fail_close :: "nat \<Rightarrow> CodexClient \<Rightarrow> CodexClient" where
  "fail_close n s =
     (if chans s n = ChClosed then s\<lparr>panicked := True\<rparr>
      else s\<lparr>chans := (chans s)(n := ChClosed), closing := map_option (\<lambda>C. C - {n}) (closing s)\<rparr>)"

definition fail_done :: "CodexClient \<Rightarrow> CodexClient" where
  "fail_done s =
     (if done_closes s \<noteq> 0 then s\<lparr>panicked := True\<rparr> else s\<lparr>done_closes := 1, closing := None\<rparr>)"

text \<open>
  One turn of \<open>readLoop\<close>. The connection has no deadline after the handshake, so when the daemon
  says nothing more the read blocks; from there only the end of the connection wakes the reader.
\<close>

definition readLoop :: "CodexClient \<Rightarrow> CodexClient" where
  "readLoop s =
     (case ReadMessage (cws s) of
        (Inl e, w) \<Rightarrow>
          if e = WsBlocked then s\<lparr>cws := w, reader := Blocked\<rparr>
          else failClient e (s\<lparr>cws := w, reader := Stopped\<rparr>)
      | (Inr data, w) \<Rightarrow> read_data (s\<lparr>cws := w\<rparr>) data)"

subsection \<open>Calls\<close>

definition call_begin :: "gostring \<Rightarrow> json option \<Rightarrow> CodexClient \<Rightarrow> CodexClient" where
  "call_begin method params s =
     (let i = nextID s + 1; n = started s in
      s\<lparr>nextID := i, started := n + 1,
        reqs := (reqs s)(n := \<lparr>ReqID = IntID (sint i), Method = method, Params = params\<rparr>),
        chans := (chans s)(n := ChEmpty), phases := (phases s)(n := Prepared)\<rparr>)"

abbreviation call_key :: "CodexClient \<Rightarrow> nat \<Rightarrow> gostring" where
  "call_key s n \<equiv> key (ReqID (reqs s n))"

definition call_register :: "nat \<Rightarrow> CodexClient \<Rightarrow> CodexClient" where
  "call_register n s =
     (if cclosed s then s\<lparr>phases := (phases s)(n := Finished (Inl (CallClosed (cerr s))))\<rparr>
      else s\<lparr>pending := (pending s)(call_key s n \<mapsto> n), phases := (phases s)(n := Registered)\<rparr>)"

definition request_line :: "Request \<Rightarrow> bytes" where
  "request_line r = bytes_of (json_print (json_of_Request r))"

text \<open>\<open>write\<close>; a closed connection refuses the bytes.\<close>

definition write_line :: "wsConn \<Rightarrow> bytes \<Rightarrow> ws_error option \<times> wsConn" where
  "write_line w line = (if ws_open w then WriteText w line else (Some WsWrite, w))"

definition call_write :: "nat \<Rightarrow> CodexClient \<Rightarrow> CodexClient" where
  "call_write n s =
     (case write_line (cws s) (request_line (reqs s n)) of
        (r, w) \<Rightarrow>
          s\<lparr>cws := w, phases := (phases s)(n := (case r of None \<Rightarrow> Waiting | Some e \<Rightarrow> Dropping (CallSend e)))\<rparr>)"

definition call_cancel :: "nat \<Rightarrow> CodexClient \<Rightarrow> CodexClient" where
  "call_cancel n s = s\<lparr>phases := (phases s)(n := Dropping CallContext)\<rparr>"

definition call_drop :: "nat \<Rightarrow> call_error \<Rightarrow> CodexClient \<Rightarrow> CodexClient" where
  "call_drop n e s =
     s\<lparr>pending := (pending s)(call_key s n := None), phases := (phases s)(n := Finished (Inl e))\<rparr>"

definition call_receive :: "nat \<Rightarrow> CodexClient \<Rightarrow> CodexClient" where
  "call_receive n s =
     (case chans s n of
        ChEmpty \<Rightarrow> s
      | ChFull m \<Rightarrow> s\<lparr>chans := (chans s)(n := ChEmpty), phases := (phases s)(n := Finished (Inr m))\<rparr>
      | ChClosed \<Rightarrow> s\<lparr>phases := (phases s)(n := Finished (Inl (CallCut (cerr s))))\<rparr>)"

text \<open>
  What a finished call returns. The texts of the errors of the network, of the context and of
  the JSON decoder come from the standard library; \<open>lib_text\<close> supplies them.
\<close>

record lib_text =
  ws_text :: "ws_error \<Rightarrow> gostring"
  ctx_text :: gostring
  json_text :: "gostring \<Rightarrow> gostring"

definition closedErr :: "lib_text \<Rightarrow> ws_error option \<Rightarrow> go_error" where
  "closedErr lib err =
     (case err of Some e \<Rightarrow> Plain (ws_text lib e) | None \<Rightarrow> Plain ''connection to the app server is closed'')"

definition call_failure :: "lib_text \<Rightarrow> gostring \<Rightarrow> call_error \<Rightarrow> go_error" where
  "call_failure lib method e =
     (case e of
        CallClosed x \<Rightarrow> closedErr lib x
      | CallCut x \<Rightarrow> Wrapped method (closedErr lib x)
      | CallSend x \<Rightarrow> Wrapped (''send '' @ method) (Plain (ws_text lib x))
      | CallContext \<Rightarrow> Plain (ctx_text lib))"

definition call_result ::
    "lib_text \<Rightarrow> gostring \<Rightarrow> (gostring \<Rightarrow> 'a option) \<Rightarrow> 'a \<Rightarrow> call_error + Message \<Rightarrow> go_error + 'a" where
  "call_result lib method decode out r =
     (case r of
        Inl e \<Rightarrow> Inl (call_failure lib method e)
      | Inr m \<Rightarrow>
          (case MError m of
             Some e \<Rightarrow> Inl (RpcError e)
           | None \<Rightarrow>
               if MResult m = [] then Inr out
               else (case decode (MResult m) of
                       None \<Rightarrow> Inl (Wrapped (''decode '' @ method @ '' result'') (Plain (json_text lib (MResult m))))
                     | Some v \<Rightarrow> Inr v)))"

subsection \<open>Close\<close>

text \<open>\<open>Close\<close>: the test of \<open>closed\<close>, \<open>ws.Close\<close>, and the call of \<open>fail\<close>.\<close>

definition close_begin :: "CodexClient \<Rightarrow> CodexClient" where
  "close_begin s =
     (if cclosed s then s\<lparr>late_closers := late_closers s + 1\<rparr> else s\<lparr>first_closers := first_closers s + 1\<rparr>)"

definition close_first :: "CodexClient \<Rightarrow> CodexClient" where
  "close_first s = s\<lparr>cws := WsClose (cws s), first_closers := first_closers s - 1, closers := closers s + 1\<rparr>"

definition close_late :: "CodexClient \<Rightarrow> CodexClient" where
  "close_late s = s\<lparr>cws := WsClose (cws s), late_closers := late_closers s - 1\<rparr>"

definition close_fail :: "CodexClient \<Rightarrow> CodexClient" where
  "close_fail s = failClient (WsRead EOF) (s\<lparr>closers := closers s - 1\<rparr>)"

subsection \<open>The steps of a connection\<close>

inductive cstep :: "CodexClient \<Rightarrow> CodexClient \<Rightarrow> bool" where
  start: "started s + 1 < 2 ^ 64 \<Longrightarrow> cstep s (call_begin method params s)"
| register: "phases s n = Prepared \<Longrightarrow> cstep s (call_register n s)"
| writing: "phases s n = Registered \<Longrightarrow> cstep s (call_write n s)"
| cancel: "phases s n = Waiting \<Longrightarrow> cstep s (call_cancel n s)"
| dropping: "phases s n = Dropping e \<Longrightarrow> cstep s (call_drop n e s)"
| receive: "phases s n = Waiting \<Longrightarrow> chans s n \<noteq> ChEmpty \<Longrightarrow> cstep s (call_receive n s)"
| read: "reader s = Reading \<Longrightarrow> cstep s (readLoop s)"
| read_closed: "reader s \<in> {Reading, Blocked} \<Longrightarrow> \<not> ws_open (cws s)
    \<Longrightarrow> cstep s (failClient (WsRead ErrClosed) (s\<lparr>reader := Stopped\<rparr>))"
| send: "reader s = Sending n m \<Longrightarrow> \<forall>m'. chans s n \<noteq> ChFull m' \<Longrightarrow> cstep s (reader_send n m s)"
| fail_one: "closing s = Some C \<Longrightarrow> n \<in> C \<Longrightarrow> cstep s (fail_close n s)"
| fail_end: "closing s = Some {} \<Longrightarrow> cstep s (fail_done s)"
| close: "cstep s (close_begin s)"
| close_socket: "0 < first_closers s \<Longrightarrow> cstep s (close_first s)"
| close_again: "0 < late_closers s \<Longrightarrow> cstep s (close_late s)"
| closed: "0 < closers s \<Longrightarrow> cstep s (close_fail s)"

subsection \<open>The invariant\<close>

definition in_table :: "phase \<Rightarrow> bool" where
  "in_table p \<longleftrightarrow> (case p of Registered \<Rightarrow> True | Waiting \<Rightarrow> True | Dropping _ \<Rightarrow> True | _ \<Rightarrow> False)"

definition issued :: "phase \<Rightarrow> bool" where
  "issued p \<longleftrightarrow> p \<noteq> NotStarted \<and> p \<noteq> Prepared"

definition answers :: "CodexClient \<Rightarrow> nat \<Rightarrow> Message \<Rightarrow> bool" where
  "answers s n m \<longleftrightarrow> IsResponse m \<and> key (the (MID m)) = call_key s n"

definition being_closed :: "CodexClient \<Rightarrow> nat \<Rightarrow> bool" where
  "being_closed s n \<longleftrightarrow> (\<exists>C. closing s = Some C \<and> n \<in> C)"

definition being_sent :: "CodexClient \<Rightarrow> nat \<Rightarrow> bool" where
  "being_sent s n \<longleftrightarrow> (\<exists>m. reader s = Sending n m)"

text \<open>The ids: the n-th call has the number \<open>n + 1\<close>, so no two calls share a key.\<close>

definition ids_ok :: "CodexClient \<Rightarrow> bool" where
  "ids_ok s \<longleftrightarrow> started s < 2 ^ 64 \<and> nextID s = word_of_nat (started s)
     \<and> (\<forall>n < started s. ReqID (reqs s n) = IntID (sint (word_of_nat (Suc n) :: 64 word)))
     \<and> (\<forall>n. started s \<le> n \<longleftrightarrow> phases s n = NotStarted)"

text \<open>
  Who may touch the channel of a call: an issued call is in the table, or held by the reader,
  or in the hands of \<open>fail\<close>, never in two of these places, and a waiting one whose channel is
  empty is in one of them.
\<close>

definition tabled :: "CodexClient \<Rightarrow> nat \<Rightarrow> bool" where
  "tabled s n \<longleftrightarrow> pending s (call_key s n) = Some n"

definition cell_ok :: "phase \<Rightarrow> chan \<Rightarrow> bool \<Rightarrow> bool \<Rightarrow> bool \<Rightarrow> bool" where
  "cell_ok p c tab sent clo \<longleftrightarrow>
     (tab \<longrightarrow> in_table p \<and> c = ChEmpty \<and> \<not> sent \<and> \<not> clo)
     \<and> (sent \<longrightarrow> c = ChEmpty \<and> issued p \<and> \<not> clo)
     \<and> (clo \<longrightarrow> c = ChEmpty \<and> issued p)
     \<and> (c \<noteq> ChEmpty \<longrightarrow> issued p)
     \<and> (p = Registered \<or> p = Waiting \<longrightarrow> c \<noteq> ChEmpty \<or> tab \<or> sent \<or> clo)"

definition cells_ok :: "CodexClient \<Rightarrow> bool" where
  "cells_ok s \<longleftrightarrow>
     (\<forall>n. cell_ok (phases s n) (chans s n) (tabled s n) (being_sent s n) (being_closed s n))"

definition table_ok :: "CodexClient \<Rightarrow> bool" where
  "table_ok s \<longleftrightarrow> (\<forall>k n. pending s k = Some n \<longrightarrow> k = call_key s n)"

definition answers_ok :: "CodexClient \<Rightarrow> bool" where
  "answers_ok s \<longleftrightarrow>
     (\<forall>n m. reader s = Sending n m \<or> chans s n = ChFull m \<or> phases s n = Finished (Inr m) \<longrightarrow> answers s n m)"

definition flags_ok :: "CodexClient \<Rightarrow> bool" where
  "flags_ok s \<longleftrightarrow> \<not> panicked s
     \<and> (cclosed s \<longrightarrow> pending s = Map.empty)
     \<and> (closing s \<noteq> None \<longrightarrow> cclosed s)
     \<and> done_closes s = (if cclosed s \<and> closing s = None then 1 else 0)"

definition cinv :: "CodexClient \<Rightarrow> bool" where
  "cinv s \<longleftrightarrow> ids_ok s \<and> cells_ok s \<and> table_ok s \<and> answers_ok s \<and> flags_ok s"

lemma call_key_inject:
  assumes "ids_ok s" "phases s m \<noteq> NotStarted" "phases s n \<noteq> NotStarted"
  shows "call_key s m = call_key s n \<longleftrightarrow> m = n"
proof -
  have b: "m < started s" "n < started s" using assms by (auto simp: ids_ok_def not_le [symmetric])
  have "m = n" if "sint (word_of_nat (Suc m) :: 64 word) = sint (word_of_nat (Suc n) :: 64 word)"
  proof -
    have "(word_of_nat (Suc m) :: 64 word) = word_of_nat (Suc n)" using that by (rule signed_word_eqI)
    then have "unat (word_of_nat (Suc m) :: 64 word) = unat (word_of_nat (Suc n) :: 64 word)" by (rule arg_cong)
    then have "Suc m mod 2 ^ 64 = Suc n mod 2 ^ 64" by (simp only: unat_of_nat) simp
    then show ?thesis using assms b by (simp add: ids_ok_def)
  qed
  then show ?thesis using assms b by (auto simp: ids_ok_def)
qed

lemma tabled_phase: "cells_ok s \<Longrightarrow> tabled s m \<Longrightarrow> in_table (phases s m)"
  unfolding cells_ok_def cell_ok_def by blast

text \<open>Writing the table at the key of one call leaves the others as they were.\<close>

lemma tabled_update:
  assumes "ids_ok s" "cells_ok s" "phases s n \<noteq> NotStarted" "m \<noteq> n" "x \<in> {None, Some n}"
    and "pending s' = (pending s)(call_key s n := x)" "reqs s' = reqs s"
  shows "tabled s' m \<longleftrightarrow> tabled s m"
proof (cases "phases s m = NotStarted")
  case True
  then have "\<not> tabled s m" using tabled_phase [OF assms(2), of m] by (auto simp: in_table_def)
  then show ?thesis using assms(4-) by (auto simp: tabled_def)
next
  case False
  then have "call_key s m \<noteq> call_key s n" using call_key_inject [OF assms(1) False assms(3)] assms(4) by simp
  then show ?thesis using assms(6,7) by (simp add: tabled_def)
qed

lemma cinv_new_client: "cinv (new_client w)"
  by (simp add: cinv_def ids_ok_def cells_ok_def cell_ok_def table_ok_def answers_ok_def flags_ok_def tabled_def
      being_sent_def being_closed_def new_client_def)

subsection \<open>Every step keeps the invariant\<close>

lemma ids_ok_frame:
  assumes "ids_ok s" "started s' = started s" "nextID s' = nextID s" "reqs s' = reqs s"
    "\<forall>n. phases s' n = NotStarted \<longleftrightarrow> phases s n = NotStarted"
  shows "ids_ok s'"
  using assms by (simp add: ids_ok_def)

text \<open>A step that touches one cell.\<close>

lemma cells_ok_step:
  assumes "cells_ok s"
    and "\<And>m. m \<noteq> n \<Longrightarrow> phases s' m = phases s m \<and> chans s' m = chans s m \<and> tabled s' m = tabled s m
      \<and> being_sent s' m = being_sent s m \<and> being_closed s' m = being_closed s m"
    and "cell_ok (phases s' n) (chans s' n) (tabled s' n) (being_sent s' n) (being_closed s' n)"
  shows "cells_ok s'"
  unfolding cells_ok_def
proof
  fix m show "cell_ok (phases s' m) (chans s' m) (tabled s' m) (being_sent s' m) (being_closed s' m)"
    using assms by (cases "m = n") (simp_all add: cells_ok_def)
qed

lemma cell_at: "cells_ok s \<Longrightarrow> cell_ok (phases s n) (chans s n) (tabled s n) (being_sent s n) (being_closed s n)"
  by (simp add: cells_ok_def)

lemmas cell_simps = cell_ok_def in_table_def issued_def
lemmas being_simps = being_sent_def being_closed_def tabled_def

lemma cinv_begin:
  assumes "cinv s" "started s + 1 < 2 ^ 64"
  shows "cinv (call_begin method params s)" (is "cinv ?s")
proof -
  have i: "ids_ok s" "cells_ok s" "table_ok s" "answers_ok s" "flags_ok s" using assms by (simp_all add: cinv_def)
  have new: "phases s (started s) = NotStarted" using i by (auto simp: ids_ok_def)
  note c = cell_at [OF i(2), of "started s"]
  have t: "pending s k \<noteq> Some (started s)" for k
    using c i(3) new by (force simp: cell_simps tabled_def table_ok_def)
  have "ids_ok ?s"
    using i(1) assms(2) by (auto simp: ids_ok_def call_begin_def Let_def less_Suc_eq add.commute)
       (metis Suc_leI le_neq_implies_less)
  moreover have "cells_ok ?s"
  proof (rule cells_ok_step [OF i(2), of "started s"])
    fix m assume "m \<noteq> started s"
    then show "phases ?s m = phases s m \<and> chans ?s m = chans s m \<and> tabled ?s m = tabled s m
      \<and> being_sent ?s m = being_sent s m \<and> being_closed ?s m = being_closed s m"
      by (simp add: call_begin_def Let_def being_simps)
  next
    have "\<not> being_sent ?s (started s)" "\<not> being_closed ?s (started s)" "\<not> tabled ?s (started s)"
      using c new t by (auto simp: cell_simps being_simps call_begin_def Let_def)
    then show "cell_ok (phases ?s (started s)) (chans ?s (started s)) (tabled ?s (started s))
        (being_sent ?s (started s)) (being_closed ?s (started s))"
      by (simp add: cell_simps call_begin_def Let_def)
  qed
  moreover have "table_ok ?s" using i(3) t by (simp add: table_ok_def call_begin_def Let_def)
  moreover have "answers_ok ?s"
    using i(4) c new by (auto simp: answers_ok_def answers_def call_begin_def Let_def cell_simps being_sent_def)
  moreover have "flags_ok ?s" using i(5) by (simp add: flags_ok_def call_begin_def Let_def)
  ultimately show ?thesis by (simp add: cinv_def)
qed

lemma cinvD:
  assumes "cinv s"
  shows "ids_ok s" "cells_ok s" "table_ok s" "answers_ok s" "flags_ok s"
  using assms by (simp_all add: cinv_def)

text \<open>A step of, or on behalf of, a call that was begun.\<close>

lemma cinv_call_step:
  assumes inv: "cinv s" and n: "phases s n \<noteq> NotStarted" "phases s' n \<noteq> NotStarted"
    and same: "started s' = started s" "nextID s' = nextID s" "reqs s' = reqs s"
    and others: "\<And>m. m \<noteq> n \<Longrightarrow> phases s' m = phases s m \<and> chans s' m = chans s m
      \<and> being_sent s' m = being_sent s m \<and> being_closed s' m = being_closed s m"
    and tab: "pending s' = (pending s)(call_key s n := x)" "x \<in> {None, Some n}"
    and cell: "cell_ok (phases s' n) (chans s' n) (x = Some n) (being_sent s' n) (being_closed s' n)"
    and ans: "\<And>m. reader s' = Sending n m \<or> chans s' n = ChFull m \<or> phases s' n = Finished (Inr m) \<Longrightarrow> answers s n m"
    and flags: "flags_ok s'"
    and rd: "\<And>k m. k \<noteq> n \<Longrightarrow> reader s' = Sending k m \<Longrightarrow> reader s = Sending k m"
  shows "cinv s'"
proof -
  note i = cinvD [OF inv]
  have "ids_ok s'"
  proof (rule ids_ok_frame [OF i(1) same])
    show "\<forall>m. phases s' m = NotStarted \<longleftrightarrow> phases s m = NotStarted" using n others by metis
  qed
  moreover have "cells_ok s'"
  proof (rule cells_ok_step [OF i(2), of n])
    show "cell_ok (phases s' n) (chans s' n) (tabled s' n) (being_sent s' n) (being_closed s' n)"
      using cell tab(1) same(3) by (simp add: tabled_def)
  next
    fix m assume "m \<noteq> n"
    then show "phases s' m = phases s m \<and> chans s' m = chans s m \<and> tabled s' m = tabled s m
      \<and> being_sent s' m = being_sent s m \<and> being_closed s' m = being_closed s m"
      using others [of m] tabled_update [OF i(1,2) n(1) _ tab(2,1) same(3), of m] by simp
  qed
  moreover have "table_ok s'" using i(3) tab same(3) by (auto simp: table_ok_def)
  moreover have "answers_ok s'"
    unfolding answers_ok_def
  proof (intro allI impI)
    fix k m assume "reader s' = Sending k m \<or> chans s' k = ChFull m \<or> phases s' k = Finished (Inr m)"
    then have "answers s k m" using i(4) ans others rd unfolding answers_ok_def by (cases "k = n") metis+
    then show "answers s' k m" using same(3) by (simp add: answers_def)
  qed
  ultimately show ?thesis using flags by (simp add: cinv_def)
qed

lemma cinv_register:
  assumes "cinv s" "phases s n = Prepared"
  shows "cinv (call_register n s)"
proof -
  note i = cinvD [OF assms(1)] and c = cell_at [OF cinvD(2) [OF assms(1)], of n]
  show ?thesis
  proof (cases "cclosed s")
    case True
    show ?thesis
      by (rule cinv_call_step [OF assms(1), of n _ None])
        (use assms(2) i(5) c True in
          \<open>auto simp: call_register_def flags_ok_def cell_simps being_simps answers_ok_def\<close>)
  next
    case False
    show ?thesis
      by (rule cinv_call_step [OF assms(1), of n _ "Some n"])
        (use assms(2) i(5) c False in
          \<open>auto simp: call_register_def flags_ok_def cell_simps being_simps answers_ok_def\<close>)
  qed
qed

lemma table_entry:
  assumes "cinv s" "phases s n \<noteq> NotStarted"
  shows "pending s (call_key s n) \<in> {None, Some n}"
proof (cases "pending s (call_key s n)")
  case (Some k)
  note i = cinvD [OF assms(1)]
  have k: "call_key s k = call_key s n" using i(3) Some by (simp add: table_ok_def)
  then have "tabled s k" using Some by (simp add: tabled_def)
  then have "phases s k \<noteq> NotStarted" using tabled_phase [OF i(2), of k] by (auto simp: in_table_def)
  then show ?thesis using call_key_inject [OF i(1) _ assms(2)] k Some by simp
qed simp

text \<open>A step of a call that leaves the table alone.\<close>

lemma cinv_phase_step:
  assumes "cinv s" "phases s n \<noteq> NotStarted" "phases s' n \<noteq> NotStarted"
    and "started s' = started s" "nextID s' = nextID s" "reqs s' = reqs s" "pending s' = pending s"
    and "closing s' = closing s" "reader s' = reader s"
    and "\<And>m. m \<noteq> n \<Longrightarrow> phases s' m = phases s m \<and> chans s' m = chans s m"
    and "cell_ok (phases s' n) (chans s' n) (tabled s n) (being_sent s n) (being_closed s n)"
    and "\<And>m. chans s' n = ChFull m \<or> phases s' n = Finished (Inr m) \<Longrightarrow> answers s n m"
    and "flags_ok s'"
  shows "cinv s'"
proof (rule cinv_call_step [OF assms(1-6) _ _ table_entry [OF assms(1,2)]])
  show "pending s' = (pending s)(call_key s n := pending s (call_key s n))" using assms(7) by simp
qed (use assms cinvD(4) [OF assms(1)] in \<open>auto simp: being_simps answers_ok_def\<close>)

lemma cinv_write:
  assumes "cinv s" "phases s n = Registered"
  shows "cinv (call_write n s)"
  by (rule cinv_phase_step [OF assms(1), of n])
    (use assms(2) cinvD(4,5) [OF assms(1)] cell_at [OF cinvD(2) [OF assms(1)], of n] in
      \<open>auto simp: call_write_def flags_ok_def cell_simps answers_ok_def split: prod.splits option.splits\<close>)

lemma cinv_cancel:
  assumes "cinv s" "phases s n = Waiting"
  shows "cinv (call_cancel n s)"
  by (rule cinv_phase_step [OF assms(1), of n])
    (use assms(2) cinvD(4,5) [OF assms(1)] cell_at [OF cinvD(2) [OF assms(1)], of n] in
      \<open>auto simp: call_cancel_def flags_ok_def cell_simps answers_ok_def\<close>)

lemma cinv_drop:
  assumes "cinv s" "phases s n = Dropping e"
  shows "cinv (call_drop n e s)"
  by (rule cinv_call_step [OF assms(1), of n _ None])
    (use assms(2) cinvD(4,5) [OF assms(1)] cell_at [OF cinvD(2) [OF assms(1)], of n] in
      \<open>auto simp: call_drop_def flags_ok_def cell_simps answers_ok_def being_simps\<close>)

lemma cinv_receive:
  assumes "cinv s" "phases s n = Waiting" "chans s n \<noteq> ChEmpty"
  shows "cinv (call_receive n s)"
  by (rule cinv_phase_step [OF assms(1), of n])
    (use assms(2,3) cinvD(4,5) [OF assms(1)] cell_at [OF cinvD(2) [OF assms(1)], of n] in
      \<open>auto simp: call_receive_def flags_ok_def cell_simps answers_ok_def split: chan.splits\<close>)

subsection \<open>The reader and \<open>fail\<close> keep the invariant\<close>

lemma cinv_frame:
  assumes "cinv s" "started s' = started s" "nextID s' = nextID s" "reqs s' = reqs s" "pending s' = pending s"
    "closing s' = closing s"
    "reader s' = reader s \<or> reader s \<in> {Reading, Blocked} \<and> reader s' \<in> {Blocked, Stopped}" "phases s' = phases s"
    "chans s' = chans s" "flags_ok s'"
  shows "cinv s'"
proof -
  from assms(7) have "being_sent s' = being_sent s"
    by (elim disjE) (simp add: being_sent_def fun_eq_iff, auto simp: being_sent_def fun_eq_iff)
  moreover have "being_closed s' = being_closed s" "tabled s' = tabled s"
    using assms(4-6) by (simp_all add: being_simps fun_eq_iff)
  ultimately show ?thesis
    using assms by (auto simp: cinv_def ids_ok_def cells_ok_def table_ok_def answers_ok_def answers_def)
qed

lemma cinv_read_data:
  assumes "cinv s" "reader s = Reading"
  shows "cinv (read_data s data)"
proof (cases "read_data s data = s")
  case False
  then obtain m n where m: "IsResponse m" "pending s (key (the (MID m))) = Some n"
    "read_data s data = s\<lparr>pending := (pending s)(key (the (MID m)) := None), reader := Sending n m\<rparr>"
    by (auto simp: read_data_def Let_def split: option.splits if_splits)
  note i = cinvD [OF assms(1)] and c = cell_at [OF cinvD(2) [OF assms(1)], of n]
  have k: "key (the (MID m)) = call_key s n" using i(3) m(2) by (simp add: table_ok_def)
  then have t: "tabled s n" using m(2) by (simp add: tabled_def)
  show ?thesis
    by (rule cinv_call_step [OF assms(1), of n _ None])
      (use m k t c i(4,5) assms(2) in
        \<open>auto simp: flags_ok_def cell_simps answers_ok_def answers_def being_sent_def being_closed_def
          split: phase.splits\<close>)
qed (use assms in simp)

lemma cinv_send:
  assumes "cinv s" "reader s = Sending n m"
  shows "cinv (reader_send n m s)"
proof -
  have "being_sent s n" using assms(2) by (simp add: being_sent_def)
  then show ?thesis
    by (intro cinv_call_step [OF assms(1) _ _ _ _ _ _ _ table_entry [OF assms(1)], of n])
      (use assms(2) cinvD(4,5) [OF assms(1)] cell_at [OF cinvD(2) [OF assms(1)], of n] in
        \<open>auto simp: reader_send_def flags_ok_def cell_simps answers_ok_def being_simps\<close>)
qed

text \<open>\<open>fail\<close> takes the whole table over.\<close>

lemma ran_pending: "cinv s \<Longrightarrow> n \<in> ran (pending s) \<longleftrightarrow> tabled s n"
  by (auto simp: ran_def tabled_def table_ok_def dest: cinvD(3))

lemma cinv_failClient:
  assumes "cinv s"
  shows "cinv (failClient e s)" (is "cinv ?s")
proof (cases "cclosed s")
  case False
  note i = cinvD [OF assms]
  have n: "closing s = None" using i(5) False by (auto simp: flags_ok_def)
  have b: "being_closed ?s m \<longleftrightarrow> tabled s m" "\<not> being_closed s m" "\<not> tabled ?s m" "being_sent ?s m = being_sent s m" for m
    using False n ran_pending [OF assms] by (auto simp: failClient_def being_simps)
  have "cells_ok ?s"
    unfolding cells_ok_def
  proof
    fix m
    have p: "phases ?s = phases s" "chans ?s = chans s" by (simp_all add: failClient_def)
    show "cell_ok (phases ?s m) (chans ?s m) (tabled ?s m) (being_sent ?s m) (being_closed ?s m)"
      using cell_at [OF i(2), of m] unfolding p by (auto simp: cell_simps b split: phase.splits)
  qed
  then show ?thesis
    using i False by (auto simp: cinv_def ids_ok_def failClient_def table_ok_def answers_ok_def answers_def flags_ok_def)
qed (use assms in \<open>simp add: failClient_def\<close>)

lemma cinv_fail_close:
  assumes "cinv s" "closing s = Some C" "n \<in> C"
  shows "cinv (fail_close n s)"
proof -
  have b: "being_closed s n" using assms(2,3) by (simp add: being_closed_def)
  then show ?thesis
    by (intro cinv_call_step [OF assms(1) _ _ _ _ _ _ _ table_entry [OF assms(1)], of n])
      (use assms(2) cinvD(4,5) [OF assms(1)] cell_at [OF cinvD(2) [OF assms(1)], of n] in
        \<open>auto simp: fail_close_def flags_ok_def cell_simps answers_ok_def being_simps\<close>)
qed

lemma cinv_fail_done:
  assumes "cinv s" "closing s = Some {}"
  shows "cinv (fail_done s)" (is "cinv ?s")
proof -
  note i = cinvD [OF assms(1)]
  have d: "?s = s\<lparr>done_closes := 1, closing := None\<rparr>" using i(5) assms(2) by (simp add: fail_done_def flags_ok_def)
  have "being_closed ?s = being_closed s" "being_sent ?s = being_sent s" "tabled ?s = tabled s"
    unfolding d using assms(2) by (auto simp: being_simps fun_eq_iff)
  then have "cells_ok ?s" using i(2) by (simp add: cells_ok_def) (simp add: d)
  then show ?thesis
    using i assms(2) unfolding d by (auto simp: cinv_def ids_ok_def table_ok_def answers_ok_def answers_def flags_ok_def)
qed

lemma cinv_readLoop:
  assumes "cinv s" "reader s = Reading"
  shows "cinv (readLoop s)"
proof -
  obtain r w where r: "ReadMessage (cws s) = (r, w)" by (cases "ReadMessage (cws s)")
  have "cinv (s\<lparr>cws := w, reader := Stopped\<rparr>)" "cinv (s\<lparr>cws := w, reader := Blocked\<rparr>)" "cinv (s\<lparr>cws := w\<rparr>)"
    by (rule cinv_frame [OF assms(1)]; use assms cinvD(5) [OF assms(1)] in \<open>simp add: flags_ok_def\<close>)+
  then show ?thesis
    using assms(2) by (auto simp: readLoop_def r intro: cinv_failClient cinv_read_data split: sum.splits)
qed

lemma cinv_step:
  assumes "cstep s s'" "cinv s"
  shows "cinv s'"
  using assms
proof (cases rule: cstep.cases)
  case read_closed
  have "cinv (s\<lparr>reader := Stopped\<rparr>)"
    by (rule cinv_frame [OF assms(2)]) (use read_closed cinvD(5) [OF assms(2)] in \<open>simp_all add: flags_ok_def\<close>)
  then show ?thesis unfolding read_closed(1) by (rule cinv_failClient)
next
  case close
  then show ?thesis
    by (intro cinv_frame [OF assms(2)]) (use cinvD(5) [OF assms(2)] in \<open>auto simp: close_begin_def flags_ok_def\<close>)
next
  case close_socket
  then show ?thesis
    by (intro cinv_frame [OF assms(2)]) (use cinvD(5) [OF assms(2)] in \<open>simp_all add: close_first_def flags_ok_def\<close>)
next
  case close_again
  then show ?thesis
    by (intro cinv_frame [OF assms(2)]) (use cinvD(5) [OF assms(2)] in \<open>simp_all add: close_late_def flags_ok_def\<close>)
next
  case closed
  have "cinv (s\<lparr>closers := closers s - 1\<rparr>)"
    by (rule cinv_frame [OF assms(2)]) (use cinvD(5) [OF assms(2)] in \<open>simp_all add: flags_ok_def\<close>)
  then show ?thesis unfolding closed(1) close_fail_def by (rule cinv_failClient)
qed (use assms(2) in \<open>auto intro: cinv_begin cinv_register cinv_write cinv_cancel cinv_drop cinv_receive cinv_readLoop
  cinv_send cinv_fail_close cinv_fail_done\<close>)

definition dialled :: "CodexClient \<Rightarrow> bool" where
  "dialled s \<longleftrightarrow> (\<exists>w. s = new_client w)"

interpretation codex: transition_system dialled cstep cinv
  by unfold_locales (auto simp: dialled_def intro: cinv_new_client cinv_step)

subsection \<open>Safety\<close>

text \<open>
  (C4) Whatever the interleaving of callers, reader, failures and closers, and whatever the
  daemon sends, the client never sends on a closed channel and never closes one twice, \<open>done\<close>
  included, so it never panics; and the reader never blocks on a caller: when it holds a
  message for a channel, that channel is open and has room.
\<close>

theorem codex_client_never_panics:
  assumes "cstep\<^sup>*\<^sup>* (new_client w) s"
  shows "\<not> panicked s \<and> done_closes s \<le> 1 \<and> (\<forall>n m. reader s = Sending n m \<longrightarrow> chans s n = ChEmpty)"
proof -
  have i: "cinv s" using codex.inv_steps [OF assms cinv_new_client] .
  have "chans s n = ChEmpty" if "reader s = Sending n m" for n m
    using cell_at [OF cinvD(2) [OF i], of n] that by (auto simp: cell_ok_def being_sent_def)
  then show ?thesis using cinvD(5) [OF i] by (auto simp: flags_ok_def)
qed

text \<open>
  (C5) A call that returns a message returns the answer to its own request: the id in the
  message is the id of the request, and no other call of the connection has that id.
\<close>

theorem codex_answers_correlated:
  assumes "cstep\<^sup>*\<^sup>* (new_client w) s" "phases s n = Finished (Inr m)"
  shows "IsResponse m \<and> key (the (MID m)) = key (ReqID (reqs s n))
    \<and> (\<forall>n' < started s. key (ReqID (reqs s n')) = key (the (MID m)) \<longrightarrow> n' = n)"
proof -
  have i: "cinv s" using codex.inv_steps [OF assms(1) cinv_new_client] .
  have a: "IsResponse m" "key (the (MID m)) = call_key s n"
    using cinvD(4) [OF i] assms(2) by (auto simp: answers_ok_def answers_def)
  have "n' = n" if "n' < started s" "call_key s n' = call_key s n" for n'
    using call_key_inject [OF cinvD(1) [OF i], of n' n] that assms(2) cinvD(1) [OF i]
    by (auto simp: ids_ok_def not_le [symmetric])
  then show ?thesis using a by simp
qed

subsection \<open>An answer reaches its caller\<close>

lemma ReadMessage_text:
  assumes "ws_in w = ws_frame True None opText p @ rest" "length p \<le> maxFrame"
  shows "ReadMessage w = (Inr p, w\<lparr>ws_in := rest\<rparr>)"
proof -
  have "readFrame (ws_end w) (ws_in w) = Inr ((opText, p, True), rest)"
    using assms readFrame_ws_frame [of None opText p "ws_end w" True rest] by (simp add: ws_ok_def opText_def)
  then show ?thesis by (simp add: ReadMessage_def read_message.simps opcodes)
qed

lemma call_id:
  assumes "cinv s" "phases s n \<noteq> NotStarted"
  shows "\<exists>i. int64 i \<and> ReqID (reqs s n) = IntID i"
proof -
  have "int64 (sint x)" for x :: "64 word" using sint_range_size [of x] by (simp add: int64_def word_size)
  moreover have "n < started s" using cinvD(1) [OF assms(1)] assms(2) by (auto simp: ids_ok_def not_le [symmetric])
  ultimately show ?thesis using cinvD(1) [OF assms(1)] by (auto simp: ids_ok_def)
qed

text \<open>
  (C22) While the connection is open, the daemon's answer to a waiting call is read, matched and
  received: the reader's two steps and the caller's one end the call with the result the daemon
  sent, and leave the reader at the rest of the stream.
\<close>

theorem codex_response_reaches_caller:
  assumes "cstep\<^sup>*\<^sup>* (new_client w) s" "\<not> cclosed s" "reader s = Reading"
    and "phases s n = Waiting" "chans s n = ChEmpty"
    and "ReqID (reqs s n) = IntID i" "printable v" "jdepth v < maxNestingDepth"
    and "length (response_text i v) \<le> maxFrame"
    and "ws_in (cws s) = ws_frame True None opText (bytes_of (response_text i v)) @ rest"
  shows "\<exists>s1 s2 s3 m. cstep s s1 \<and> cstep s1 s2 \<and> cstep s2 s3 \<and> phases s3 n = Finished (Inr m)
    \<and> MResult m = json_print v \<and> MError m = None \<and> reader s3 = Reading \<and> ws_in (cws s3) = rest"
proof -
  have i: "cinv s" using codex.inv_steps [OF assms(1) cinv_new_client] .
  let ?m = "zero_Message\<lparr>MID := Some (IntID i), MResult := json_print v\<rparr>"
  have "int64 i" using call_id [OF i, of n] assms(4,6) by (auto simp: IntID_def)
  then have um: "unmarshalMessage (response_text i v) = Some ?m" using unmarshal_response assms(7,8) by blast
  have ir: "IsResponse ?m" by (simp add: IsResponse_def zero_Message_def)
  have "closing s = None" using cinvD(5) [OF i] assms(2) by (auto simp: flags_ok_def)
  then have t: "pending s (key (IntID i)) = Some n"
    using cell_at [OF cinvD(2) [OF i], of n] assms(3-6) by (auto simp: cell_ok_def being_simps)
  have rm: "ReadMessage (cws s) = (Inr (bytes_of (response_text i v)), (cws s)\<lparr>ws_in := rest\<rparr>)"
    using ReadMessage_text assms(9,10) by simp
  let ?s1 = "s\<lparr>cws := (cws s)\<lparr>ws_in := rest\<rparr>, pending := (pending s)(key (IntID i) := None), reader := Sending n ?m\<rparr>"
  have "readLoop s = ?s1" using um ir t by (simp add: readLoop_def rm read_data_def Let_def)
  then have c1: "cstep s ?s1" using cstep.read [OF assms(3)] by simp
  have c2: "cstep ?s1 (reader_send n ?m ?s1)" by (rule cstep.send) (simp_all add: assms(5))
  let ?s2 = "reader_send n ?m ?s1"
  have s2: "chans ?s2 n = ChFull ?m" "phases ?s2 n = Waiting" "reader ?s2 = Reading" "ws_in (cws ?s2) = rest"
    using assms(4,5) by (simp_all add: reader_send_def)
  have c3: "cstep ?s2 (call_receive n ?s2)" by (rule cstep.receive) (simp_all add: s2)
  have "phases (call_receive n ?s2) n = Finished (Inr ?m)" "reader (call_receive n ?s2) = Reading"
    "ws_in (cws (call_receive n ?s2)) = rest"
    using s2 by (simp_all add: call_receive_def)
  moreover have "MResult ?m = json_print v" "MError ?m = None" by (simp_all add: zero_Message_def)
  ultimately show ?thesis using c1 c2 c3 by blast
qed

subsection \<open>A concrete connection\<close>

text \<open>One call made on a connection on which its answer is already waiting.\<close>

definition answered_ws :: wsConn where
  "answered_ws = sample_ws\<lparr>ws_in := ws_frame True None opText (bytes_of (response_text 1 JNull))\<rparr>"

definition asked :: CodexClient where
  "asked = call_write 0 (call_register 0 (call_begin ''ping'' None (new_client answered_ws)))"

lemma write_line_ok:
  assumes "\<And>n. \<not> ws_wfail w n" "ws_open w"
  obtains w' where "write_line w p = (None, w')" "ws_in w' = ws_in w" "ws_open w'"
proof -
  obtain k where k: "writeFrame w opText p = (None, w\<lparr>ws_out := ws_out w @ ws_frame True (Some (ws_masks w (ws_nmask w))) opText p,
       ws_nmask := ws_nmask w + 1, ws_writes := k\<rparr>)" using writeFrame_ok [OF assms(1)] by blast
  then have "write_line w p = (None, snd (writeFrame w opText p))" using assms(2) by (simp add: write_line_def WriteText_def)
  then show thesis by (rule that) (simp_all add: k assms(2))
qed

lemma asked_facts:
  "cstep\<^sup>*\<^sup>* (new_client answered_ws) asked" "\<not> cclosed asked" "reader asked = Reading" "phases asked 0 = Waiting"
  "chans asked 0 = ChEmpty" "ReqID (reqs asked 0) = IntID 1"
  "ws_in (cws asked) = ws_frame True None opText (bytes_of (response_text 1 JNull)) @ []"
proof -
  let ?s1 = "call_begin ''ping'' None (new_client answered_ws)"
  let ?s2 = "call_register 0 ?s1"
  have p1: "phases ?s1 0 = Prepared" "\<not> cclosed ?s1" by (simp_all add: call_begin_def new_client_def)
  then have p2: "phases ?s2 0 = Registered" by (simp add: call_register_def)
  have "cstep (new_client answered_ws) ?s1" by (rule cstep.start) (simp add: new_client_def)
  moreover have "cstep ?s1 ?s2" using cstep.register p1(1) by blast
  moreover have "cstep ?s2 asked" unfolding asked_def using cstep.writing p2 by blast
  ultimately show "cstep\<^sup>*\<^sup>* (new_client answered_ws) asked" by (meson converse_rtranclp_into_rtranclp rtranclp.rtrancl_refl)
  have c: "cws ?s2 = answered_ws" "\<And>n. \<not> ws_wfail answered_ws n" "ws_open answered_ws"
    by (simp_all add: call_register_def call_begin_def new_client_def answered_ws_def sample_ws_def Let_def)
  obtain w' where w: "write_line answered_ws (request_line (reqs ?s2 0)) = (None, w')" "ws_in w' = ws_in answered_ws"
    using write_line_ok [OF c(2,3)] by metis
  have a: "asked = ?s2\<lparr>cws := w', phases := (phases ?s2)(0 := Waiting)\<rparr>"
    unfolding asked_def call_write_def using w by (simp add: c(1))
  show "\<not> cclosed asked" "reader asked = Reading" "phases asked 0 = Waiting"
    "chans asked 0 = ChEmpty" "ReqID (reqs asked 0) = IntID 1"
    unfolding a by (simp_all add: call_register_def call_begin_def new_client_def Let_def)
  show "ws_in (cws asked) = ws_frame True None opText (bytes_of (response_text 1 JNull)) @ []"
    unfolding a using w(2) by (simp add: answered_ws_def)
qed

lemma length_answer: "length (response_text 1 JNull) \<le> maxFrame"
proof -
  have "itoa 1 = ''1''" by (simp add: itoa_def nat_dec.simps byte_char_eq_iff)
  then have "length (response_text 1 JNull) \<le> 100"
    using length_json_quote [of "''id''"] length_json_quote [of "''result''"]
    by (simp add: response_text_def jmember_def)
  then show ?thesis by (simp add: maxFrame_def)
qed

theorem codex_client_never_panics_witness: "\<not> panicked asked \<and> done_closes asked \<le> 1"
  using codex_client_never_panics [OF asked_facts(1)] by simp

theorem codex_response_reaches_caller_witness:
  "\<exists>s1 s2 s3 m. cstep asked s1 \<and> cstep s1 s2 \<and> cstep s2 s3 \<and> phases s3 0 = Finished (Inr m)
    \<and> MResult m = ''null'' \<and> MError m = None \<and> reader s3 = Reading \<and> ws_in (cws s3) = []"
  using codex_response_reaches_caller [OF asked_facts(1-6) _ _ length_answer asked_facts(7)]
  by (simp add: maxNestingDepth_def)

lemma reached: "cstep\<^sup>*\<^sup>* s0 s \<Longrightarrow> cstep s s1 \<Longrightarrow> cstep s1 s2 \<Longrightarrow> cstep s2 s3 \<Longrightarrow> cstep\<^sup>*\<^sup>* s0 s3"
  by (meson rtranclp.rtrancl_into_rtrancl)

theorem codex_answers_correlated_witness:
  "\<exists>(s :: CodexClient) m. phases s 0 = Finished (Inr m) \<and> key (the (MID m)) = key (ReqID (reqs s 0))"
proof -
  let ?s1 = "readLoop asked" let ?m = "zero_Message\<lparr>MID := Some (IntID 1), MResult := ''null''\<rparr>"
  let ?s2 = "reader_send 0 ?m ?s1" let ?s3 = "call_receive 0 ?s2"
  have um: "unmarshalMessage (response_text 1 JNull) = Some ?m"
    using unmarshal_response [of 1 JNull] by (simp add: int64_def maxNestingDepth_def)
  have t: "pending asked (key (IntID 1)) = Some 0"
  proof -
    have i: "cinv asked" using codex.inv_steps [OF asked_facts(1) cinv_new_client] .
    then have "closing asked = None" using cinvD(5) [OF i] asked_facts(2) by (auto simp: flags_ok_def)
    then show ?thesis
      using cell_at [OF cinvD(2) [OF i], of 0] asked_facts(3-6) by (auto simp: cell_ok_def being_simps)
  qed
  have rm: "ReadMessage (cws asked) = (Inr (bytes_of (response_text 1 JNull)), (cws asked)\<lparr>ws_in := []\<rparr>)"
    using ReadMessage_text [OF asked_facts(7)] length_answer by simp
  have s1: "reader ?s1 = Sending 0 ?m" "chans ?s1 = chans asked" "phases ?s1 = phases asked"
    using um t by (simp_all add: readLoop_def rm read_data_def Let_def IsResponse_def zero_Message_def)
  have s2: "chans ?s2 0 = ChFull ?m" "phases ?s2 0 = Waiting"
    using s1 asked_facts(4,5) by (simp_all add: reader_send_def)
  have "cstep asked ?s1" using cstep.read asked_facts(3) by blast
  moreover have "cstep ?s1 ?s2" by (rule cstep.send) (simp_all add: s1 asked_facts)
  moreover have "cstep ?s2 ?s3" by (rule cstep.receive) (simp_all add: s2)
  ultimately have r: "cstep\<^sup>*\<^sup>* (new_client answered_ws) ?s3" using reached [OF asked_facts(1)] by blast
  have f: "phases ?s3 0 = Finished (Inr ?m)" using s2 by (simp add: call_receive_def)
  then show ?thesis using codex_answers_correlated [OF r f] by blast
qed

subsection \<open>The bytes of concurrent writers\<close>

text \<open>Requests are written one at a time, under \<open>writeMu\<close>.\<close>

fun write_lines :: "wsConn \<Rightarrow> bytes list \<Rightarrow> wsConn" where
  "write_lines w [] = w"
| "write_lines w (l # ls) = write_lines (snd (write_line w l)) ls"

lemma write_lines_out:
  assumes "\<And>n. \<not> ws_wfail w n" "ws_open w"
  shows "ws_out (write_lines w ls) = ws_out w
    @ concat (map (\<lambda>(mk, op, p). ws_frame True (Some mk) op p) (map (\<lambda>i. (ws_masks w (ws_nmask w + i), opText, ls ! i)) [0..<length ls]))"
  using assms
proof (induction ls arbitrary: w)
  case (Cons l ls)
  obtain k where k: "writeFrame w opText l = (None, w\<lparr>ws_out := ws_out w @ ws_frame True (Some (ws_masks w (ws_nmask w))) opText l,
       ws_nmask := ws_nmask w + 1, ws_writes := k\<rparr>)" using writeFrame_ok [OF Cons.prems(1)] by blast
  let ?w = "snd (writeFrame w opText l)"
  have w: "\<And>n. \<not> ws_wfail ?w n" "ws_open ?w" using Cons.prems k by simp_all
  have "[0..<length (l # ls)] = 0 # map Suc [0..<length ls]" by (simp only: list.size upt_conv_Cons map_Suc_upt) simp
  then show ?case using Cons.IH [OF w] Cons.prems(2) k by (simp add: write_line_def WriteText_def o_def)
qed simp

text \<open>
  Requests arrive whole and in order: what any number of calls wrote under the write lock,
  read frame by frame, is one final text frame for each request with exactly its bytes.
\<close>

theorem requests_read_in_order:
  assumes "\<And>n. \<not> ws_wfail w n" "ws_open w" "ws_out w = []" "\<And>n. length (ws_masks w n) = 4"
    and "\<forall>l\<in>set ls. length l \<le> maxFrame"
  shows "read_frames read_ws (length ls) (ws_out (write_lines w ls)) = Some (map (\<lambda>l. (opText, l, True)) ls, [])"
proof -
  let ?fs = "map (\<lambda>i. (ws_masks w (ws_nmask w + i), opText, ls ! i)) [0..<length ls]"
  have "list_all (\<lambda>(mk, op, p). ws_ok (Some mk) op p) ?fs"
    using assms(4,5) by (auto simp: list_all_iff ws_ok_def opText_def)
  moreover have "map (\<lambda>i. (opText, ls ! i, True)) [0..<length ls] = map (\<lambda>l. (opText, l, True)) ls"
    by (rule nth_equalityI) simp_all
  ultimately show ?thesis
    using write_lines_out [OF assms(1,2), of ls] assms(3) ws_frames.read_stream [of ?fs "[]"] by (simp add: o_def)
qed

theorem requests_read_in_order_witness:
  "read_frames read_ws (length [[65 :: 8 word], [66, 67]]) (ws_out (write_lines sample_ws [[65], [66, 67]]))
     = Some (map (\<lambda>l. (opText, l, True)) [[65], [66, 67]], [])"
  by (rule requests_read_in_order) (simp_all add: sample_ws_def maxFrame_def)

text \<open>The writes on the connection that one \<open>writeFrame\<close> makes.\<close>

definition frame_writes :: "bytes \<Rightarrow> nat \<Rightarrow> bytes \<Rightarrow> bytes list" where
  "frame_writes mk op p = (ws_head op (length p) @ mk) # (if p = [] then [] else [mask_bytes mk p])"

lemma writeFrame_writes:
  assumes "writeFrame w op p = (None, w')"
  shows "ws_out w' = ws_out w @ concat (frame_writes (ws_masks w (ws_nmask w)) op p)"
  using assms by (auto simp: writeFrame_def Let_def ws_write_def frame_writes_def split: prod.splits if_splits)

lemma after_in_shuffles: "ys @ xs \<in> shuffles xs ys"
  by (induction ys) (simp_all add: Cons_in_shuffles_rightI)

lemma request_line_head: "request_line r = 0x7B # tl (request_line r)"
  by (simp add: request_line_def json_of_Request_def bytes_of_def)

text \<open>
  (C40) The pong with which \<open>ReadMessage\<close> answers a ping is written without that lock, so its
  bytes may fall between the two writes of a request. For every request and every ping: read in
  the order of the calls, the bytes are the request and the pong; but when the pong falls between
  the head of the request and its body, the daemon reads one text message of the length of the
  request that begins with the bytes of the pong frame, which is another text than the request
  unless the random mask begins with one particular byte, and what is left of the pong and the
  body is read as the next frame.
\<close>

theorem unlocked_pong_corrupts_request:
  assumes "phases s n = Registered" "ws_open (cws s)" "\<And>k. \<not> ws_wfail (cws s) k" "\<And>k. length (ws_masks (cws s) k) = 4"
    and "ws_in (cws s) = ws_frame True None opPing p @ others" "length p \<le> maxFrame"
    and "length (request_line (reqs s n)) \<le> maxFrame"
  defines "line \<equiv> request_line (reqs s n)" and "mk \<equiv> ws_masks (cws s) (ws_nmask (cws s))"
    and "mk' \<equiv> ws_masks (cws s) (ws_nmask (cws s) + 1)"
  shows "cstep s (call_write n s) \<and> (\<exists>head bdy z. frame_writes mk opText line = [head, bdy]
    \<and> ws_out (cws (call_write n s)) = ws_out (cws s) @ head @ bdy
    \<and> ws_out (snd (ReadMessage (cws (call_write n s)))) = ws_out (cws s) @ head @ bdy @ concat (frame_writes mk' opPong p) @ z
    \<and> head # frame_writes mk' opPong p @ [bdy] \<in> shuffles (frame_writes mk opText line) (frame_writes mk' opPong p)
    \<and> readFrame e (concat (frame_writes mk opText line @ frame_writes mk' opPong p))
        = Inr ((opText, line, True), concat (frame_writes mk' opPong p))
    \<and> readFrame e (concat (head # frame_writes mk' opPong p @ [bdy]))
        = Inr ((opText, mask_bytes mk (take (length line) (concat (frame_writes mk' opPong p @ [bdy]))), True),
            drop (length line) (concat (frame_writes mk' opPong p @ [bdy])))
    \<and> (mk ! 0 \<noteq> 0xF1 \<longrightarrow> mask_bytes mk (take (length line) (concat (frame_writes mk' opPong p @ [bdy]))) \<noteq> line))"
proof -
  let ?w = "cws s" and ?pong = "frame_writes mk' opPong p" and ?b = "mask_bytes mk line"
  let ?head = "ws_head opText (length line) @ mk"
  let ?lost = "take (length line) (concat (?pong @ [?b]))"
  have ne: "line \<noteq> []" "line ! 0 = 0x7B" using request_line_head [of "reqs s n"] by (auto simp: line_def) (metis nth_Cons_0)
  have fw: "frame_writes mk opText line = [?head, ?b]" using ne(1) by (simp add: frame_writes_def)
  have ok: "ws_ok (Some mk) opText q" if "length q = length line" for q
    using assms(4,7) that by (simp add: ws_ok_def opText_def mk_def line_def)
  have fr: "ws_frame True (Some mk) opText q = ?head @ mask_bytes mk q" if "length q = length line" for q
    using that by (simp add: ws_frame_def ws_head_def split: prod.splits)
  obtain k where k: "writeFrame ?w opText line = (None, ?w\<lparr>ws_out := ws_out ?w @ ws_frame True (Some mk) opText line,
      ws_nmask := ws_nmask ?w + 1, ws_writes := k\<rparr>)" unfolding mk_def by (rule writeFrame_ok [OF assms(3)])
  let ?v = "?w\<lparr>ws_out := ws_out ?w @ ws_frame True (Some mk) opText line, ws_nmask := ws_nmask ?w + 1, ws_writes := k\<rparr>"
  have cw: "cws (call_write n s) = ?v"
    using assms(2) k by (simp add: call_write_def write_line_def WriteText_def line_def)
  have "\<exists>z. ws_out (snd (ReadMessage ?v)) = ws_out ?v @ concat ?pong @ z"
  proof -
    have rf: "readFrame (ws_end ?v) (ws_in ?v) = Inr ((opPing, p, True), others)"
      using assms(5,6) readFrame_ws_frame [of None opPing p] by (simp add: ws_ok_def opPing_def)
    have nf: "\<And>n. \<not> ws_wfail (?v\<lparr>ws_in := others\<rparr>) n" using assms(3) by simp
    obtain x where x: "writeFrame (?v\<lparr>ws_in := others\<rparr>) opPong p = (None, x)" using writeFrame_ok [OF nf] by metis
    have "ws_out x = ws_out ?v @ concat ?pong" using writeFrame_writes [OF x] by (simp add: mk'_def)
    moreover have "ReadMessage ?v = read_message [] 0 x"
      unfolding ReadMessage_def read_message.simps [of "[]" 0 ?v] rf using x by simp
    moreover obtain r y where y: "read_message [] 0 x = (r, y)" by force
    moreover obtain z where "ws_out y = ws_out x @ z" using read_message_effect [OF y] by blast
    ultimately show ?thesis by auto
  qed
  then obtain z where z: "ws_out (snd (ReadMessage ?v)) = ws_out ?v @ concat ?pong @ z" by blast
  have ll: "length ?lost = length line" by simp
  have "concat (?head # ?pong @ [?b]) = ws_frame True (Some mk) opText (mask_bytes mk ?lost)
      @ drop (length line) (concat (?pong @ [?b]))"
    using fr [of "mask_bytes mk ?lost"] ll by (simp only: length_mask_bytes mask_bytes_twice concat.simps append_assoc append_take_drop_id)
  then have corrupt: "readFrame e (concat (?head # ?pong @ [?b]))
      = Inr ((opText, mask_bytes mk ?lost, True), drop (length line) (concat (?pong @ [?b])))"
    using readFrame_ws_frame [OF ok, of "mask_bytes mk ?lost" e True] ll by simp
  have whole: "readFrame e (concat (frame_writes mk opText line @ ?pong)) = Inr ((opText, line, True), concat ?pong)"
    using readFrame_ws_frame [OF ok [OF refl], of e True "concat ?pong"] fr [OF refl] fw by simp
  have "mask_bytes mk ?lost \<noteq> line" if "mk ! 0 \<noteq> 0xF1"
  proof
    assume e: "mask_bytes mk ?lost = line"
    have "?lost ! 0 = 0x8A" using ne(1) by (cases line) (simp_all add: frame_writes_def ws_head_def opPong_def split: prod.splits)
    then have "mask_bytes mk ?lost ! 0 = 0x8A XOR mk ! 0" using ne(1) ll by (simp add: mask_bytes_def)
    with e ne(2) have "0x8A XOR mk ! 0 = (0x7B :: 8 word)" by simp
    then have "0x8A XOR (0x8A XOR mk ! 0) = 0x8A XOR (0x7B :: 8 word)" by simp
    then show False using that by (simp add: xor.assoc [symmetric])
  qed
  moreover have "?head # ?pong @ [?b] \<in> shuffles (frame_writes mk opText line) ?pong"
    unfolding fw by (intro Cons_in_shuffles_leftI after_in_shuffles)
  moreover have "cstep s (call_write n s)" by (rule cstep.writing [OF assms(1)])
  ultimately show ?thesis
    using fw cw z fr [OF refl] corrupt whole
    by (intro conjI exI [of _ ?head] exI [of _ ?b] exI [of _ z]) simp_all
qed

definition pinged :: CodexClient where
  "pinged = call_register 0 (call_begin ''ping'' None (new_client (sample_ws\<lparr>ws_in := ws_frame True None opPing [9]\<rparr>)))"

lemma pinged_facts:
  "phases pinged 0 = Registered" "cws pinged = sample_ws\<lparr>ws_in := ws_frame True None opPing [9]\<rparr>"
  "length (request_line (reqs pinged 0)) \<le> maxFrame"
proof -
  show "phases pinged 0 = Registered" "cws pinged = sample_ws\<lparr>ws_in := ws_frame True None opPing [9]\<rparr>"
    by (simp_all add: pinged_def call_register_def call_begin_def new_client_def Let_def)
  have r: "reqs pinged 0 = \<lparr>ReqID = IntID 1, Method = ''ping'', Params = None\<rparr>"
    by (simp add: pinged_def call_register_def call_begin_def new_client_def Let_def)
  have "itoa 1 = ''1''" by (simp add: itoa_def nat_dec.simps byte_char_eq_iff)
  then have "length (request_line (reqs pinged 0)) \<le> 200"
    using length_json_quote [of "''id''"] length_json_quote [of "''method''"] length_json_quote [of "''ping''"]
    unfolding r by (simp add: request_line_def json_of_Request_def jmember_def json_of_RequestID_def IntID_def)
  then show "length (request_line (reqs pinged 0)) \<le> maxFrame" by (simp add: maxFrame_def)
qed

theorem unlocked_pong_corrupts_request_witness:
  "\<exists>z q rest. z \<in> shuffles (frame_writes [1, 2, 3, 4] opText (request_line (reqs pinged 0))) (frame_writes [1, 2, 3, 4] opPong [9])
     \<and> read_ws (concat z) = Some ((opText, q, True), rest) \<and> q \<noteq> request_line (reqs pinged 0)"
proof -
  have w: "ws_open (cws pinged)" "\<not> ws_wfail (cws pinged) k" "length (ws_masks (cws pinged) k) = 4"
    "ws_in (cws pinged) = ws_frame True None opPing [9] @ []" "ws_masks (cws pinged) k = [1, 2, 3, 4]" "[1, 2, 3, 4] ! 0 \<noteq> (0xF1 :: 8 word)" for k
    by (simp_all add: pinged_facts(2) sample_ws_def)
  have l: "length [9 :: 8 word] \<le> maxFrame" by (simp add: maxFrame_def)
  show ?thesis
    using unlocked_pong_corrupts_request [OF pinged_facts(1) w(1,2,3,4) l pinged_facts(3), of "Ends EOF"] w(6)
    unfolding w(5) read_ws_def by (elim conjE exE) (auto intro!: exI simp del: concat.simps)
qed

subsection \<open>Dialling\<close>

text \<open>
  \<open>Dial\<close> hands out a client only on a usable socket and after a complete upgrade: the path
  passed the check, the answer to this connection's own request had status 101, named the
  websocket protocol and carried the token computed from the nonce; the client then starts with
  nothing pending, at the first byte after the response.
\<close>

theorem codex_dial_checked:
  assumes "DialCodex h opt nonce conn answer = Inr c"
  shows "\<exists>path resp. (if OSocketPath opt = [] then DefaultSocket h = Inr path else path = OSocketPath opt)
    \<and> CheckSocketPath h path = None
    \<and> answer (upgrade_request ''localhost'' (if OPath opt = [] then ''/'' else OPath opt) (base64 nonce)) = Some resp
    \<and> StatusCode resp = 101 \<and> foldName (header_get resp ''Upgrade'') = foldName ''websocket''
    \<and> header_get resp ''Sec-WebSocket-Accept'' = wsAccept (base64 nonce)
    \<and> c = new_client (cws c) \<and> ws_in (cws c) = After resp"
proof -
  obtain path w where p: "dial_path h opt = Inr path"
    "wsHandshake nonce conn answer ''localhost'' (if OPath opt = [] then ''/'' else OPath opt) = Inr w" "c = new_client w"
    using assms by (auto simp: DialCodex_def Let_def split: sum.splits if_splits)
  have "CheckSocketPath h path = None"
    using p(1) by (auto simp: dial_path_def Let_def DefaultSocket_def split: if_splits option.splits sum.splits)
  moreover have "if OSocketPath opt = [] then DefaultSocket h = Inr path else path = OSocketPath opt"
    using p(1) by (auto simp: dial_path_def Let_def split: if_splits option.splits)
  moreover have "cws c = w" "c = new_client (cws c)" using p(3) by (simp_all add: new_client_def)
  ultimately show ?thesis using wsHandshake_Inr [OF p(2)] by metis
qed

definition good_answer :: "bytes \<Rightarrow> gostring \<Rightarrow> http_response option" where
  "good_answer nonce req = Some \<lparr>StatusCode = 101,
     Headers = [(''Upgrade'', ''WebSocket''), (''Sec-WebSocket-Accept'', wsAccept (base64 nonce))], After = [7]\<rparr>"

lemma upgrade_names:
  "foldName ''Upgrade'' = [85, 80, 71, 82, 65, 68, 69]"
  "foldName ''Sec-WebSocket-Accept'' = [83, 69, 67, 45, 87, 69, 66, 83, 79, 67, 75, 69, 84, 45, 65, 67, 67, 69, 80, 84]"
  "foldName ''websocket'' = [87, 69, 66, 83, 79, 67, 75, 69, 84]" "foldName ''WebSocket'' = [87, 69, 66, 83, 79, 67, 75, 69, 84]"
  by (simp_all add: foldName_def runes_ascii foldRune_def)

lemma dial_daemon_host:
  "\<exists>c. DialCodex daemon_host \<lparr>OSocketPath = [], OPath = []\<rparr> nonce sample_ws (good_answer nonce) = Inr c"
proof -
  have "\<not> h_fault daemon_host f p" for f p by (simp add: daemon_host_def idle_host_def)
  moreover have "fst (ws_write sample_ws b) = None" for b by (simp add: ws_write_def sample_ws_def)
  ultimately show ?thesis
    by (auto simp: DialCodex_def dial_path_def DefaultSocket_daemon_host wsHandshake_def good_answer_def header_get_def
        upgrade_names Let_def split: prod.splits option.splits) (metis fst_conv option.distinct(1))+
qed

theorem codex_dial_checked_witness:
  "\<exists>c. DialCodex daemon_host \<lparr>OSocketPath = [], OPath = []\<rparr> [1, 2, 3] sample_ws (good_answer [1, 2, 3]) = Inr c
     \<and> c = new_client (cws c)"
  using dial_daemon_host [of "[1, 2, 3]"] codex_dial_checked by metis

end
