(* ===== verification/Uuid7.thy ===== *)
theory Uuid7
  imports Frame Ws
begin

text \<open>
  \<open>codexmsg/uuid.go\<close>: the time-ordered ids of queued messages. The clock and the sixteen
  random bytes are arguments. \<open>str_less\<close> is the byte order of strings, in which such ids are
  sorted.
\<close>

text \<open>\<open>format\<close>: the five groups of hexadecimal digits.\<close>

definition v7_format :: "bytes \<Rightarrow> gostring" where
  "v7_format b =
     (let h = hexEncode b in
      take 8 h @ ''-'' @ take 4 (drop 8 h) @ ''-'' @ take 4 (drop 12 h) @ ''-'' @ take 4 (drop 16 h) @ ''-''
        @ take 12 (drop 20 h))"

unbundle bit_operations_syntax

text \<open>\<open>binary.BigEndian.PutUint64(ts[:], ms<<16)\<close>, of which the first six bytes are kept.\<close>

definition stamp :: "64 word \<Rightarrow> bytes" where
  "stamp ms = take 6 (put_be 8 (unat (push_bit 16 ms)))"

definition NewUUIDv7 :: "64 word \<Rightarrow> bytes \<Rightarrow> gostring" where
  "NewUUIDv7 ms rnd =
     (let b1 = stamp ms @ drop 6 rnd;
          b2 = b1[6 := ((b1 ! 6) AND 0x0F) OR 0x70];
          b3 = b2[8 := ((b2 ! 8) AND 0x3F) OR 0x80]
      in v7_format b3)"

fun str_less :: "gostring \<Rightarrow> gostring \<Rightarrow> bool" where
  "str_less [] t \<longleftrightarrow> t \<noteq> []"
| "str_less (a # s) [] \<longleftrightarrow> False"
| "str_less (a # s) (b # t) \<longleftrightarrow> bv a < bv b \<or> a = b \<and> str_less s t"

subsection \<open>The order of ids\<close>

lemma str_less_append: "length s = length t \<Longrightarrow> str_less s t \<Longrightarrow> str_less (s @ u) (t @ v)"
  by (induction s t rule: list_induct2) auto

lemma str_less_prefix [simp]: "str_less (p @ s) (p @ t) \<longleftrightarrow> str_less s t"
  by (induction p) auto

lemma str_less_dash:
  "length s = length t \<Longrightarrow> str_less (s @ u) (t @ v) \<Longrightarrow> str_less (s @ d @ u) (t @ d @ v)"
  by (induction s t rule: list_induct2) auto

fun bytes_less :: "bytes \<Rightarrow> bytes \<Rightarrow> bool" where
  "bytes_less (a # s) (b # t) \<longleftrightarrow> a < b \<or> a = b \<and> bytes_less s t"
| "bytes_less s t \<longleftrightarrow> False"

lemma hex_digit_less: "m < n \<Longrightarrow> n < 16 \<Longrightarrow> bv (hex_digit m) < bv (hex_digit n)"
  by (auto simp: hex_digit_def)

lemma hexEncode_less:
  "length s = length t \<Longrightarrow> bytes_less s t \<Longrightarrow> str_less (hexEncode s) (hexEncode t)"
proof (induction s t rule: list_induct2)
  case (Cons a s b t)
  have "unat a div 16 < unat b div 16 \<or> unat a div 16 = unat b div 16 \<and> unat a mod 16 < unat b mod 16"
    if "a < b"
  proof -
    have "unat a < unat b" using that by (simp add: word_less_nat_alt)
    then show ?thesis
      by (metis div_le_mono div_mult_mod_eq le_neq_implies_less less_imp_le nat_add_left_cancel_less)
  qed
  moreover have "unat b div 16 < 16" using unat_8_bound [of b] by linarith
  ultimately show ?case
    using Cons hex_digit_less [of "unat a div 16" "unat b div 16"] hex_digit_less [of "unat a mod 16" "unat b mod 16"]
    by (auto simp: hexEncode_def)
qed simp

lemma put_be_less:
  "m mod 256 ^ k < n mod 256 ^ k \<Longrightarrow> bytes_less (put_be k m) (put_be k n)"
proof (induction k)
  case (Suc k)
  let ?d = "\<lambda>x. x div 256 ^ k mod 256" and ?r = "\<lambda>x. x mod 256 ^ k"
  have e: "x mod 256 ^ Suc k = 256 ^ k * ?d x + ?r x" for x :: nat
    by (metis mod_mult2_eq mult.commute power_Suc)
  have "?d m < ?d n \<or> ?d m = ?d n \<and> ?r m < ?r n"
  proof (rule ccontr)
    assume "\<not> ?thesis"
    then consider "?d m > ?d n" | "?d m = ?d n" "?r n \<le> ?r m" by linarith
    then show False
    proof cases
      case 1
      then have "256 ^ k * (?d n + 1) \<le> 256 ^ k * ?d m" by (intro mult_le_mono2) simp
      moreover have "?r n < 256 ^ k" by simp
      ultimately show False using Suc.prems unfolding e by (simp add: algebra_simps)
    next
      case 2
      then show False using Suc.prems unfolding e by simp
    qed
  qed
  then show ?case
    using Suc.IH by (auto simp: word_less_nat_alt unat_of_nat word_unat_eq_iff)
qed simp

lemma take_put_be: "j \<le> k \<Longrightarrow> take j (put_be k n) = put_be j (n div 256 ^ (k - j))"
proof (induction j arbitrary: k)
  case (Suc j)
  then obtain k' where k: "k = Suc k'" by (cases k) auto
  have "n div 256 ^ k' = n div 256 ^ (k' - j) div 256 ^ j"
    using Suc.prems k by (simp add: div_mult2_eq [symmetric] power_add [symmetric])
  then show ?case using Suc k by simp
qed simp

lemma stamp_less:
  assumes "ms < ms'" "ms' < 2 ^ 48"
  shows "bytes_less (stamp ms) (stamp ms')"
proof -
  have b: "unat ms < unat ms'" "unat ms' < 2 ^ 48"
    using assms by (simp_all add: word_less_nat_alt)
  have s: "unat (push_bit 16 m) = unat m * 2 ^ 16" if "unat m < 2 ^ 48" for m :: "64 word"
    using that by (simp add: push_bit_eq_mult unat_word_ariths)
  show ?thesis
    using b s [of ms] s [of ms'] by (simp add: stamp_def take_put_be put_be_less)
qed

lemma length_stamp [simp]: "length (stamp ms) = 6"
  by (simp add: stamp_def)

lemma hexEncode_append: "hexEncode (a @ b) = hexEncode a @ hexEncode b"
  by (simp add: hexEncode_def)

lemma v7_format_less:
  assumes "length a = 6" "length b = 6" "bytes_less a b" "length c = length d"
  shows "str_less (v7_format (a @ c)) (v7_format (b @ d))"
proof -
  let ?a = "hexEncode a" and ?b = "hexEncode b"
  have l: "length ?a = 12" "length ?b = 12" using assms by simp_all
  have f: "\<exists>u. v7_format (x @ y) = take 8 (hexEncode x) @ ''-'' @ drop 8 (hexEncode x) @ u"
    if "length x = 6" for x y
    using that by (auto simp: v7_format_def Let_def hexEncode_append)
  have "str_less (take 8 ?a @ drop 8 ?a) (take 8 ?b @ drop 8 ?b)"
    using assms hexEncode_less [of a b] by simp
  then have "str_less (take 8 ?a @ ''-'' @ drop 8 ?a) (take 8 ?b @ ''-'' @ drop 8 ?b)"
    by (intro str_less_dash) (simp_all add: l assms(1,2))
  then have "str_less ((take 8 ?a @ ''-'' @ drop 8 ?a) @ u) ((take 8 ?b @ ''-'' @ drop 8 ?b) @ v)" for u v
    by (rule str_less_append [rotated]) (simp add: assms(1,2))
  then show ?thesis using f [OF assms(1), of c] f [OF assms(2), of d] by auto
qed

text \<open>Two later bytes are rewritten in place, so the stamp stays in front.\<close>

lemma NewUUIDv7_shape:
  assumes "length rnd = 16"
  obtains t where "NewUUIDv7 ms rnd = v7_format (stamp ms @ t)" "length t = 10"
    "\<exists>l. t ! 0 = (l AND 0x0F) OR 0x70" "\<exists>l. t ! 2 = (l AND 0x3F) OR 0x80"
proof
  let ?t = "drop 6 rnd"
  let ?u = "?t[0 := (?t ! 0 AND 0x0F) OR 0x70, 2 := (?t ! 2 AND 0x3F) OR 0x80]"
  show "NewUUIDv7 ms rnd = v7_format (stamp ms @ ?u)"
    using assms by (simp add: NewUUIDv7_def Let_def nth_append list_update_append)
  show "length ?u = 10" using assms by simp
  show "\<exists>l. ?u ! 0 = (l AND 0x0F) OR 0x70" "\<exists>l. ?u ! 2 = (l AND 0x3F) OR 0x80"
    using assms by auto
qed

lemma version_nibble: "unat (((l :: 8 word) AND 0x0F) OR 0x70) div 16 = 7"
proof -
  have "drop_bit 4 ((l AND 0x0F) OR 0x70) = (7 :: 8 word)"
    by (rule bit_word_eqI) (auto simp: bit_simps less_Suc_eq numeral_eq_Suc)
  then have "unat (drop_bit 4 ((l AND 0x0F) OR 0x70)) = 7" by simp
  then show ?thesis by (simp add: drop_bit_eq_div unat_div_distrib)
qed

lemma v7_format_version:
  assumes "length a = 6" "length t = 10" "unat (t ! 0) div 16 = 7"
  shows "v7_format (a @ t) ! 14 = CHR ''7''"
proof -
  obtain x u where t: "t = x # u" "length u = 9" using assms(2) by (cases t) auto
  have "hexEncode (a @ t) ! 12 = hex_digit 7"
    using assms t by (simp add: hexEncode_append nth_append) (simp add: hexEncode_def)
  moreover have "hex_digit 7 = CHR ''7''" by (simp add: hex_digit_def byte_char_eq_iff)
  ultimately show ?thesis using assms by (simp add: v7_format_def Let_def nth_append)
qed

text \<open>
  (C39) Ids made at different milliseconds sort by when they were made, whatever the random
  bytes: the id of the later one is the greater string, as long as the clock fits the 48 bits
  the format has for it. An id has the shape of an id, and its version digit is 7.
\<close>

theorem uuid7_time_ordered:
  assumes "ms < ms'" "ms' < 2 ^ 48" "length rnd = 16" "length rnd' = 16"
  shows "str_less (NewUUIDv7 ms rnd) (NewUUIDv7 ms' rnd') \<and> msgIDPattern (NewUUIDv7 ms rnd)
    \<and> NewUUIDv7 ms rnd ! 14 = CHR ''7''"
proof -
  obtain t l where t: "NewUUIDv7 ms rnd = v7_format (stamp ms @ t)" "length t = 10" "t ! 0 = (l AND 0x0F) OR 0x70"
    using NewUUIDv7_shape [OF assms(3)] by metis
  obtain t' where t': "NewUUIDv7 ms' rnd' = v7_format (stamp ms' @ t')" "length t' = 10"
    using NewUUIDv7_shape [OF assms(4)] by metis
  have "v7_format b = uuid_format b" for b by (simp add: v7_format_def uuid_format_def Let_def)
  then have "msgIDPattern (NewUUIDv7 ms rnd)" using t uuid_format_pattern [of "stamp ms @ t"] by simp
  moreover have "str_less (NewUUIDv7 ms rnd) (NewUUIDv7 ms' rnd')"
    unfolding t t' by (rule v7_format_less) (use assms t t' in \<open>simp_all add: stamp_less\<close>)
  moreover have "NewUUIDv7 ms rnd ! 14 = CHR ''7''"
    unfolding t(1) by (rule v7_format_version) (simp_all add: t version_nibble)
  ultimately show ?thesis by simp
qed

theorem uuid7_time_ordered_witness:
  "str_less (NewUUIDv7 1700000000000 (replicate 16 0xFF)) (NewUUIDv7 1700000000001 (replicate 16 0))
     \<and> msgIDPattern (NewUUIDv7 1700000000000 (replicate 16 0xFF))
     \<and> NewUUIDv7 1700000000000 (replicate 16 0xFF) ! 14 = CHR ''7''"
  by (rule uuid7_time_ordered) simp_all

end
