(* ===== verification/Methods.thy ===== *)
theory Methods
  imports Codex_Client Uuid7
begin

text \<open>
  \<open>codexmsg/methods.go\<close>: the two requests that push a message into a thread. A method is given
  the outcome of \<open>Call\<close> for each request it may make; the steps that lead there are those of
  the client.
\<close>

type_synonym caller = "gostring \<Rightarrow> json option \<Rightarrow> call_error + Message"

definition MethodInitialize :: gostring where "MethodInitialize = ''initialize''"
definition MethodThreadQueueAdd :: gostring where "MethodThreadQueueAdd = ''thread/queue/add''"

record ClientInfo =
  CIName :: gostring
  CITitle :: "gostring option"
  CIVersion :: gostring

record Capabilities =
  ExperimentalAPI :: bool

record InitializeParams =
  IPClientInfo :: ClientInfo
  IPCapabilities :: "Capabilities option"

definition json_of_ClientInfo :: "ClientInfo \<Rightarrow> json" where
  "json_of_ClientInfo c = JObj
     ([jmember ''name'' (JStr (CIName c))]
      @ (case CITitle c of None \<Rightarrow> [] | Some t \<Rightarrow> [jmember ''title'' (JStr t)])
      @ [jmember ''version'' (JStr (CIVersion c))])"

definition json_of_Capabilities :: "Capabilities \<Rightarrow> json" where
  "json_of_Capabilities c = JObj (if ExperimentalAPI c then [jmember ''experimentalApi'' (JBool True)] else [])"

definition json_of_InitializeParams :: "InitializeParams \<Rightarrow> json" where
  "json_of_InitializeParams p = JObj
     ([jmember ''clientInfo'' (json_of_ClientInfo (IPClientInfo p))]
      @ (case IPCapabilities p of None \<Rightarrow> [] | Some c \<Rightarrow> [jmember ''capabilities'' (json_of_Capabilities c)]))"

text \<open>The raw result is handed over undecoded.\<close>

definition Initialize :: "lib_text \<Rightarrow> caller \<Rightarrow> InitializeParams \<Rightarrow> go_error + gostring" where
  "Initialize lib call p =
     (if CIName (IPClientInfo p) = [] then Inl (Plain ''initialize needs a client name'')
      else let p1 = (if CIVersion (IPClientInfo p) = []
                     then p\<lparr>IPClientInfo := (IPClientInfo p)\<lparr>CIVersion := ''0.0.0''\<rparr>\<rparr> else p)
           in call_result lib MethodInitialize Some []
                (call MethodInitialize (Some (json_of_InitializeParams p1))))"

subsection \<open>User input\<close>

record UserInput =
  UIType :: gostring
  UIText :: gostring
  UITextElements :: "json list option"       \<comment> \<open>\<open>None\<close> is the nil slice\<close>

definition zero_UserInput :: UserInput where
  "zero_UserInput = \<lparr>UIType = [], UIText = [], UITextElements = None\<rparr>"

definition TextInput :: "gostring \<Rightarrow> UserInput" where
  "TextInput text = \<lparr>UIType = ''text'', UIText = text, UITextElements = Some []\<rparr>"

definition json_of_UserInput :: "UserInput \<Rightarrow> json" where
  "json_of_UserInput u = JObj
     ([jmember ''type'' (JStr (UIType u))] @ omit_str ''text'' (UIText u)
      @ [jmember ''text_elements'' (case UITextElements u of None \<Rightarrow> JNull | Some l \<Rightarrow> JArr l)])"

definition dec_elements :: "json \<Rightarrow> json list option option" where
  "dec_elements v = (case v of JNull \<Rightarrow> Some None | JArr l \<Rightarrow> Some (Some l) | _ \<Rightarrow> None)"

definition dec_UserInput :: "UserInput field_decoder" where
  "dec_UserInput u kv =
     (case kv of (k, _, v) \<Rightarrow>
        if foldName k = foldName ''type'' then map_option (\<lambda>x. u\<lparr>UIType := x\<rparr>) (dec_str (UIType u) v)
        else if foldName k = foldName ''text'' then map_option (\<lambda>x. u\<lparr>UIText := x\<rparr>) (dec_str (UIText u) v)
        else if foldName k = foldName ''text_elements'' then
          map_option (\<lambda>x. u\<lparr>UITextElements := x\<rparr>) (dec_elements v)
        else Some u)"

text \<open>
  An array is decoded into the elements a slice already has, as far as they go. (What an earlier
  and longer array left behind the end of the slice is not modelled.)
\<close>

fun dec_inputs :: "UserInput list \<Rightarrow> json list \<Rightarrow> UserInput list option" where
  "dec_inputs cur [] = Some []"
| "dec_inputs cur (v # vs) =
     (case dec_struct dec_UserInput (case cur of [] \<Rightarrow> zero_UserInput | u # _ \<Rightarrow> u) v of
        None \<Rightarrow> None
      | Some u \<Rightarrow> map_option (Cons u) (dec_inputs (tl cur) vs))"

subsection \<open>Queueing\<close>

record ThreadQueueAddParams =
  QThreadID :: gostring
  QInput :: "UserInput list"
  QClientUserMessageID :: gostring

definition json_of_ThreadQueueAddParams :: "ThreadQueueAddParams \<Rightarrow> json" where
  "json_of_ThreadQueueAddParams p = JObj
     [jmember ''threadId'' (JStr (QThreadID p)), jmember ''input'' (JArr (map json_of_UserInput (QInput p))),
      jmember ''clientUserMessageId'' (JStr (QClientUserMessageID p))]"

record QueuedSubmission =
  QSID :: gostring
  QSInput :: "UserInput list"
  QSClientUserMessageID :: gostring

definition zero_QueuedSubmission :: QueuedSubmission where
  "zero_QueuedSubmission = \<lparr>QSID = [], QSInput = [], QSClientUserMessageID = []\<rparr>"

text \<open>\<open>ThreadQueueAddResult\<close> has one field, the submission; it is identified with it.\<close>

type_synonym ThreadQueueAddResult = QueuedSubmission

definition json_of_QueuedSubmission :: "QueuedSubmission \<Rightarrow> json" where
  "json_of_QueuedSubmission q = JObj
     ([jmember ''id'' (JStr (QSID q))]
      @ (if QSInput q = [] then [] else [jmember ''input'' (JArr (map json_of_UserInput (QSInput q)))])
      @ omit_str ''clientUserMessageId'' (QSClientUserMessageID q))"

definition json_of_ThreadQueueAddResult :: "ThreadQueueAddResult \<Rightarrow> json" where
  "json_of_ThreadQueueAddResult q = JObj [jmember ''queuedSubmission'' (json_of_QueuedSubmission q)]"

definition dec_QueuedSubmission :: "QueuedSubmission field_decoder" where
  "dec_QueuedSubmission q kv =
     (case kv of (k, _, v) \<Rightarrow>
        if foldName k = foldName ''id'' then map_option (\<lambda>x. q\<lparr>QSID := x\<rparr>) (dec_str (QSID q) v)
        else if foldName k = foldName ''input'' then
          map_option (\<lambda>x. q\<lparr>QSInput := x\<rparr>)
            (case v of JNull \<Rightarrow> Some [] | JArr vs \<Rightarrow> dec_inputs (QSInput q) vs | _ \<Rightarrow> None)
        else if foldName k = foldName ''clientUserMessageId'' then
          map_option (\<lambda>x. q\<lparr>QSClientUserMessageID := x\<rparr>) (dec_str (QSClientUserMessageID q) v)
        else Some q)"

definition dec_ThreadQueueAddResult :: "ThreadQueueAddResult field_decoder" where
  "dec_ThreadQueueAddResult r kv =
     (case kv of (k, _, v) \<Rightarrow>
        if foldName k = foldName ''queuedSubmission'' then dec_struct dec_QueuedSubmission r v else Some r)"

definition unmarshalQueued :: "gostring \<Rightarrow> ThreadQueueAddResult option" where
  "unmarshalQueued raw =
     (case json_parse raw of
        None \<Rightarrow> None
      | Some v \<Rightarrow> dec_struct dec_ThreadQueueAddResult zero_QueuedSubmission v)"

definition unsupported_text :: gostring where
  "unsupported_text = ''the app-server daemon does not support '' @ MethodThreadQueueAdd @ ''; update or restart it''"

definition experimental_text :: gostring where
  "experimental_text = MethodThreadQueueAdd @ '' needs the experimentalApi capability: initialize with ''
     @ ''Capabilities{ExperimentalAPI: true}''"

text \<open>\<open>fresh\<close> is the id \<open>NewUUIDv7\<close> makes when the caller gives none.\<close>

definition QueueMessage ::
    "lib_text \<Rightarrow> caller \<Rightarrow> gostring \<Rightarrow> gostring \<Rightarrow> gostring \<Rightarrow> gostring \<Rightarrow> go_error + ThreadQueueAddResult" where
  "QueueMessage lib call fresh threadID text clientMessageID =
     (let cid = (if clientMessageID = [] then fresh else clientMessageID);
          params = \<lparr>QThreadID = threadID, QInput = [TextInput text], QClientUserMessageID = cid\<rparr>
      in case call_result lib MethodThreadQueueAdd unmarshalQueued zero_QueuedSubmission
                (call MethodThreadQueueAdd (Some (json_of_ThreadQueueAddParams params))) of
           Inr out \<Rightarrow> Inr out
         | Inl err \<Rightarrow>
             if IsMethodNotFound err then
               Inl (Wrapped unsupported_text err)
             else if Contains (error_text err) ''experimentalApi'' then
               Inl (Wrapped experimental_text err)
             else Inl err)"

subsection \<open>What the daemon echoes is what the caller gets\<close>

lemma method_names:
  "foldName ''text'' = [84, 69, 88, 84]"
  "foldName ''text_elements'' = [84, 69, 88, 84, 95, 69, 76, 69, 77, 69, 78, 84, 83]"
  "foldName ''input'' = [73, 78, 80, 85, 84]"
  "foldName ''clientUserMessageId'' = [67, 76, 73, 69, 78, 84, 85, 83, 69, 82, 77, 69, 83, 83, 65, 71, 69, 73, 68]"
  "foldName ''queuedSubmission'' = [81, 85, 69, 85, 69, 68, 83, 85, 66, 77, 73, 83, 83, 73, 79, 78]"
  by (simp_all add: foldName_def runes_ascii foldRune_def)

lemma method_keys:
  "toValid ''text'' = ''text''" "toValid ''text_elements'' = ''text_elements''" "toValid ''input'' = ''input''"
  "toValid ''clientUserMessageId'' = ''clientUserMessageId''" "toValid ''queuedSubmission'' = ''queuedSubmission''"
  by (simp_all add: toValid_ascii)

definition norm_UserInput :: "UserInput \<Rightarrow> UserInput" where
  "norm_UserInput u = u\<lparr>UIType := toValid (UIType u), UIText := toValid (UIText u)\<rparr>"

definition norm_QueuedSubmission :: "QueuedSubmission \<Rightarrow> QueuedSubmission" where
  "norm_QueuedSubmission q = \<lparr>QSID = toValid (QSID q), QSInput = map norm_UserInput (QSInput q),
     QSClientUserMessageID = toValid (QSClientUserMessageID q)\<rparr>"

text \<open>Inputs without spans, which is what this client sends.\<close>

definition plain_inputs :: "UserInput list \<Rightarrow> bool" where
  "plain_inputs us \<longleftrightarrow> list_all (\<lambda>u. UITextElements u = Some []) us"

lemma dec_UserInput_print:
  assumes "UITextElements u = Some []"
  shows "dec_struct dec_UserInput zero_UserInput (jnorm (json_of_UserInput u)) = Some (norm_UserInput u)"
  using assms toValid_keys(2)
  by (cases u) (simp add: json_of_UserInput_def dec_struct_def dec_members_append dec_UserInput_def jmember_def omit_str_def
      method_names field_names method_keys dec_str_def dec_elements_def zero_UserInput_def norm_UserInput_def)

lemma dec_inputs_print: "plain_inputs us \<Longrightarrow> dec_inputs [] (map jnorm (map json_of_UserInput us)) = Some (map norm_UserInput us)"
  by (induction us) (simp_all add: plain_inputs_def dec_UserInput_print)

lemma dec_QueuedSubmission_print:
  assumes "plain_inputs (QSInput q)"
  shows "dec_struct dec_QueuedSubmission zero_QueuedSubmission (jnorm (json_of_QueuedSubmission q))
    = Some (norm_QueuedSubmission q)"
  using dec_inputs_print [OF assms]
  by (cases q) (auto simp: json_of_QueuedSubmission_def dec_struct_def dec_members_append dec_QueuedSubmission_def jmember_def
      omit_str_def method_names rpc_names method_keys rpc_keys dec_str_def zero_QueuedSubmission_def
      norm_QueuedSubmission_def)

lemma printable_QueuedSubmission:
  assumes "plain_inputs (QSInput q)"
  shows "printable (json_of_ThreadQueueAddResult q)" "jdepth (json_of_ThreadQueueAddResult q) \<le> maxNestingDepth"
proof -
  have u: "printable (json_of_UserInput u)" "jdepth (json_of_UserInput u) \<le> Suc 1" if "u \<in> set (QSInput q)" for u
  proof -
    have e: "UITextElements u = Some []" using assms that by (simp add: plain_inputs_def list_all_iff)
    then show "printable (json_of_UserInput u)" by (simp add: json_of_UserInput_def omit_str_def jmember_def)
    show "jdepth (json_of_UserInput u) \<le> Suc 1"
      unfolding json_of_UserInput_def by (rule jdepth_JObj_le) (simp add: e omit_str_def jmember_def)
  qed
  then show "printable (json_of_ThreadQueueAddResult q)"
    by (simp add: json_of_ThreadQueueAddResult_def json_of_QueuedSubmission_def omit_str_def jmember_def)
  have a: "jdepth (JArr (map json_of_UserInput (QSInput q))) \<le> Suc 2" using u(2) by force
  have "jdepth (json_of_QueuedSubmission q) \<le> Suc 3"
    unfolding json_of_QueuedSubmission_def
    by (rule jdepth_JObj_le) (use a in \<open>simp add: omit_str_def jmember_def\<close>)
  then have "jdepth (json_of_ThreadQueueAddResult q) \<le> Suc 4"
    unfolding json_of_ThreadQueueAddResult_def by (intro jdepth_JObj_le) (simp add: jmember_def)
  then show "jdepth (json_of_ThreadQueueAddResult q) \<le> maxNestingDepth" by (simp add: maxNestingDepth_def)
qed

lemma unmarshalQueued_print:
  assumes "plain_inputs (QSInput q)"
  shows "unmarshalQueued (json_print (json_of_ThreadQueueAddResult q)) = Some (norm_QueuedSubmission q)"
proof -
  note pr = printable_QueuedSubmission [OF assms]
  show ?thesis
    unfolding unmarshalQueued_def json_parse_print [OF pr]
    using dec_QueuedSubmission_print [OF assms]
    by (simp add: json_of_ThreadQueueAddResult_def dec_struct_def dec_ThreadQueueAddResult_def jmember_def method_keys)
qed

text \<open>
  The submission a daemon prints is the submission \<open>QueueMessage\<close> returns, with invalid
  UTF-8 replaced: ids, inputs and texts survive the encoding as JSON, the response and the
  decoding, whatever characters they have.
\<close>

theorem queued_submission_round_trip:
  assumes "plain_inputs (QSInput q)"
    and "call MethodThreadQueueAdd (Some (json_of_ThreadQueueAddParams
      \<lparr>QThreadID = thread, QInput = [TextInput text], QClientUserMessageID = (if cid = [] then fresh else cid)\<rparr>))
      = Inr m"
    and "MError m = None" "MResult m = json_print (json_of_ThreadQueueAddResult q)"
  shows "QueueMessage lib call fresh thread text cid = Inr (norm_QueuedSubmission q)"
proof -
  have "json_print (json_of_ThreadQueueAddResult q) \<noteq> []" by (simp add: json_of_ThreadQueueAddResult_def)
  then show ?thesis
    using assms unmarshalQueued_print [OF assms(1)] by (simp add: QueueMessage_def Let_def call_result_def)
qed

text \<open>A daemon that stores what it is sent and echoes it.\<close>

definition echo_daemon :: "gostring \<Rightarrow> caller" where
  "echo_daemon text method params = Inr (zero_Message\<lparr>MResult := json_print (json_of_ThreadQueueAddResult
     \<lparr>QSID = ''q1'', QSInput = [TextInput text], QSClientUserMessageID = []\<rparr>)\<rparr>)"

definition sample_lib :: lib_text where
  "sample_lib = \<lparr>ws_text = (\<lambda>_. ''broken pipe''), ctx_text = ''context canceled'', json_text = (\<lambda>_. ''bad json'')\<rparr>"

theorem queued_submission_round_trip_witness:
  "QueueMessage sample_lib (echo_daemon ''hi'') ''f'' ''t'' ''hi'' []
     = Inr (norm_QueuedSubmission \<lparr>QSID = ''q1'', QSInput = [TextInput ''hi''], QSClientUserMessageID = []\<rparr>)"
  by (rule queued_submission_round_trip [where m =
      "zero_Message\<lparr>MResult := json_print (json_of_ThreadQueueAddResult
         \<lparr>QSID = ''q1'', QSInput = [TextInput ''hi''], QSClientUserMessageID = []\<rparr>)\<rparr>"])
    (simp_all add: plain_inputs_def TextInput_def echo_daemon_def zero_Message_def)

text \<open>
  (C38) A refusal of the daemon reaches the caller as such: whatever advice \<open>QueueMessage\<close> puts in
  front, the daemon's own error can still be taken out of it, a missing method is still
  recognized as one and nothing else is, and its text still shows.
\<close>

theorem daemon_refusal_reported:
  assumes "\<And>p. call MethodThreadQueueAdd p = Inr m" "MError m = Some e"
  shows "\<exists>err. QueueMessage lib call fresh thread text cid = Inl err \<and> asError err = Some e
    \<and> (IsMethodNotFound err \<longleftrightarrow> Code e = CodeMethodNotFound) \<and> Contains (error_text err) (rpc_error_text e)
    \<and> (Code e \<noteq> CodeMethodNotFound \<and> Contains (rpc_error_text e) ''experimentalApi''
         \<longrightarrow> prefix experimental_text (error_text err))"
proof -
  have c: "Contains (p @ '': '' @ rpc_error_text e) (rpc_error_text e)" for p
    unfolding Contains_def by (metis append_assoc sublist_append_leftI sublist_order.order_refl)
  have r: "Contains (rpc_error_text e) (rpc_error_text e)" by (simp add: Contains_def)
  show ?thesis
    using assms c r by (simp add: QueueMessage_def Let_def call_result_def IsMethodNotFound_def)
qed

definition refusing_daemon :: caller where
  "refusing_daemon method params = Inr (zero_Message\<lparr>MError := Some \<lparr>Code = - 32601, ErrMessage = ''no'', Data = []\<rparr>\<rparr>)"

theorem daemon_refusal_reported_witness:
  "\<exists>err. QueueMessage sample_lib refusing_daemon ''f'' ''t'' ''x'' [] = Inl err \<and> IsMethodNotFound err"
  using daemon_refusal_reported [of refusing_daemon "zero_Message\<lparr>MError := Some \<lparr>Code = - 32601, ErrMessage = ''no'', Data = []\<rparr>\<rparr>"
      "\<lparr>Code = - 32601, ErrMessage = ''no'', Data = []\<rparr>" sample_lib "''f''" "''t''" "''x''" "[]"]
  by (auto simp: CodeMethodNotFound_def refusing_daemon_def)

end
