(* ===== verification/Deliver_Codex.thy ===== *)
theory Deliver_Codex
  imports Deliver Methods
begin

text \<open>
  \<open>deliver/codex.go\<close>: delivery into the Codex thread that launched this process. A connection
  is known by the number of the dial that made it; \<open>bclosed\<close> holds those that were closed.
\<close>

record codexBackend =
  thread :: gostring
  disabled :: bool
  bclient :: "nat option"
  bname :: gostring
  dials :: nat
  bclosed :: "nat set"

definition newCodex :: "host \<Rightarrow> gostring \<Rightarrow> codexBackend" where
  "newCodex h name =
     \<lparr>thread = [], disabled = False, bclient = None, bname = (if name = [] then defaultSenderName h else name),
      dials = 0, bclosed = {}\<rparr>"

definition codexMaxChars :: nat where "codexMaxChars = 2 ^ 20"
definition codexOverhead :: nat where "codexOverhead = 4 * 2 ^ 10"

definition AvailableCodex :: "host \<Rightarrow> codexBackend \<Rightarrow> unavailable_reason option" where
  "AvailableCodex h c =
     (if disabled c then Some TwoThreads
      else case DefaultSocket h of
             Inl _ \<Rightarrow> Some NoDaemon
           | Inr _ \<Rightarrow> if thread c = [] then Some NoThreadYet else None)"

definition MaxIntactBytesCodex :: "host \<Rightarrow> codexBackend \<Rightarrow> unavailable_reason + nat" where
  "MaxIntactBytesCodex h c =
     (case AvailableCodex h c of Some reason \<Rightarrow> Inl reason | None \<Rightarrow> Inr (codexMaxChars - codexOverhead))"

definition FitsCodex :: "Delivery \<Rightarrow> bool \<times> nat" where
  "FitsCodex d = (let text = compose d in (runeCount text \<le> codexMaxChars, length text))"

datatype adopt_error = NotAdoptable json | DeliveryDisabled | SecondThread gostring gostring

definition AdoptCodex :: "meta \<Rightarrow> codexBackend \<Rightarrow> adopt_error option \<times> codexBackend" where
  "AdoptCodex m c =
     (case threadIDFromMeta m of
        Inl errNoMeta \<Rightarrow> (None, c)
      | Inl (NotAThread v) \<Rightarrow> (Some (NotAdoptable v), c)
      | Inr i \<Rightarrow>
          if disabled c then (Some DeliveryDisabled, c)
          else if thread c = [] then (None, c\<lparr>thread := i\<rparr>)
          else if thread c = i then (None, c)
          else (Some (SecondThread i (thread c)), c\<lparr>disabled := True, thread := []\<rparr>))"

text \<open>\<open>Close\<close>: the stored connection, when there is one, is forgotten and closed.\<close>

definition CloseCodex :: "codexBackend \<Rightarrow> codexBackend" where
  "CloseCodex c =
     (case bclient c of
        None \<Rightarrow> c
      | Some n \<Rightarrow> c\<lparr>bclient := None, bclosed := insert n (bclosed c)\<rparr>)"

definition codex_senderName :: "host \<Rightarrow> codexBackend \<Rightarrow> gostring" where
  "codex_senderName h c = (if bname c = [] then defaultSenderName h else bname c)"

definition init_params :: "gostring \<Rightarrow> InitializeParams" where
  "init_params name = \<lparr>IPClientInfo = \<lparr>CIName = name, CITitle = None, CIVersion = ''0.1.0''\<rparr>,
     IPCapabilities = Some \<lparr>ExperimentalAPI = True\<rparr>\<rparr>"

text \<open>
  What the daemon does: whether the n-th dial fails, and the outcome of each call on the
  connection that dial made.
\<close>

record daemon =
  dm_dial :: "nat \<Rightarrow> codex_dial_error option"
  dm_call :: "nat \<Rightarrow> caller"

datatype connect_error = ConnDial codex_dial_error | ConnInit go_error

text \<open>
  \<open>connect\<close> in its three critical parts: dialling (which takes the next number), initializing,
  and storing the connection, unless another caller has stored one meanwhile.
\<close>

definition connect_dial :: "daemon \<Rightarrow> codexBackend \<Rightarrow> (connect_error + nat) \<times> codexBackend" where
  "connect_dial dm c =
     (let n = dials c in
      case dm_dial dm n of
        Some e \<Rightarrow> (Inl (ConnDial e), c\<lparr>dials := n + 1, bclosed := insert n (bclosed c)\<rparr>)
      | None \<Rightarrow> (Inr n, c\<lparr>dials := n + 1\<rparr>))"

definition connect_init ::
    "lib_text \<Rightarrow> host \<Rightarrow> daemon \<Rightarrow> nat \<Rightarrow> codexBackend \<Rightarrow> (connect_error + nat) \<times> codexBackend" where
  "connect_init lib h dm n c =
     (case Initialize lib (dm_call dm n) (init_params (codex_senderName h c)) of
        Inl e \<Rightarrow> (Inl (ConnInit (Wrapped ''initialize'' e)), c\<lparr>bclosed := insert n (bclosed c)\<rparr>)
      | Inr _ \<Rightarrow> (Inr n, c))"

definition connect_store :: "nat \<Rightarrow> codexBackend \<Rightarrow> nat \<times> codexBackend" where
  "connect_store n c =
     (case bclient c of
        Some other \<Rightarrow> (other, c\<lparr>bclosed := insert n (bclosed c)\<rparr>)
      | None \<Rightarrow> (n, c\<lparr>bclient := Some n\<rparr>))"

definition connect :: "lib_text \<Rightarrow> host \<Rightarrow> daemon \<Rightarrow> codexBackend \<Rightarrow> (connect_error + nat) \<times> codexBackend" where
  "connect lib h dm c =
     (case bclient c of
        Some n \<Rightarrow> (Inr n, c)
      | None \<Rightarrow>
          (case connect_dial dm c of
             (Inl e, c1) \<Rightarrow> (Inl e, c1)
           | (Inr n, c1) \<Rightarrow>
               (case connect_init lib h dm n c1 of
                  (Inl e, c2) \<Rightarrow> (Inl e, c2)
                | (Inr _, c2) \<Rightarrow> (case connect_store n c2 of (k, c3) \<Rightarrow> (Inr k, c3)))))"

datatype codex_error =
    CodexUnavailable unavailable_reason
  | CodexTooLong nat nat
  | CodexConnect connect_error
  | CodexNotQueued go_error

text \<open>The receipt: the echo is compared with what was sent by their SHA-256 sums.\<close>

definition codex_receipt :: "gostring \<Rightarrow> ThreadQueueAddResult \<Rightarrow> Receipt" where
  "codex_receipt text res =
     (let echo = (case QSInput res of [] \<Rightarrow> [] | i # _ \<Rightarrow> UIText i);
          verified = (echo \<noteq> [] \<and> sha256_Sum256 (bytes_of echo) = sha256_Sum256 (bytes_of text))
      in if verified then \<lparr>Observed = ObservedStored, Detail = EchoMatched\<rparr>
         else \<lparr>Observed = ObservedAccepted, Detail = EchoDiffers (length text) (length echo)\<rparr>)"

text \<open>\<open>Deliver\<close>, when nobody else uses the backend meanwhile.\<close>

definition DeliverCodex ::
    "lib_text \<Rightarrow> host \<Rightarrow> daemon \<Rightarrow> gostring \<Rightarrow> codexBackend \<Rightarrow> Delivery \<Rightarrow> (codex_error + Receipt) \<times> codexBackend" where
  "DeliverCodex lib h dm fresh c d =
     (case AvailableCodex h c of
        Some reason \<Rightarrow> (Inl (CodexUnavailable reason), c)
      | None \<Rightarrow>
          let thr = thread c; text = compose d in
          if \<not> fst (FitsCodex d) then (Inl (CodexTooLong (runeCount text) codexMaxChars), c)
          else (case connect lib h dm c of
                  (Inl e, c1) \<Rightarrow> (Inl (CodexConnect e), c1)
                | (Inr n, c1) \<Rightarrow>
                    (case QueueMessage lib (dm_call dm n) fresh thr text [] of
                       Inl e \<Rightarrow> (Inl (CodexNotQueued e), CloseCodex c1)
                     | Inr res \<Rightarrow> (Inr (codex_receipt text res), c1))))"

interpretation codex_backend: deliverer "\<lambda>m c. snd (AdoptCodex m c)" "\<lambda>c. thread c \<noteq> [] \<or> disabled c"
  "\<lambda>c. \<not> disabled c" thread
  by unfold_locales (auto simp: AdoptCodex_def split: sum.splits meta_error.splits if_splits)

subsection \<open>The target\<close>

definition adopt_all :: "meta list \<Rightarrow> codexBackend \<Rightarrow> codexBackend" where
  "adopt_all ms c = foldl (\<lambda>c m. snd (AdoptCodex m c)) c ms"

text \<open>The thread ids a sequence of requests carries.\<close>

definition ids_in :: "meta list \<Rightarrow> gostring list" where
  "ids_in ms = concat (map (\<lambda>m. case threadIDFromMeta m of Inl _ \<Rightarrow> [] | Inr i \<Rightarrow> [i]) ms)"

lemma threadID_nonempty: "threadIDFromMeta m = Inr i \<Longrightarrow> i \<noteq> []"
proof -
  have "TrimSpace [] = []" by (simp add: TrimSpace_def trim_def pieces.simps)
  then show "threadIDFromMeta m = Inr i \<Longrightarrow> i \<noteq> []"
    by (auto simp: threadIDFromMeta_def split: option.splits json.splits if_splits)
qed

lemma adopt_all_disabled: "disabled c \<Longrightarrow> adopt_all ms c = c"
proof (induction ms arbitrary: c)
  case (Cons m ms)
  have "snd (AdoptCodex m c) = c" using Cons.prems by (simp add: AdoptCodex_def split: sum.splits meta_error.splits)
  then show ?case using Cons by (simp add: adopt_all_def)
qed (simp add: adopt_all_def)

lemma adopt_all_latched:
  assumes "\<not> disabled c" "thread c \<noteq> []"
  shows "adopt_all ms c = (if \<forall>i\<in>set (ids_in ms). i = thread c then c else c\<lparr>disabled := True, thread := []\<rparr>)"
  using assms
proof (induction ms arbitrary: c)
  case (Cons m ms)
  let ?c = "snd (AdoptCodex m c)"
  have s: "adopt_all (m # ms) c = adopt_all ms ?c" by (simp add: adopt_all_def)
  show ?case
  proof (cases "threadIDFromMeta m")
    case (Inl e)
    then have "?c = c" "ids_in (m # ms) = ids_in ms"
      by (simp_all add: AdoptCodex_def ids_in_def split: meta_error.splits)
    then show ?thesis using Cons s by simp
  next
    case (Inr i)
    then have i: "ids_in (m # ms) = i # ids_in ms" by (simp add: ids_in_def)
    show ?thesis
    proof (cases "i = thread c")
      case True
      then have "?c = c" using Inr Cons.prems by (simp add: AdoptCodex_def)
      then show ?thesis using Cons s i True by simp
    next
      case False
      then have "?c = c\<lparr>disabled := True, thread := []\<rparr>" using Inr Cons.prems by (simp add: AdoptCodex_def)
      then show ?thesis using s i False adopt_all_disabled [of "c\<lparr>disabled := True, thread := []\<rparr>" ms] by simp
    qed
  qed
qed (simp add: adopt_all_def ids_in_def)

text \<open>
  (C9) The target of a Codex backend is decided by the first thread that identifies itself and
  by nothing else. After any sequence of requests a new backend has: no target when no request
  carried a thread id; that thread, when all that carried one agree; and otherwise no target and
  no delivery ever again. There is no sequence that moves it from one thread to another.
\<close>

theorem codex_target_is_first_thread:
  "adopt_all ms (newCodex h name) =
     (case ids_in ms of
        [] \<Rightarrow> newCodex h name
      | i # is \<Rightarrow>
          if set is \<subseteq> {i} then (newCodex h name)\<lparr>thread := i\<rparr>
          else (newCodex h name)\<lparr>disabled := True\<rparr>)"
proof (induction ms)
  case (Cons m ms)
  let ?n = "newCodex h name"
  have n: "\<not> disabled ?n" "thread ?n = []" by (simp_all add: newCodex_def)
  have s: "adopt_all (m # ms) ?n = adopt_all ms (snd (AdoptCodex m ?n))" by (simp add: adopt_all_def)
  show ?case
  proof (cases "threadIDFromMeta m")
    case (Inl e)
    then have "snd (AdoptCodex m ?n) = ?n" "ids_in (m # ms) = ids_in ms"
      by (simp_all add: AdoptCodex_def ids_in_def split: meta_error.splits)
    then show ?thesis using Cons s by simp
  next
    case (Inr i)
    let ?c = "?n\<lparr>thread := i\<rparr>"
    have "snd (AdoptCodex m ?n) = ?c" using Inr n by (simp add: AdoptCodex_def)
    moreover have "ids_in (m # ms) = i # ids_in ms" using Inr by (simp add: ids_in_def)
    moreover have "?c\<lparr>disabled := True, thread := []\<rparr> = ?n\<lparr>disabled := True\<rparr>" by (simp add: newCodex_def)
    moreover have "adopt_all ms ?c = (if \<forall>j\<in>set (ids_in ms). j = thread ?c then ?c else ?c\<lparr>disabled := True, thread := []\<rparr>)"
      by (rule adopt_all_latched) (simp_all add: n threadID_nonempty [OF Inr])
    ultimately show ?thesis using s by (simp add: subset_eq)
  qed
qed (simp add: adopt_all_def ids_in_def)

subsection \<open>Receipts\<close>

lemma connect_thread [simp]: "connect lib h dm c = (r, c') \<Longrightarrow> thread c' = thread c \<and> disabled c' = disabled c"
  by (auto simp: connect_def connect_dial_def connect_init_def connect_store_def Let_def
      split: option.splits sum.splits prod.splits)

text \<open>
  (C23) A receipt that says stored is earned: the daemon answered the request, on a connection
  the backend holds, for exactly the latched thread, with an echo whose SHA-256 sum is that of
  the composed text; a receipt without it says no more than accepted. And the backend's target is
  the same afterwards.
\<close>

theorem codex_receipt_is_earned:
  assumes "DeliverCodex lib h dm fresh c d = (Inr r, c')"
  shows "\<exists>n res. connect lib h dm c = (Inr n, c') \<and> thread c' = thread c \<and> thread c \<noteq> [] \<and> \<not> disabled c
    \<and> QueueMessage lib (dm_call dm n) fresh (thread c) (compose d) [] = Inr res
    \<and> (Observed r = ObservedStored \<longleftrightarrow>
        (\<exists>i is. QSInput res = i # is \<and> UIText i \<noteq> []
          \<and> sha256_Sum256 (bytes_of (UIText i)) = sha256_Sum256 (bytes_of (compose d))))
    \<and> (Observed r = ObservedStored \<or> Observed r = ObservedAccepted)"
proof -
  obtain n res where n: "AvailableCodex h c = None" "connect lib h dm c = (Inr n, c')"
    "QueueMessage lib (dm_call dm n) fresh (thread c) (compose d) [] = Inr res" "r = codex_receipt (compose d) res"
    using assms by (auto simp: DeliverCodex_def Let_def split: option.splits if_splits prod.splits sum.splits)
  have "thread c \<noteq> []" "\<not> disabled c"
    using n(1) by (auto simp: AvailableCodex_def split: if_splits sum.splits)
  moreover have "Observed r = ObservedStored \<longleftrightarrow>
      (\<exists>i is. QSInput res = i # is \<and> UIText i \<noteq> []
        \<and> sha256_Sum256 (bytes_of (UIText i)) = sha256_Sum256 (bytes_of (compose d)))"
    "Observed r = ObservedStored \<or> Observed r = ObservedAccepted"
    by (auto simp: n(4) codex_receipt_def Let_def split: list.splits)
  ultimately show ?thesis using n(2,3) connect_thread [OF n(2)] by blast
qed

text \<open>
  A text of valid UTF-8 that the daemon stores and echoes is reported as stored: the JSON
  encodings on the way there and back change no byte of it.
\<close>

theorem valid_text_stored:
  assumes "AvailableCodex h c = None" "fst (FitsCodex d)" "connect lib h dm c = (Inr n, c')" "validString (compose d)"
    and "\<And>p. dm_call dm n MethodThreadQueueAdd p = Inr m" "MError m = None"
    and "MResult m = json_print (json_of_ThreadQueueAddResult
      \<lparr>QSID = i, QSInput = [TextInput (compose d)], QSClientUserMessageID = cid\<rparr>)"
  shows "DeliverCodex lib h dm fresh c d = (Inr \<lparr>Observed = ObservedStored, Detail = EchoMatched\<rparr>, c')"
proof -
  let ?q = "\<lparr>QSID = i, QSInput = [TextInput (compose d)], QSClientUserMessageID = cid\<rparr>"
  have "plain_inputs (QSInput ?q)" by (simp add: plain_inputs_def TextInput_def)
  moreover have "json_print (json_of_ThreadQueueAddResult ?q) \<noteq> []" by (simp add: json_of_ThreadQueueAddResult_def)
  ultimately have "QueueMessage lib (dm_call dm n) fresh (thread c) (compose d) [] = Inr (norm_QueuedSubmission ?q)"
    using assms(5-7) unmarshalQueued_print [of ?q] by (simp add: QueueMessage_def Let_def call_result_def)
  moreover have "compose d \<noteq> []" by (simp add: compose_def Let_def)
  then have "codex_receipt (compose d) (norm_QueuedSubmission ?q) = \<lparr>Observed = ObservedStored, Detail = EchoMatched\<rparr>"
    using assms(4) by (simp add: codex_receipt_def norm_QueuedSubmission_def norm_UserInput_def TextInput_def)
  ultimately show ?thesis using assms(1-3) by (simp add: DeliverCodex_def Let_def)
qed

subsection \<open>The floor\<close>

text \<open>
  The floor of the Codex backend holds, and for the body: a body within \<open>MaxIntactBytes\<close>
  bytes fits with its trailer, whatever its characters, when the anchor is at most 4000 bytes.
\<close>

theorem codex_floor_holds:
  assumes "MaxIntactBytesCodex h c = Inr n" "length (Body d) \<le> n" "length (Cursor d) \<le> 4000"
  shows "fst (FitsCodex d)"
proof -
  have n: "n = codexMaxChars - codexOverhead"
    using assms(1) by (simp add: MaxIntactBytesCodex_def split: option.splits)
  have "length (trailer d) \<le> 4094" using assms(3) by (simp add: trailer_def more_note_def)
  then have "length (compose d) \<le> codexMaxChars"
    using assms(2) n by (simp add: compose_trailer codexMaxChars_def codexOverhead_def)
  then show ?thesis using runeCount_le_length [of "compose d"] by (simp add: FitsCodex_def Let_def)
qed

subsection \<open>A concrete daemon\<close>

definition hello :: Delivery where
  "hello = \<lparr>Cursor = ''7'', Body = ''hi'', More = False\<rparr>"

definition echo_message :: Message where
  "echo_message = zero_Message\<lparr>MResult := json_print (json_of_ThreadQueueAddResult
     \<lparr>QSID = ''q1'', QSInput = [TextInput (compose hello)], QSClientUserMessageID = []\<rparr>)\<rparr>"

definition sample_daemon :: daemon where
  "sample_daemon = \<lparr>dm_dial = (\<lambda>_. None), dm_call = (\<lambda>_ _ _. Inr echo_message)\<rparr>"

definition latched_backend :: codexBackend where
  "latched_backend = (newCodex daemon_host ''me'')\<lparr>thread := ''t1''\<rparr>"

lemma echo_message_facts: "MError echo_message = None" "MResult echo_message \<noteq> []"
  by (simp_all add: echo_message_def zero_Message_def json_of_ThreadQueueAddResult_def)

lemma sample_init: "Initialize sample_lib (dm_call sample_daemon n) (init_params name) = Inr (MResult echo_message)" if "name \<noteq> []"
  using that echo_message_facts
  by (simp add: Initialize_def init_params_def call_result_def sample_daemon_def Let_def)

lemma sample_connect:
  assumes "bclient c = None" "bname c \<noteq> []"
  shows "connect sample_lib h sample_daemon c = (Inr (dials c), c\<lparr>dials := dials c + 1, bclient := Some (dials c)\<rparr>)"
proof -
  let ?c = "c\<lparr>dials := dials c + 1\<rparr>"
  have "connect_dial sample_daemon c = (Inr (dials c), ?c)" by (simp add: connect_dial_def sample_daemon_def Let_def)
  moreover have "connect_init sample_lib h sample_daemon (dials c) ?c = (Inr (dials c), ?c)"
    using assms(2) by (simp add: connect_init_def sample_init codex_senderName_def)
  moreover have "connect_store (dials c) ?c = (dials c, ?c\<lparr>bclient := Some (dials c)\<rparr>)"
    using assms(1) by (simp add: connect_store_def)
  ultimately show ?thesis using assms(1) by (simp add: connect_def)
qed

lemma latched_facts:
  "AvailableCodex daemon_host latched_backend = None" "bclient latched_backend = None" "bname latched_backend \<noteq> []"
  "fst (FitsCodex hello)" "validString (compose hello)"
proof -
  show "fst (FitsCodex hello)"
    using runeCount_le_length [of "compose hello"]
    by (simp add: FitsCodex_def Let_def codexMaxChars_def) (simp add: compose_def hello_def Let_def)
qed (simp_all add: AvailableCodex_def latched_backend_def newCodex_def DefaultSocket_daemon_host compose_def hello_def
    Let_def validString_ascii)

theorem codex_floor_holds_witness: "fst (FitsCodex hello)"
  by (rule codex_floor_holds [of daemon_host latched_backend "codexMaxChars - codexOverhead"])
    (simp_all add: MaxIntactBytesCodex_def latched_facts hello_def codexMaxChars_def codexOverhead_def)

theorem codex_receipt_is_earned_witness:
  "\<exists>c' n res. DeliverCodex sample_lib daemon_host sample_daemon ''f'' latched_backend hello
       = (Inr \<lparr>Observed = ObservedStored, Detail = EchoMatched\<rparr>, c')
     \<and> QueueMessage sample_lib (dm_call sample_daemon n) ''f'' (thread latched_backend) (compose hello) [] = Inr res"
proof -
  let ?r = "\<lparr>Observed = ObservedStored, Detail = EchoMatched\<rparr>"
  obtain c' where "DeliverCodex sample_lib daemon_host sample_daemon ''f'' latched_backend hello = (Inr ?r, c')"
    using valid_text_stored [OF latched_facts(1,4) sample_connect [OF latched_facts(2,3)] latched_facts(5),
      of echo_message "''q1''" "[]"] echo_message_facts
    by (auto simp: sample_daemon_def) (auto simp: echo_message_def)
  from codex_receipt_is_earned [OF this] this show ?thesis by blast
qed

end
