(* ===== verification/Deliver_Steps.thy ===== *)
theory Deliver_Steps
  imports Deliver_Codex
begin

text \<open>
  Deliveries of \<open>deliver/codex.go\<close> that run at the same time, each on its own goroutine, with
  requests adopted and the backend closed between any two of their critical sections. The host,
  the daemon and the library's texts may be different at each step.
\<close>

datatype job =
    JIdle
  | JChecked Delivery                      \<comment> \<open>\<open>Available\<close> said yes\<close>
  | JTarget Delivery gostring              \<comment> \<open>has read the thread\<close>
  | JConnecting Delivery gostring          \<comment> \<open>found no connection\<close>
  | JDialled Delivery gostring nat
  | JStoring Delivery gostring nat         \<comment> \<open>initialized\<close>
  | JReady Delivery gostring nat           \<comment> \<open>\<open>connect\<close> has returned\<close>
  | JClosing codex_error
  | JDone "codex_error + Receipt"

text \<open>
  The backend, the deliveries, the thread ids seen so far and the requests made so far, latest
  first in \<open>sent\<close>.
\<close>

record deliveries =
  bk :: codexBackend
  jobs :: "nat \<Rightarrow> job"
  seen :: "gostring list"
  sent :: "(gostring \<times> gostring) list"

definition set_job :: "nat \<Rightarrow> job \<Rightarrow> deliveries \<Rightarrow> deliveries" where
  "set_job k j s = s\<lparr>jobs := (jobs s)(k := j)\<rparr>"

definition job_check :: "host \<Rightarrow> Delivery \<Rightarrow> nat \<Rightarrow> deliveries \<Rightarrow> deliveries" where
  "job_check h d k s =
     set_job k (case AvailableCodex h (bk s) of Some r \<Rightarrow> JDone (Inl (CodexUnavailable r)) | None \<Rightarrow> JChecked d) s"

definition job_target :: "Delivery \<Rightarrow> nat \<Rightarrow> deliveries \<Rightarrow> deliveries" where
  "job_target d k s =
     set_job k (if fst (FitsCodex d) then JTarget d (thread (bk s))
                else JDone (Inl (CodexTooLong (runeCount (compose d)) codexMaxChars))) s"

definition job_lookup :: "Delivery \<Rightarrow> gostring \<Rightarrow> nat \<Rightarrow> deliveries \<Rightarrow> deliveries" where
  "job_lookup d t k s =
     set_job k (case bclient (bk s) of Some n \<Rightarrow> JReady d t n | None \<Rightarrow> JConnecting d t) s"

definition job_dial :: "daemon \<Rightarrow> Delivery \<Rightarrow> gostring \<Rightarrow> nat \<Rightarrow> deliveries \<Rightarrow> deliveries" where
  "job_dial dm d t k s =
     (case connect_dial dm (bk s) of
        (Inl e, c) \<Rightarrow> set_job k (JDone (Inl (CodexConnect e))) (s\<lparr>bk := c\<rparr>)
      | (Inr n, c) \<Rightarrow> set_job k (JDialled d t n) (s\<lparr>bk := c\<rparr>))"

definition job_init :: "lib_text \<Rightarrow> host \<Rightarrow> daemon \<Rightarrow> Delivery \<Rightarrow> gostring \<Rightarrow> nat \<Rightarrow> nat \<Rightarrow> deliveries \<Rightarrow> deliveries" where
  "job_init lib h dm d t n k s =
     (case connect_init lib h dm n (bk s) of
        (Inl e, c) \<Rightarrow> set_job k (JDone (Inl (CodexConnect e))) (s\<lparr>bk := c\<rparr>)
      | (Inr _, c) \<Rightarrow> set_job k (JStoring d t n) (s\<lparr>bk := c\<rparr>))"

definition job_store :: "Delivery \<Rightarrow> gostring \<Rightarrow> nat \<Rightarrow> nat \<Rightarrow> deliveries \<Rightarrow> deliveries" where
  "job_store d t n k s =
     (case connect_store n (bk s) of (i, c) \<Rightarrow> set_job k (JReady d t i) (s\<lparr>bk := c\<rparr>))"

definition job_queue ::
    "lib_text \<Rightarrow> daemon \<Rightarrow> gostring \<Rightarrow> Delivery \<Rightarrow> gostring \<Rightarrow> nat \<Rightarrow> nat \<Rightarrow> deliveries \<Rightarrow> deliveries" where
  "job_queue lib dm fresh d t n k s =
     (let text = compose d; s = s\<lparr>sent := (t, text) # sent s\<rparr> in
      case QueueMessage lib (dm_call dm n) fresh t text [] of
        Inl e \<Rightarrow> set_job k (JClosing (CodexNotQueued e)) s
      | Inr res \<Rightarrow> set_job k (JDone (Inr (codex_receipt text res))) s)"

definition job_close :: "codex_error \<Rightarrow> nat \<Rightarrow> deliveries \<Rightarrow> deliveries" where
  "job_close e k s = set_job k (JDone (Inl e)) (s\<lparr>bk := CloseCodex (bk s)\<rparr>)"

definition adopt_request :: "meta \<Rightarrow> deliveries \<Rightarrow> deliveries" where
  "adopt_request m s = s\<lparr>bk := snd (AdoptCodex m (bk s)), seen := seen s @ ids_in [m]\<rparr>"

inductive dstep :: "deliveries \<Rightarrow> deliveries \<Rightarrow> bool" where
  check: "jobs s k = JIdle \<Longrightarrow> dstep s (job_check h d k s)"
| target: "jobs s k = JChecked d \<Longrightarrow> dstep s (job_target d k s)"
| lookup: "jobs s k = JTarget d t \<Longrightarrow> dstep s (job_lookup d t k s)"
| dial: "jobs s k = JConnecting d t \<Longrightarrow> dstep s (job_dial dm d t k s)"
| init: "jobs s k = JDialled d t n \<Longrightarrow> dstep s (job_init lib h dm d t n k s)"
| store: "jobs s k = JStoring d t n \<Longrightarrow> dstep s (job_store d t n k s)"
| queue: "jobs s k = JReady d t n \<Longrightarrow> dstep s (job_queue lib dm fresh d t n k s)"
| close_failed: "jobs s k = JClosing e \<Longrightarrow> dstep s (job_close e k s)"
| adopt: "dstep s (adopt_request m s)"
| close: "dstep s (s\<lparr>bk := CloseCodex (bk s)\<rparr>)"

definition opened :: "host \<Rightarrow> gostring \<Rightarrow> deliveries" where
  "opened h name = \<lparr>bk = newCodex h name, jobs = (\<lambda>_. JIdle), seen = [], sent = []\<rparr>"

subsection \<open>Targets\<close>

fun job_thread :: "job \<Rightarrow> gostring option" where
  "job_thread (JTarget d t) = Some t"
| "job_thread (JConnecting d t) = Some t"
| "job_thread (JDialled d t n) = Some t"
| "job_thread (JStoring d t n) = Some t"
| "job_thread (JReady d t n) = Some t"
| "job_thread _ = None"

definition own_thread :: "deliveries \<Rightarrow> gostring \<Rightarrow> bool" where
  "own_thread s t \<longleftrightarrow> t = [] \<or> seen s \<noteq> [] \<and> t = hd (seen s)"

definition targets_ok :: "deliveries \<Rightarrow> bool" where
  "targets_ok s \<longleftrightarrow>
     own_thread s (thread (bk s))
     \<and> (thread (bk s) = [] \<and> \<not> disabled (bk s) \<longrightarrow> seen s = [])
     \<and> (\<forall>k t. job_thread (jobs s k) = Some t \<longrightarrow> own_thread s t)
     \<and> (\<forall>(t, x)\<in>set (sent s). own_thread s t)"

subsection \<open>Connections\<close>

fun job_holds :: "job \<Rightarrow> nat option" where
  "job_holds (JDialled d t n) = Some n"
| "job_holds (JStoring d t n) = Some n"
| "job_holds _ = None"

text \<open>Each connection ever dialled is in one place: closed, stored, or in the hands of one delivery.\<close>

definition places :: "nat \<Rightarrow> nat set \<Rightarrow> nat option \<Rightarrow> (nat \<Rightarrow> nat option) \<Rightarrow> bool" where
  "places D C B H \<longleftrightarrow>
     (\<forall>n. n < D \<longleftrightarrow> n \<in> C \<or> B = Some n \<or> (\<exists>k. H k = Some n))
     \<and> (\<forall>n. B = Some n \<longrightarrow> n \<notin> C)
     \<and> (\<forall>k n. H k = Some n \<longrightarrow> n \<notin> C \<and> B \<noteq> Some n)
     \<and> (\<forall>k k' n. H k = Some n \<and> H k' = Some n \<longrightarrow> k = k')"

lemma places_dial:
  assumes "places D C B H" "H k = None"
  shows "places (D + 1) C B (H(k := Some D))" "places (D + 1) (insert D C) B H"
proof -
  have n: "n < D \<longleftrightarrow> n \<in> C \<or> B = Some n \<or> (\<exists>k. H k = Some n)" for n using assms(1) by (simp add: places_def)
  have x: "n \<noteq> D" if "n \<in> C \<or> B = Some n \<or> (\<exists>k. H k = Some n)" for n using n [of n] that by auto
  have e: "(\<exists>i. (H(k := Some D)) i = Some n) \<longleftrightarrow> n = D \<or> (\<exists>i. H i = Some n)" for n
    using assms(2) by (metis fun_upd_apply option.distinct(1) option.inject)
  show "places (D + 1) C B (H(k := Some D))"
    unfolding places_def e less_Suc_eq Suc_eq_plus1 [symmetric] n
    using assms(1) x by (auto simp: places_def)
  show "places (D + 1) (insert D C) B H"
    unfolding places_def less_Suc_eq Suc_eq_plus1 [symmetric] n
    using assms(1) x by (auto simp: places_def)
qed

lemma places_release:
  assumes "places D C B H" "H k = Some n"
  shows "places D (insert n C) B (H(k := None))" "B = None \<Longrightarrow> places D C (Some n) (H(k := None))"
proof -
  have u: "i = k" if "H i = Some n" for i using assms that by (auto simp: places_def)
  have e: "(\<exists>i. (H(k := None)) i = Some m) \<longleftrightarrow> m \<noteq> n \<and> (\<exists>i. H i = Some m)" for m
    using assms(2) u by (metis fun_upd_apply option.distinct(1) option.inject)
  have o: "m \<noteq> n \<and> H i = Some m" if "(H(k := None)) i = Some m" for i m
    using that u by (cases "i = k") auto
  have p: "m < D \<longleftrightarrow> m \<in> C \<or> B = Some m \<or> (\<exists>k. H k = Some m)" for m using assms(1) by (simp add: places_def)
  have q: "B = Some m \<Longrightarrow> m \<notin> C" "H i = Some m \<Longrightarrow> m \<notin> C" "H i = Some m \<Longrightarrow> B \<noteq> Some m"
    "H i = Some m \<Longrightarrow> H j = Some m \<Longrightarrow> i = j" for m i j using assms(1) unfolding places_def by blast+
  have "m < D \<longleftrightarrow> m \<in> insert n C \<or> B = Some m \<or> m \<noteq> n \<and> (\<exists>i. H i = Some m)" for m using p assms(2) by auto
  moreover have "B = Some m \<Longrightarrow> m \<notin> insert n C" for m using q(1) q(3) [OF assms(2)] by auto
  moreover have "(H(k := None)) i = Some m \<Longrightarrow> m \<notin> insert n C \<and> B \<noteq> Some m" for i m using o q(2,3) by blast
  moreover have same: "(H(k := None)) i = Some m \<and> (H(k := None)) j = Some m \<Longrightarrow> i = j" for i j m using o q(4) by blast
  ultimately show "places D (insert n C) B (H(k := None))" unfolding places_def e by blast
  assume B: "B = None"
  have "m < D \<longleftrightarrow> m \<in> C \<or> Some n = Some m \<or> m \<noteq> n \<and> (\<exists>i. H i = Some m)" for m using p assms(2) B by auto
  moreover have "Some n = Some m \<Longrightarrow> m \<notin> C" for m using q(2) assms(2) by auto
  moreover have "(H(k := None)) i = Some m \<Longrightarrow> m \<notin> C \<and> Some n \<noteq> Some m" for i m using o q(2) by blast
  ultimately show "places D C (Some n) (H(k := None))" unfolding places_def e using same by blast
qed

lemma places_close: "places D C (Some n) H \<Longrightarrow> places D (insert n C) None H"
  unfolding places_def by (metis insert_iff option.distinct(1) option.inject)

definition places_ok :: "deliveries \<Rightarrow> bool" where
  "places_ok s \<longleftrightarrow> places (dials (bk s)) (bclosed (bk s)) (bclient (bk s)) (\<lambda>k. job_holds (jobs s k))"

definition deliveries_inv :: "deliveries \<Rightarrow> bool" where
  "deliveries_inv s \<longleftrightarrow> targets_ok s \<and> places_ok s"

lemma inv_opened: "deliveries_inv (opened h name)"
  by (simp add: deliveries_inv_def targets_ok_def own_thread_def places_ok_def places_def opened_def newCodex_def)

subsection \<open>Every step keeps the invariant\<close>

lemma set_job_simps [simp]:
  "bk (set_job k j s) = bk s" "seen (set_job k j s) = seen s" "sent (set_job k j s) = sent s"
  "jobs (set_job k j s) = (jobs s)(k := j)"
  by (simp_all add: set_job_def)

lemma places_job:
  assumes "places_ok s" "job_holds j = job_holds (jobs s k)" "bk s' = bk s" "jobs s' = (jobs s)(k := j)"
  shows "places_ok s'"
proof -
  have "(\<lambda>i. job_holds (jobs s' i)) = (\<lambda>i. job_holds (jobs s i))" using assms(2,4) by auto
  then show ?thesis using assms(1,3) by (simp add: places_ok_def)
qed

lemma holds_update: "(\<lambda>i. job_holds (((jobs s)(k := j)) i)) = (\<lambda>i. job_holds (jobs s i))(k := job_holds j)"
  by auto

lemma targets_job:
  assumes "targets_ok s" "jobs s' = (jobs s)(k := j)" "seen s' = seen s" "thread (bk s') = thread (bk s)"
    "disabled (bk s') = disabled (bk s)" "\<And>t. job_thread j = Some t \<Longrightarrow> own_thread s t"
    "sent s' = sent s \<or> (\<exists>t x. sent s' = (t, x) # sent s \<and> own_thread s t)"
  shows "targets_ok s'"
  using assms by (auto simp: targets_ok_def own_thread_def)

lemma connect_parts:
  "connect_dial dm c = (r, c') \<Longrightarrow> thread c' = thread c \<and> disabled c' = disabled c"
  "connect_init lib h dm n c = (r', c') \<Longrightarrow> thread c' = thread c \<and> disabled c' = disabled c"
  "connect_store n c = (i, c') \<Longrightarrow> thread c' = thread c \<and> disabled c' = disabled c"
  "thread (CloseCodex c) = thread c" "disabled (CloseCodex c) = disabled c"
  by (auto simp: connect_dial_def connect_init_def connect_store_def CloseCodex_def Let_def
      split: option.splits sum.splits)

lemma own_job: "targets_ok s \<Longrightarrow> job_thread (jobs s k) = Some t \<Longrightarrow> own_thread s t"
  by (auto simp: targets_ok_def)

lemma adopt_cases:
  assumes "threadIDFromMeta m = Inr i"
  shows "snd (AdoptCodex m c) = c \<and> (disabled c \<or> thread c \<noteq> [])
    \<or> \<not> disabled c \<and> thread c = [] \<and> snd (AdoptCodex m c) = c\<lparr>thread := i\<rparr>
    \<or> snd (AdoptCodex m c) = c\<lparr>disabled := True, thread := []\<rparr>"
  using assms by (simp add: AdoptCodex_def)

lemma targets_adopt:
  assumes "targets_ok s"
  shows "targets_ok (adopt_request m s)" (is "targets_ok ?s'")
proof (cases "threadIDFromMeta m")
  case (Inl e)
  then show ?thesis using assms
    by (simp add: adopt_request_def AdoptCodex_def ids_in_def targets_ok_def own_thread_def split: meta_error.splits)
next
  case (Inr i)
  have o: "own_thread ?s' t" if "own_thread s t" for t
    using that Inr by (auto simp: own_thread_def adopt_request_def ids_in_def)
  have a: "seen ?s' = seen s @ [i]" "jobs ?s' = jobs s" "sent ?s' = sent s" "bk ?s' = snd (AdoptCodex m (bk s))"
    using Inr by (simp_all add: adopt_request_def ids_in_def)
  have t: "own_thread s (thread (bk s))" "thread (bk s) = [] \<and> \<not> disabled (bk s) \<Longrightarrow> seen s = []"
    using assms by (simp_all add: targets_ok_def)
  consider (same) "snd (AdoptCodex m (bk s)) = bk s" "disabled (bk s) \<or> thread (bk s) \<noteq> []"
    | (first) "\<not> disabled (bk s)" "thread (bk s) = []" "snd (AdoptCodex m (bk s)) = bk s\<lparr>thread := i\<rparr>"
    | (second) "snd (AdoptCodex m (bk s)) = bk s\<lparr>disabled := True, thread := []\<rparr>"
    using adopt_cases [OF Inr, of "bk s"] by blast
  then have "own_thread ?s' (thread (bk ?s')) \<and> (thread (bk ?s') = [] \<and> \<not> disabled (bk ?s') \<longrightarrow> seen ?s' = [])"
  proof cases
    case same
    then show ?thesis using o [OF t(1)] unfolding a(4) by auto
  next
    case first
    then show ?thesis using t(2) threadID_nonempty [OF Inr] unfolding a(4) by (simp add: own_thread_def a(1))
  next
    case second
    then show ?thesis unfolding a(4) by (simp add: own_thread_def)
  qed
  moreover have "\<forall>k t. job_thread (jobs ?s' k) = Some t \<longrightarrow> own_thread ?s' t" "\<forall>(t, x)\<in>set (sent ?s'). own_thread ?s' t"
    using assms o by (auto simp: targets_ok_def a(2,3))
  ultimately show ?thesis by (simp add: targets_ok_def)
qed

lemma targets_step:
  assumes "dstep s s'" "targets_ok s"
  shows "targets_ok s'"
  using assms(1)
proof cases
  case (check k h d)
  show ?thesis
    by (rule targets_job [OF assms(2), of _ k]) (auto simp: check job_check_def split: option.splits)
next
  case (target k d)
  show ?thesis
    by (rule targets_job [OF assms(2), of _ k])
      (use assms(2) in \<open>auto simp: target job_target_def targets_ok_def split: if_splits\<close>)
next
  case (lookup k d t)
  show ?thesis
    by (rule targets_job [OF assms(2), of _ k])
      (use own_job [OF assms(2), of k] lookup(2) in \<open>auto simp: lookup(1) job_lookup_def split: option.splits\<close>)
next
  case (dial k d t dm)
  obtain r c where c: "connect_dial dm (bk s) = (r, c)" by force
  show ?thesis
    by (rule targets_job [OF assms(2), of _ k "if isl r then JDone (Inl (CodexConnect (projl r))) else JDialled d t (projr r)"])
      (use own_job [OF assms(2), of k] dial(2) connect_parts(1) [OF c] in
        \<open>auto simp: dial(1) job_dial_def c split: sum.splits if_splits\<close>)
next
  case (init k d t n lib h dm)
  obtain r c where c: "connect_init lib h dm n (bk s) = (r, c)" by force
  show ?thesis
    by (rule targets_job [OF assms(2), of _ k "if isl r then JDone (Inl (CodexConnect (projl r))) else JStoring d t n"])
      (use own_job [OF assms(2), of k] init(2) connect_parts(2) [OF c] in
        \<open>auto simp: init(1) job_init_def c split: sum.splits if_splits\<close>)
next
  case (store k d t n)
  obtain i c where c: "connect_store n (bk s) = (i, c)" by force
  show ?thesis
    by (rule targets_job [OF assms(2), of _ k "JReady d t i"])
      (use own_job [OF assms(2), of k] store(2) connect_parts(3) [OF c] in \<open>auto simp: store(1) job_store_def c\<close>)
next
  case (queue k d t n lib dm fresh)
  show ?thesis
    by (rule targets_job [OF assms(2), of _ k "jobs s' k"])
      (use own_job [OF assms(2), of k] queue(2) in \<open>auto simp: queue(1) job_queue_def Let_def split: sum.splits\<close>)
next
  case (close_failed k e)
  show ?thesis
    by (rule targets_job [OF assms(2), of _ k "JDone (Inl e)"])
      (auto simp: close_failed(1) job_close_def connect_parts)
next
  case (adopt m)
  then show ?thesis using targets_adopt [OF assms(2)] by simp
next
  case close
  then show ?thesis using assms(2) by (simp add: targets_ok_def own_thread_def connect_parts)
qed

lemma places_step:
  assumes "dstep s s'" "places_ok s"
  shows "places_ok s'"
  using assms(1)
proof cases
  case (check k h d)
  then show ?thesis by (intro places_job [OF assms(2), of _ k]) (auto simp: job_check_def split: option.splits)
next
  case (target k d)
  then show ?thesis by (intro places_job [OF assms(2), of _ k]) (auto simp: job_target_def)
next
  case (lookup k d t)
  then show ?thesis by (intro places_job [OF assms(2), of _ k]) (auto simp: job_lookup_def split: option.splits)
next
  case (dial k d t dm)
  have h: "job_holds (jobs s k) = None" using dial(2) by simp
  then have "(\<lambda>i. job_holds (jobs s i))(k := None) = (\<lambda>i. job_holds (jobs s i))" by auto
  then show ?thesis
    using places_dial [OF assms(2) [unfolded places_ok_def] h] unfolding dial(1) places_ok_def
    by (cases "dm_dial dm (dials (bk s))")
      (simp_all add: job_dial_def connect_dial_def Let_def holds_update del: fun_upd_apply)
next
  case (init k d t n lib h dm)
  have h: "job_holds (jobs s k) = Some n" using init(2) by simp
  note places_release(1) [OF assms(2) [unfolded places_ok_def] h]
  moreover have "(\<lambda>i. job_holds (jobs s i))(k := Some n) = (\<lambda>i. job_holds (jobs s i))" using h by auto
  ultimately show ?thesis
    using assms(2) unfolding init(1) places_ok_def
    by (cases "Initialize lib (dm_call dm n) (init_params (codex_senderName h (bk s)))")
      (simp_all add: job_init_def connect_init_def holds_update del: fun_upd_apply)
next
  case (store k d t n)
  have "job_holds (jobs s k) = Some n" using store(2) by simp
  note places_release [OF assms(2) [unfolded places_ok_def] this]
  then show ?thesis
    unfolding store(1) places_ok_def
    by (cases "bclient (bk s)") (simp_all add: job_store_def connect_store_def holds_update del: fun_upd_apply)
next
  case (queue k d t n lib dm fresh)
  then show ?thesis
    by (intro places_job [OF assms(2), of "jobs s' k" k]) (auto simp: job_queue_def Let_def split: sum.splits)
next
  case (close_failed k e)
  have "(\<lambda>i. job_holds (jobs s i))(k := None) = (\<lambda>i. job_holds (jobs s i))" using close_failed(2) by auto
  then show ?thesis
    using assms(2) places_close unfolding close_failed(1) places_ok_def
    by (cases "bclient (bk s)") (simp_all add: job_close_def CloseCodex_def holds_update del: fun_upd_apply)
next
  case (adopt m)
  have "dials (snd (AdoptCodex m c)) = dials c \<and> bclosed (snd (AdoptCodex m c)) = bclosed c
    \<and> bclient (snd (AdoptCodex m c)) = bclient c" for c
    by (simp add: AdoptCodex_def split: sum.splits meta_error.splits)
  then show ?thesis using assms(2) by (simp add: adopt adopt_request_def places_ok_def)
next
  case close
  then show ?thesis using assms(2) places_close by (auto simp: places_ok_def CloseCodex_def split: option.splits)
qed

definition is_opened :: "deliveries \<Rightarrow> bool" where
  "is_opened s \<longleftrightarrow> (\<exists>h name. s = opened h name)"

interpretation concurrent: transition_system is_opened dstep deliveries_inv
  by unfold_locales (auto simp: is_opened_def deliveries_inv_def intro: targets_step places_step inv_opened [unfolded deliveries_inv_def, THEN conjunct1]
      inv_opened [unfolded deliveries_inv_def, THEN conjunct2])

subsection \<open>What holds of concurrent deliveries\<close>

text \<open>
  (C11) However deliveries, requests and closes interleave, no message is ever queued on a thread
  other than the first one that identified itself to this process: every request names that
  thread, or no thread at all, in which case the daemon has nothing to queue it on.
\<close>

theorem codex_requests_name_first_thread:
  assumes "dstep\<^sup>*\<^sup>* (opened h name) s" "(t, x) \<in> set (sent s)"
  shows "t = [] \<or> seen s \<noteq> [] \<and> t = hd (seen s)"
  using concurrent.inv_steps [OF assms(1) inv_opened] assms(2)
  by (auto simp: deliveries_inv_def targets_ok_def own_thread_def)

text \<open>
  (C12) No connection is lost and none is owned twice: at every moment each connection ever dialled
  is in exactly one of three places: closed by the backend, stored in it for all deliveries to use,
  or in the hands of a delivery that is still connecting, and of one only. What is stored or in
  hand is not closed, what is stored is in nobody's hand, and what was never dialled is nowhere. So
  when no delivery is connecting, closing the backend leaves no connection open.
\<close>

theorem codex_connections_accounted:
  assumes "dstep\<^sup>*\<^sup>* (opened h name) s"
  shows "(\<forall>n. n < dials (bk s) \<longleftrightarrow> n \<in> bclosed (bk s) \<or> bclient (bk s) = Some n \<or> (\<exists>k. job_holds (jobs s k) = Some n))
    \<and> (\<forall>n. bclient (bk s) = Some n \<longrightarrow> n \<notin> bclosed (bk s) \<and> (\<forall>k. job_holds (jobs s k) \<noteq> Some n))
    \<and> (\<forall>n k. job_holds (jobs s k) = Some n \<longrightarrow> n \<notin> bclosed (bk s) \<and> (\<forall>k'. job_holds (jobs s k') = Some n \<longrightarrow> k' = k))
    \<and> ((\<forall>k. job_holds (jobs s k) = None) \<longrightarrow> bclosed (CloseCodex (bk s)) = {..<dials (bk s)})"
proof -
  have p: "places (dials (bk s)) (bclosed (bk s)) (bclient (bk s)) (\<lambda>k. job_holds (jobs s k))"
    using concurrent.inv_steps [OF assms inv_opened] by (simp add: deliveries_inv_def places_ok_def)
  have "bclosed (CloseCodex (bk s)) = {..<dials (bk s)}" if "\<forall>k. job_holds (jobs s k) = None"
  proof -
    have "n < dials (bk s) \<longleftrightarrow> n \<in> bclosed (bk s) \<or> bclient (bk s) = Some n" for n
      using p that unfolding places_def by simp
    then show ?thesis by (auto simp: CloseCodex_def set_eq_iff split: option.splits)
  qed
  then show ?thesis using p unfolding places_def by blast
qed

subsection \<open>A concrete run\<close>

definition thread_meta :: "gostring \<Rightarrow> meta" where
  "thread_meta t = [metaThreadID \<mapsto> JStr t]"

lemma thread_meta_ids: "threadIDFromMeta (thread_meta ''a'') = Inr ''a''" "threadIDFromMeta (thread_meta ''b'') = Inr ''b''"
proof -
  have "TrimSpace [c] = [c]" if "c = CHR ''a'' \<or> c = CHR ''b''" for c
    using that by (auto simp: TrimSpace_def trim_def pieces.simps space_piece_def isSpace_def Let_def)
  then show "threadIDFromMeta (thread_meta ''a'') = Inr ''a''" "threadIDFromMeta (thread_meta ''b'') = Inr ''b''"
    by (simp_all add: threadIDFromMeta_def thread_meta_def)
qed

text \<open>One delivery is checked, then a second thread identifies itself, then the delivery goes on.\<close>

definition checked :: deliveries where
  "checked = job_check daemon_host hello 0 (adopt_request (thread_meta ''a'') (opened daemon_host ''me''))"

definition overtaken :: deliveries where
  "overtaken = adopt_request (thread_meta ''b'') checked"

lemma checked_facts:
  "dstep\<^sup>*\<^sup>* (opened daemon_host ''me'') checked" "jobs checked 0 = JChecked hello"
  "bk checked = (newCodex daemon_host ''me'')\<lparr>thread := ''a''\<rparr>" "sent checked = []"
proof -
  let ?s = "adopt_request (thread_meta ''a'') (opened daemon_host ''me'')"
  have b: "bk ?s = (newCodex daemon_host ''me'')\<lparr>thread := ''a''\<rparr>" "jobs ?s = (\<lambda>_. JIdle)" "sent ?s = []"
    by (simp_all add: adopt_request_def opened_def AdoptCodex_def thread_meta_ids newCodex_def)
  have "dstep (opened daemon_host ''me'') ?s" by (rule dstep.adopt)
  moreover have "dstep ?s checked" unfolding checked_def by (rule dstep.check) (simp add: b)
  ultimately show "dstep\<^sup>*\<^sup>* (opened daemon_host ''me'') checked" by (meson converse_rtranclp_into_rtranclp rtranclp.rtrancl_refl)
  have "AvailableCodex daemon_host (bk ?s) = None" by (simp add: b AvailableCodex_def newCodex_def DefaultSocket_daemon_host)
  then show "jobs checked 0 = JChecked hello" "bk checked = (newCodex daemon_host ''me'')\<lparr>thread := ''a''\<rparr>" "sent checked = []"
    by (simp_all add: checked_def job_check_def b)
qed

lemma overtaken_facts:
  "dstep\<^sup>*\<^sup>* (opened daemon_host ''me'') overtaken" "jobs overtaken 0 = JChecked hello"
  "bk overtaken = (newCodex daemon_host ''me'')\<lparr>disabled := True\<rparr>" "sent overtaken = []"
proof -
  show "dstep\<^sup>*\<^sup>* (opened daemon_host ''me'') overtaken"
    unfolding overtaken_def using checked_facts(1) dstep.adopt by (rule rtranclp.rtrancl_into_rtrancl)
qed (simp_all add: overtaken_def adopt_request_def checked_facts AdoptCodex_def thread_meta_ids newCodex_def)

text \<open>The rest of a delivery on a daemon that accepts everything.\<close>

definition finish :: "gostring \<Rightarrow> deliveries \<Rightarrow> deliveries" where
  "finish t s = job_queue sample_lib sample_daemon ''f'' hello t 0 0 (job_store hello t 0 0
     (job_init sample_lib daemon_host sample_daemon hello t 0 0 (job_dial sample_daemon hello t 0
       (job_lookup hello t 0 (job_target hello 0 s)))))"

lemma finish_facts:
  assumes "jobs s 0 = JChecked hello" "thread (bk s) = t" "bclient (bk s) = None" "dials (bk s) = 0" "bname (bk s) = ''me''"
  shows "dstep\<^sup>*\<^sup>* s (finish t s)" "sent (finish t s) = (t, compose hello) # sent s"
    "thread (bk (finish t s)) = t" "disabled (bk (finish t s)) = disabled (bk s)" "seen (finish t s) = seen s"
    "dials (bk (finish t s)) = 1"
proof -
  let ?s1 = "job_target hello 0 s" let ?s2 = "job_lookup hello t 0 ?s1" let ?s3 = "job_dial sample_daemon hello t 0 ?s2"
  let ?s4 = "job_init sample_lib daemon_host sample_daemon hello t 0 0 ?s3" let ?s5 = "job_store hello t 0 0 ?s4"
  have s1: "jobs ?s1 0 = JTarget hello t" "bk ?s1 = bk s" "sent ?s1 = sent s" "seen ?s1 = seen s"
    using assms latched_facts(4) by (simp_all add: job_target_def)
  have s2: "jobs ?s2 0 = JConnecting hello t" "bk ?s2 = bk s" "sent ?s2 = sent s" "seen ?s2 = seen s"
    using assms s1 by (simp_all add: job_lookup_def)
  have s3: "jobs ?s3 0 = JDialled hello t 0" "bk ?s3 = (bk s)\<lparr>dials := 1\<rparr>" "sent ?s3 = sent s" "seen ?s3 = seen s"
    using assms s2 by (simp_all add: job_dial_def connect_dial_def sample_daemon_def)
  have s4: "jobs ?s4 0 = JStoring hello t 0" "bk ?s4 = (bk s)\<lparr>dials := 1\<rparr>" "sent ?s4 = sent s" "seen ?s4 = seen s"
    using assms s3 by (simp_all add: job_init_def connect_init_def codex_senderName_def sample_init)
  have s5: "jobs ?s5 0 = JReady hello t 0" "bk ?s5 = (bk s)\<lparr>dials := 1, bclient := Some 0\<rparr>" "sent ?s5 = sent s" "seen ?s5 = seen s"
    using assms s4 by (simp_all add: job_store_def connect_store_def)
  have "dstep s ?s1" "dstep ?s1 ?s2" "dstep ?s2 ?s3" "dstep ?s3 ?s4" "dstep ?s4 ?s5" "dstep ?s5 (finish t s)"
    unfolding finish_def
    by (rule dstep.intros, rule assms(1), rule dstep.intros, rule s1, rule dstep.intros, rule s2, rule dstep.intros, rule s3,
        rule dstep.intros, rule s4, rule dstep.intros, rule s5)
  then show "dstep\<^sup>*\<^sup>* s (finish t s)" by (meson converse_rtranclp_into_rtranclp rtranclp.rtrancl_refl)
  show "sent (finish t s) = (t, compose hello) # sent s" "thread (bk (finish t s)) = t"
    "disabled (bk (finish t s)) = disabled (bk s)" "seen (finish t s) = seen s" "dials (bk (finish t s)) = 1"
    using s5 assms(2) by (auto simp: finish_def job_queue_def Let_def split: sum.splits)
qed

text \<open>
  The test of availability and the reading of the thread are two critical sections, so a
  delivery that was allowed can go on after a second thread has disabled the backend: it then
  dials, initializes and asks the daemon to queue its text on the empty thread.
\<close>

theorem codex_disabled_backend_still_sends:
  "\<exists>s. dstep\<^sup>*\<^sup>* (opened daemon_host ''me'') s \<and> disabled (bk s) \<and> ([], compose hello) \<in> set (sent s)"
proof -
  note f = finish_facts [OF overtaken_facts(2), of "[]"]
  have "thread (bk overtaken) = []" "bclient (bk overtaken) = None" "dials (bk overtaken) = 0" "bname (bk overtaken) = ''me''"
    "disabled (bk overtaken)"
    by (simp_all add: overtaken_facts(3) newCodex_def)
  then show ?thesis using f rtranclp_trans [OF overtaken_facts(1), of "finish [] overtaken"] by auto
qed

lemma checked_backend:
  "thread (bk checked) = ''a''" "bclient (bk checked) = None" "dials (bk checked) = 0" "bname (bk checked) = ''me''"
  by (simp_all add: checked_facts(3) newCodex_def)

theorem codex_requests_name_first_thread_witness:
  "(''a'', compose hello) \<in> set (sent (finish ''a'' checked)) \<and> hd (seen (finish ''a'' checked)) = ''a''"
proof -
  note f = finish_facts [OF checked_facts(2) checked_backend]
  have m: "(''a'', compose hello) \<in> set (sent (finish ''a'' checked))" using f(2) by simp
  then show ?thesis
    using codex_requests_name_first_thread [OF rtranclp_trans [OF checked_facts(1) f(1)] m] by simp
qed

theorem codex_connections_accounted_witness:
  "dials (bk (finish ''a'' checked)) = 1 \<and>
     (0 \<in> bclosed (bk (finish ''a'' checked)) \<or> bclient (bk (finish ''a'' checked)) = Some 0
      \<or> (\<exists>k. job_holds (jobs (finish ''a'' checked) k) = Some 0))"
proof -
  note f = finish_facts [OF checked_facts(2) checked_backend]
  note c = codex_connections_accounted [OF rtranclp_trans [OF checked_facts(1) f(1)]]
  show ?thesis using conjunct1 [OF c, THEN spec [of _ 0]] f(6) by simp
qed

end
