(* ===== verification/Harness.thy ===== *)
theory Harness
  imports Deliver_Claude Deliver_Steps
begin

text \<open>
  \<open>Open\<close> of \<open>deliver/deliver.go\<close>: which of the two backends a process gets, and the methods of
  the \<open>Deliverer\<close> it returns. Beside them the \<open>unavailable\<close> type of that file, which nothing
  returns.
\<close>

datatype Deliverer = ClaudeD claudeBackend | CodexD codexBackend

definition zero_options :: options where
  "zero_options = \<lparr>senderName = [], replyAddress = [], omode = []\<rparr>"

definition Open :: "host \<Rightarrow> (options \<Rightarrow> options) list \<Rightarrow> Deliverer" where
  "Open h opts =
     (let o1 = foldl (\<lambda>o' opt. opt o') zero_options opts;
          o2 = (if senderName o1 = [] then o1\<lparr>senderName := defaultSenderName h\<rparr> else o1);
          sock = getenv h EnvClaudeSocket
      in if sock \<noteq> []
         then ClaudeD (newClaude h sock (getenv h EnvClaudeToken) (senderName o2) (replyAddress o2) (omode o2))
         else CodexD (newCodex h (senderName o2)))"

fun Adopt :: "meta \<Rightarrow> Deliverer \<Rightarrow> Deliverer" where
  "Adopt m (ClaudeD c) = ClaudeD (AdoptClaude m c)"
| "Adopt m (CodexD c) = CodexD (snd (AdoptCodex m c))"

fun Available :: "host \<Rightarrow> Deliverer \<Rightarrow> unavailable_reason option" where
  "Available h (ClaudeD c) = AvailableClaude h c"
| "Available h (CodexD c) = AvailableCodex h c"

subsection \<open>The type that nothing returns\<close>

record unavailable =
  reason :: gostring

definition unavailable_Deliver :: "unavailable \<Rightarrow> Delivery \<Rightarrow> gostring + Receipt" where
  "unavailable_Deliver u d = Inl (''cannot deliver: '' @ reason u)"

definition unavailable_Available :: "unavailable \<Rightarrow> bool \<times> gostring" where
  "unavailable_Available u = (False, reason u)"

definition unavailable_MaxIntactBytes :: "unavailable \<Rightarrow> gostring + nat" where
  "unavailable_MaxIntactBytes u = Inl (reason u)"

definition unavailable_Adopt :: "meta \<Rightarrow> unavailable \<Rightarrow> unavailable" where
  "unavailable_Adopt m u = u"

definition unavailable_String :: "unavailable \<Rightarrow> gostring" where
  "unavailable_String u = ''unavailable: '' @ reason u"

definition unavailable_MarshalJSON :: "unavailable \<Rightarrow> gostring" where
  "unavailable_MarshalJSON u = json_print (JStr (reason u))"

subsection \<open>Both backends as one deliverer\<close>

fun d_latched :: "Deliverer \<Rightarrow> bool" where
  "d_latched (ClaudeD c) = True"
| "d_latched (CodexD c) = (thread c \<noteq> [] \<or> disabled c)"

fun d_usable :: "Deliverer \<Rightarrow> bool" where
  "d_usable (ClaudeD c) = True"
| "d_usable (CodexD c) = (\<not> disabled c)"

fun d_goal :: "Deliverer \<Rightarrow> gostring" where
  "d_goal (ClaudeD c) = socket c"
| "d_goal (CodexD c) = thread c"

interpretation harness: deliverer Adopt d_latched d_usable d_goal
proof unfold_locales
  show "threadIDFromMeta m = Inl errNoMeta \<Longrightarrow> Adopt m b = b" for m b
    using claude.adopt_nothing codex_backend.adopt_nothing by (cases b) simp_all
  show "d_latched b \<Longrightarrow> d_latched (Adopt m b)" for m b
    using codex_backend.latched_adopt by (cases b) simp_all
  show "d_latched b \<Longrightarrow> d_usable (Adopt m b) \<Longrightarrow> d_usable b \<and> d_goal (Adopt m b) = d_goal b" for m b
    using codex_backend.goal_adopt [of _ m] by (cases b) (auto simp: AdoptClaude_def)
qed

text \<open>
  (C10) Whatever harness launched the process, no request can point its deliveries somewhere else.
  Take a deliverer as \<open>Open\<close> makes it and adopt the metadata of any requests; if it has a target
  then, no further metadata changes that target as long as anything is delivered at all. Under
  Claude Code the target is from the start the socket of the environment.
\<close>

theorem harness_never_retargets:
  assumes "d_latched (foldl (\<lambda>b m. Adopt m b) (Open h opts) ms)"
    and "d_usable (foldl (\<lambda>b m. Adopt m b) (Open h opts) (ms @ ms'))"
  shows "d_goal (foldl (\<lambda>b m. Adopt m b) (Open h opts) (ms @ ms')) = d_goal (foldl (\<lambda>b m. Adopt m b) (Open h opts) ms)
    \<and> (getenv h EnvClaudeSocket \<noteq> [] \<longrightarrow>
        d_goal (foldl (\<lambda>b m. Adopt m b) (Open h opts) (ms @ ms')) = getenv h EnvClaudeSocket)"
proof -
  let ?b = "Open h opts"
  have a: "foldl (\<lambda>b m. Adopt m b) b ms = harness.adopts ms b" for b ms by (simp add: harness.adopts_def)
  have s: "harness.adopts (ms @ ms') ?b = harness.adopts ms' (harness.adopts ms ?b)" by (simp add: harness.adopts_def)
  have "d_goal (harness.adopts (ms @ ms') ?b) = d_goal (harness.adopts ms ?b)"
    using assms harness.never_retargets unfolding a s by blast
  moreover have "d_goal (harness.adopts (ms @ ms') ?b) = getenv h EnvClaudeSocket" if "getenv h EnvClaudeSocket \<noteq> []"
  proof -
    have "d_latched ?b" "d_goal ?b = getenv h EnvClaudeSocket"
      using that by (simp_all add: Open_def Let_def newClaude_def)
    then show ?thesis using assms(2) harness.never_retargets [of ?b "ms @ ms'"] unfolding a by simp
  qed
  ultimately show ?thesis unfolding a by blast
qed

theorem harness_never_retargets_witness:
  "d_goal (foldl (\<lambda>b m. Adopt m b) (Open idle_host []) ([thread_meta ''a''] @ [Map.empty, thread_meta ''a''])) = ''a''"
proof -
  let ?f = "foldl (\<lambda>b m. Adopt m b) (Open idle_host [])"
  have e: "getenv idle_host EnvClaudeSocket = []" by (simp add: getenv_def idle_host_def EnvClaudeSocket_def)
  have n: "threadIDFromMeta Map.empty = Inl errNoMeta" by (simp add: threadIDFromMeta_def)
  have l: "d_latched (?f [thread_meta ''a''])" "d_goal (?f [thread_meta ''a'']) = ''a''"
    using e by (simp_all add: Open_def Let_def newCodex_def AdoptCodex_def thread_meta_ids)
  have u: "d_usable (?f ([thread_meta ''a''] @ [Map.empty, thread_meta ''a'']))"
    using e by (simp add: Open_def Let_def newCodex_def AdoptCodex_def thread_meta_ids n)
  show ?thesis using harness_never_retargets [OF l(1) u] l(2) by simp
qed

text \<open>
  A process whose environment was cleared reaches no harness: whatever the options, \<open>Open\<close>
  gives it a Codex backend without a target, which reports that it is unavailable and refuses
  every delivery before it connects to anything. The same holds of a process that never had a
  harness, whatever \<open>CODEX_SESSION_ID\<close> says: that variable is cleared, but nothing reads it.
\<close>

theorem no_environment_no_delivery:
  assumes "getenv h EnvClaudeSocket = []"
  shows "\<exists>c r. Open h opts = CodexD c \<and> AvailableCodex h c = Some r
    \<and> DeliverCodex lib h dm fresh c d = (Inl (CodexUnavailable r), c)"
proof -
  obtain name where o: "Open h opts = CodexD (newCodex h name)" using assms by (auto simp: Open_def Let_def)
  then obtain r where "AvailableCodex h (newCodex h name) = Some r"
    by (cases "DefaultSocket h") (simp_all add: AvailableCodex_def newCodex_def)
  then show ?thesis using o by (simp add: DeliverCodex_def)
qed

theorem no_environment_no_delivery_witness:
  "\<exists>c r. Open (snd (ClearEnvForTesting (idle_host\<lparr>h_env := [EnvClaudeSocket \<mapsto> ''/s'', EnvCodexSession \<mapsto> ''x'']\<rparr>))) [] = CodexD c
     \<and> AvailableCodex (snd (ClearEnvForTesting (idle_host\<lparr>h_env := [EnvClaudeSocket \<mapsto> ''/s'', EnvCodexSession \<mapsto> ''x'']\<rparr>))) c = Some r"
proof -
  let ?h = "snd (ClearEnvForTesting (idle_host\<lparr>h_env := [EnvClaudeSocket \<mapsto> ''/s'', EnvCodexSession \<mapsto> ''x'']\<rparr>))"
  have "getenv ?h EnvClaudeSocket = []"
    by (simp add: ClearEnvForTesting_def clear_env_spec [OF harnessEnv_distinct] getenv_def) (simp add: harnessEnv_def)
  from no_environment_no_delivery [OF this] show ?thesis by blast
qed

end
