(* ===== verification/Serve_Steps.thy ===== *)
theory Serve_Steps
  imports Inbox
begin

text \<open>
  A bound inbox with all the goroutines that touch it, from \<open>udsmsg/server.go\<close>: the accept loop of
  \<open>Serve\<close> (called directly or by \<open>Start\<close>), the goroutine it starts to wait for the end of its
  context, one goroutine for each connection, and any number of calls of \<open>Close\<close>. A step is what
  one goroutine does between two points where another can interfere. \<open>Inbox.Close\<close> is a call of
  \<open>Close\<close> that runs alone; here it is four steps, since it gives up the mutex after it has marked
  the server as closed, and then changes the host three times.
\<close>

subsection \<open>Closing in steps\<close>

text \<open>
  The host after the first \<open>k\<close> of the removals of a \<open>Close\<close>: the listener takes its socket with it,
  the socket is removed once more, then the key file.
\<close>

definition closing_steps :: "nat \<Rightarrow> Server \<Rightarrow> host \<Rightarrow> host" where
  "closing_steps k s h =
     foldl (\<lambda>h f. f h) h (take k
       [\<lambda>h. unlink h (path s), \<lambda>h. unlink h (path s),
        \<lambda>h. if PublishKey (cfg s) then snd (removeKey h (h_pid h) (path s)) else h])"

lemma closing_steps_all: "3 \<le> k \<Longrightarrow> \<not> closed s \<Longrightarrow> closing_steps k s h = snd (Close s h)"
  by (simp add: closing_steps_def Close_def Let_def)

lemma closing_steps_simps:
  "closing_steps 0 s h = h"
  "closing_steps (Suc 0) s h = unlink h (path s)"
  "closing_steps 2 s h = unlink (closing_steps (Suc 0) s h) (path s)"
  "closing_steps 3 s h = (if PublishKey (cfg s) then snd (removeKey (closing_steps 2 s h) (h_pid (closing_steps 2 s h)) (path s))
     else closing_steps 2 s h)"
  by (simp_all add: closing_steps_def numeral_2_eq_2 numeral_3_eq_3)

text \<open>Where a call of \<open>Close\<close> is; a call that has returned either did the work or found it begun.\<close>

datatype close_pc =
    CloseCalled
  | CloseMarked
  | ListenerClosed
  | SocketRemoved
  | CloseReturned bool        \<comment> \<open>whether it was this call that closed the inbox\<close>

datatype serve_phase = NotServing | Accepting | WaitingConns | Returned

text \<open>The goroutine that waits for the end of the context of \<open>Serve\<close>.\<close>

datatype watcher = NoWatcher | Watching | Watched

text \<open>
  An accepted connection: the events of its \<open>handleConn\<close>, how many have happened, and whether its
  goroutine has ended.
\<close>

record conn_run =
  cr_events :: "event list"
  cr_made :: nat
  cr_over :: bool

record serving =
  sv_server :: Server            \<comment> \<open>its \<open>closed\<close> is guarded by the mutex\<close>
  sv_host :: host
  sv_calls :: "close_pc list"    \<comment> \<open>every call of \<open>Close\<close> there has been\<close>
  sv_ended :: bool               \<comment> \<open>the context has ended\<close>
  sv_watcher :: watcher
  sv_phase :: serve_phase
  sv_wg :: nat                   \<comment> \<open>the wait group\<close>
  sv_conns :: "conn_run list"    \<comment> \<open>every connection accepted\<close>
  sv_log :: "(nat \<times> event) list"  \<comment> \<open>the calls of handlers, with the connection that made each\<close>
  sv_reported :: nat             \<comment> \<open>how many failed accepts were reported\<close>

definition sv_init :: "Server \<Rightarrow> host \<Rightarrow> serving" where
  "sv_init s h = \<lparr>sv_server = s, sv_host = h, sv_calls = [], sv_ended = False, sv_watcher = NoWatcher,
     sv_phase = NotServing, sv_wg = 0, sv_conns = [], sv_log = [], sv_reported = 0\<rparr>"

definition call_Close :: "serving \<Rightarrow> serving" where
  "call_Close s = s\<lparr>sv_calls := sv_calls s @ [CloseCalled]\<rparr>"

text \<open>The next step of the \<open>i\<close>th call of \<open>Close\<close>; the first is its critical section.\<close>

definition close_turn :: "nat \<Rightarrow> serving \<Rightarrow> serving" where
  "close_turn i s =
     (let srv = sv_server s; h = sv_host s; goto = (\<lambda>pc. (sv_calls s)[i := pc]) in
      case sv_calls s ! i of
        CloseCalled \<Rightarrow>
          if closed srv then s\<lparr>sv_calls := goto (CloseReturned False)\<rparr>
          else s\<lparr>sv_server := srv\<lparr>closed := True\<rparr>, sv_calls := goto CloseMarked\<rparr>
      | CloseMarked \<Rightarrow>
          s\<lparr>sv_server := srv\<lparr>listening := False\<rparr>, sv_host := unlink h (path srv), sv_calls := goto ListenerClosed\<rparr>
      | ListenerClosed \<Rightarrow> s\<lparr>sv_host := unlink h (path srv), sv_calls := goto SocketRemoved\<rparr>
      | SocketRemoved \<Rightarrow>
          s\<lparr>sv_host := (if PublishKey (cfg srv) then snd (removeKey h (h_pid h) (path srv)) else h),
            sv_calls := goto (CloseReturned True)\<rparr>
      | CloseReturned b \<Rightarrow> s)"

subsection \<open>Serving in steps\<close>

definition start_serve :: "serving \<Rightarrow> serving" where
  "start_serve s = s\<lparr>sv_phase := Accepting, sv_watcher := Watching\<rparr>"

text \<open>
  \<open>Start\<close> does the same in a goroutine of its own. \<open>Serve\<close> has no error to return, so what that
  goroutine would report is never reported.
\<close>

definition Start :: "serving \<Rightarrow> serving" where
  "Start s = start_serve s"

definition context_ends :: "serving \<Rightarrow> serving" where
  "context_ends s = s\<lparr>sv_ended := True\<rparr>"

definition watcher_turn :: "serving \<Rightarrow> serving" where
  "watcher_turn s = (call_Close s)\<lparr>sv_watcher := Watched\<rparr>"

text \<open>\<open>AcceptUnix\<close> returned a connection, which gets a goroutine of its own.\<close>

definition serve_accept :: "kernel_cred \<Rightarrow> nat \<Rightarrow> net_conn \<Rightarrow> serving \<Rightarrow> serving" where
  "serve_accept cred now conn s = s\<lparr>sv_wg := sv_wg s + 1,
     sv_conns := sv_conns s @
       [\<lparr>cr_events = handleConn (sv_server s) (sv_host s) cred now conn, cr_made = 0, cr_over = False\<rparr>]\<rparr>"

text \<open>\<open>AcceptUnix\<close> failed, which it does with \<open>net.ErrClosed\<close> once the listener is closed.\<close>

definition serve_accept_error :: "serving \<Rightarrow> serving" where
  "serve_accept_error s =
     (if closed (sv_server s) \<or> \<not> listening (sv_server s) then s\<lparr>sv_phase := WaitingConns\<rparr>
      else s\<lparr>sv_reported := sv_reported s + 1\<rparr>)"

text \<open>The goroutine of the \<open>i\<close>th connection makes its next call of a handler, or is done.\<close>

definition conn_turn :: "nat \<Rightarrow> serving \<Rightarrow> serving" where
  "conn_turn i s =
     (let c = sv_conns s ! i in
      if cr_made c < length (cr_events c)
      then s\<lparr>sv_conns := (sv_conns s)[i := c\<lparr>cr_made := cr_made c + 1\<rparr>],
             sv_log := sv_log s @ [(i, cr_events c ! cr_made c)]\<rparr>
      else s\<lparr>sv_conns := (sv_conns s)[i := c\<lparr>cr_over := True\<rparr>], sv_wg := sv_wg s - 1\<rparr>)"

definition serve_return :: "serving \<Rightarrow> serving" where
  "serve_return s = s\<lparr>sv_phase := Returned\<rparr>"

definition close_returned :: "close_pc \<Rightarrow> bool" where
  "close_returned pc \<longleftrightarrow> (case pc of CloseReturned _ \<Rightarrow> True | _ \<Rightarrow> False)"

text \<open>
  What the code does of itself, whatever happens outside: a call of \<open>Close\<close> goes on, the watcher
  wakes up, \<open>AcceptUnix\<close> fails on a closed listener, \<open>Wait\<close> returns when the group is empty.
\<close>

inductive sv_work :: "serving \<Rightarrow> serving \<Rightarrow> bool" where
  close: "i < length (sv_calls s) \<Longrightarrow> \<not> close_returned (sv_calls s ! i) \<Longrightarrow> sv_work s (close_turn i s)"
| watch: "sv_watcher s = Watching \<Longrightarrow> sv_ended s \<Longrightarrow> sv_work s (watcher_turn s)"
| stop: "sv_phase s = Accepting \<Longrightarrow> \<not> listening (sv_server s) \<Longrightarrow> sv_work s (serve_accept_error s)"
| wait: "sv_phase s = WaitingConns \<Longrightarrow> sv_wg s = 0 \<Longrightarrow> sv_work s (serve_return s)"

text \<open>With what its callers, its peers and the system do.\<close>

inductive sv_step :: "serving \<Rightarrow> serving \<Rightarrow> bool" where
  own: "sv_work s s' \<Longrightarrow> sv_step s s'"
| start: "sv_phase s = NotServing \<Longrightarrow> sv_step s (start_serve s)"
| spawn: "sv_phase s = NotServing \<Longrightarrow> sv_step s (Start s)"
| cancel: "sv_step s (context_ends s)"
| call: "sv_step s (call_Close s)"
| accept: "sv_phase s = Accepting \<Longrightarrow> listening (sv_server s) \<Longrightarrow> sv_step s (serve_accept cred now conn s)"
| fail: "sv_phase s = Accepting \<Longrightarrow> sv_step s (serve_accept_error s)"
| conn: "i < length (sv_conns s) \<Longrightarrow> \<not> cr_over (sv_conns s ! i) \<Longrightarrow> sv_step s (conn_turn i s)"

inductive_cases sv_workE: "sv_work s s'"
inductive_cases sv_stepE: "sv_step s s'"

lemmas sv_ops = call_Close_def start_serve_def Start_def context_ends_def watcher_turn_def serve_accept_def serve_accept_error_def
  serve_return_def

lemma close_turn_frame [simp]:
  "sv_phase (close_turn i s) = sv_phase s" "sv_conns (close_turn i s) = sv_conns s" "sv_log (close_turn i s) = sv_log s"
  "sv_ended (close_turn i s) = sv_ended s" "sv_calls (close_turn i s) = [] \<longleftrightarrow> sv_calls s = []"
  "cfg (sv_server (close_turn i s)) = cfg (sv_server s)" "token (sv_server (close_turn i s)) = token (sv_server s)"
  by (cases "sv_calls s ! i"; simp add: close_turn_def Let_def)+

lemma conn_turn_frame [simp]:
  "sv_phase (conn_turn i s) = sv_phase s" "sv_calls (conn_turn i s) = sv_calls s" "sv_server (conn_turn i s) = sv_server s"
  "sv_host (conn_turn i s) = sv_host s" "sv_ended (conn_turn i s) = sv_ended s" "sv_watcher (conn_turn i s) = sv_watcher s"
  by (simp_all add: conn_turn_def Let_def)

subsection \<open>The invariant\<close>

text \<open>How many removals a call has behind it, and the server and the host there.\<close>

definition stage :: "close_pc \<Rightarrow> nat" where
  "stage pc = (case pc of CloseCalled \<Rightarrow> 0 | CloseMarked \<Rightarrow> 0 | ListenerClosed \<Rightarrow> 1 | SocketRemoved \<Rightarrow> 2
     | CloseReturned _ \<Rightarrow> 3)"

definition closing_at :: "close_pc \<Rightarrow> Server \<Rightarrow> host \<Rightarrow> Server \<times> host" where
  "closing_at pc s h =
     (s\<lparr>closed := True, listening := listening s \<and> stage pc = 0\<rparr>, closing_steps (stage pc) s h)"

text \<open>A call that does not do the closing: it has not begun, or it came too late.\<close>

definition idle_call :: "close_pc \<Rightarrow> bool" where
  "idle_call pc \<longleftrightarrow> pc = CloseCalled \<or> pc = CloseReturned False"

definition closes_inv :: "Server \<Rightarrow> host \<Rightarrow> serving \<Rightarrow> bool" where
  "closes_inv s0 h0 s \<longleftrightarrow>
     (if closed (sv_server s) then
        (\<exists>i<length (sv_calls s). \<not> idle_call (sv_calls s ! i)
           \<and> (sv_server s, sv_host s) = closing_at (sv_calls s ! i) s0 h0
           \<and> (\<forall>j<length (sv_calls s). j \<noteq> i \<longrightarrow> idle_call (sv_calls s ! j)))
      else (sv_server s, sv_host s) = (s0, h0) \<and> set (sv_calls s) \<subseteq> {CloseCalled})"

definition serves_inv :: "serving \<Rightarrow> bool" where
  "serves_inv s \<longleftrightarrow> sv_wg s = length (filter (\<lambda>c. \<not> cr_over c) (sv_conns s))
     \<and> (sv_phase s = WaitingConns \<or> sv_phase s = Returned \<longrightarrow> closed (sv_server s))
     \<and> (sv_phase s = Returned \<longrightarrow> sv_wg s = 0)
     \<and> (sv_watcher s = NoWatcher \<longleftrightarrow> sv_phase s = NotServing)
     \<and> (sv_watcher s = Watched \<longrightarrow> sv_calls s \<noteq> [])"

definition sv_inv :: "Server \<Rightarrow> host \<Rightarrow> serving \<Rightarrow> bool" where
  "sv_inv s0 h0 s \<longleftrightarrow> \<not> closed s0 \<and> listening s0 \<and> closes_inv s0 h0 s \<and> serves_inv s"

text \<open>A step that leaves the calls, the server and the host alone.\<close>

lemma closes_inv_frame [simp]:
  "closes_inv s0 h0 (start_serve s) = closes_inv s0 h0 s"
  "closes_inv s0 h0 (Start s) = closes_inv s0 h0 s"
  "closes_inv s0 h0 (context_ends s) = closes_inv s0 h0 s"
  "closes_inv s0 h0 (watcher_turn s) = closes_inv s0 h0 (call_Close s)"
  "closes_inv s0 h0 (serve_accept cred now conn s) = closes_inv s0 h0 s"
  "closes_inv s0 h0 (serve_accept_error s) = closes_inv s0 h0 s"
  "closes_inv s0 h0 (conn_turn i s) = closes_inv s0 h0 s"
  "closes_inv s0 h0 (serve_return s) = closes_inv s0 h0 s"
  by (simp_all add: closes_inv_def sv_ops)

lemma closes_inv_call: "closes_inv s0 h0 s \<Longrightarrow> closes_inv s0 h0 (call_Close s)"
  unfolding closes_inv_def call_Close_def
  by (fastforce simp: nth_append idle_call_def)

lemma closing_next:
  "\<not> idle_call pc \<Longrightarrow> \<not> close_returned pc \<Longrightarrow> pc = CloseMarked \<or> pc = ListenerClosed \<or> pc = SocketRemoved"
  by (cases pc) (auto simp: idle_call_def close_returned_def)

lemma closes_inv_turn:
  assumes "closes_inv s0 h0 s" "i < length (sv_calls s)" "\<not> close_returned (sv_calls s ! i)" "listening s0" "\<not> closed s0"
  shows "closes_inv s0 h0 (close_turn i s)"
proof (cases "closed (sv_server s)")
  case False
  then have s: "sv_server s = s0" "sv_host s = h0" "\<And>j. j < length (sv_calls s) \<Longrightarrow> sv_calls s ! j = CloseCalled"
    using assms(1) by (auto simp: closes_inv_def dest!: nth_mem)
  then show ?thesis using assms(2,4,5) False
    by (auto simp: closes_inv_def close_turn_def Let_def closing_at_def stage_def closing_steps_simps idle_call_def
        nth_list_update intro!: exI [of _ i])
next
  case True
  then obtain k where k: "k < length (sv_calls s)" "\<not> idle_call (sv_calls s ! k)"
      "(sv_server s, sv_host s) = closing_at (sv_calls s ! k) s0 h0"
      "\<And>j. j < length (sv_calls s) \<Longrightarrow> j \<noteq> k \<Longrightarrow> idle_call (sv_calls s ! j)"
    using assms(1) by (auto simp: closes_inv_def)
  show ?thesis
  proof (cases "i = k")
    case True
    with k(2) assms(3) closing_next consider "sv_calls s ! i = CloseMarked" | "sv_calls s ! i = ListenerClosed"
      | "sv_calls s ! i = SocketRemoved" by metis
    then show ?thesis using True k \<open>closed (sv_server s)\<close> assms(2)
      by cases (auto simp: closes_inv_def close_turn_def Let_def closing_at_def stage_def closing_steps_simps
          idle_call_def nth_list_update intro!: exI [of _ k])
  next
    case False
    then have "sv_calls s ! i = CloseCalled" using k(4) [OF assms(2)] assms(3) by (auto simp: idle_call_def close_returned_def)
    then show ?thesis using False k assms(2) \<open>closed (sv_server s)\<close>
      by (auto simp: closes_inv_def close_turn_def Let_def idle_call_def nth_list_update intro!: exI [of _ k])
  qed
qed

lemma close_turn_serves: "serves_inv s \<Longrightarrow> serves_inv (close_turn i s)"
  by (cases "sv_calls s ! i") (auto simp: serves_inv_def close_turn_def Let_def)

lemma sv_inv_init: "\<not> closed s0 \<Longrightarrow> listening s0 \<Longrightarrow> sv_inv s0 h0 (sv_init s0 h0)"
  by (simp add: sv_inv_def closes_inv_def serves_inv_def sv_init_def)

lemma deaf_closed: "sv_inv s0 h0 s \<Longrightarrow> \<not> listening (sv_server s) \<Longrightarrow> closed (sv_server s)"
  by (auto simp: sv_inv_def closes_inv_def split: if_splits)

lemma serves_inv_ops:
  "serves_inv s \<Longrightarrow> sv_phase s = NotServing \<Longrightarrow> serves_inv (start_serve s)"
  "serves_inv s \<Longrightarrow> sv_phase s = NotServing \<Longrightarrow> serves_inv (Start s)"
  "serves_inv s \<Longrightarrow> serves_inv (context_ends s)"
  "serves_inv s \<Longrightarrow> serves_inv (call_Close s)"
  "serves_inv s \<Longrightarrow> sv_watcher s = Watching \<Longrightarrow> serves_inv (watcher_turn s)"
  "serves_inv s \<Longrightarrow> sv_phase s = Accepting \<Longrightarrow> serves_inv (serve_accept cred now conn s)"
  "serves_inv s \<Longrightarrow> sv_phase s = Accepting \<Longrightarrow> \<not> listening (sv_server s) \<longrightarrow> closed (sv_server s) \<Longrightarrow> serves_inv (serve_accept_error s)"
  "serves_inv s \<Longrightarrow> sv_phase s = WaitingConns \<Longrightarrow> sv_wg s = 0 \<Longrightarrow> serves_inv (serve_return s)"
  by (auto simp: serves_inv_def sv_ops)

lemma some_open: "i < length cs \<Longrightarrow> \<not> cr_over (cs ! i) \<Longrightarrow> 0 < length (filter (\<lambda>c. \<not> cr_over c) cs)"
  by (induction cs arbitrary: i) (auto simp: less_Suc_eq_0_disj)

lemma conn_over:
  "i < length cs \<Longrightarrow> \<not> cr_over (cs ! i) \<Longrightarrow> length (filter (\<lambda>c. \<not> cr_over c) (cs[i := c])) =
    (if cr_over c then length (filter (\<lambda>c. \<not> cr_over c) cs) - 1 else length (filter (\<lambda>c. \<not> cr_over c) cs))"
proof (induction cs arbitrary: i)
  case (Cons d cs)
  then show ?case using some_open by (cases i) fastforce+
qed simp

lemma wg_zero: "serves_inv s \<Longrightarrow> sv_wg s = 0 \<longleftrightarrow> list_all cr_over (sv_conns s)"
  by (simp add: serves_inv_def filter_empty_conv list_all_iff)

lemma serves_inv_conn:
  assumes "serves_inv s" "i < length (sv_conns s)" "\<not> cr_over (sv_conns s ! i)"
  shows "serves_inv (conn_turn i s)"
  using assms(1) conn_over [OF assms(2,3)] some_open [OF assms(2,3)] assms(3)
  by (auto simp: serves_inv_def conn_turn_def Let_def)

lemma sv_inv_work:
  assumes "sv_inv s0 h0 s" "sv_work s s'"
  shows "sv_inv s0 h0 s'"
  using assms(2,1) deaf_closed [OF assms(1)]
  by (auto elim!: sv_workE simp: sv_inv_def closes_inv_turn close_turn_serves closes_inv_call serves_inv_ops)

lemma sv_inv_step:
  assumes "sv_inv s0 h0 s" "sv_step s s'"
  shows "sv_inv s0 h0 s'"
  using assms(2)
proof (rule sv_stepE)
  assume "sv_work s s'"
  then show ?thesis by (rule sv_inv_work [OF assms(1)])
next
  fix i
  assume "s' = conn_turn i s" "i < length (sv_conns s)" "\<not> cr_over (sv_conns s ! i)"
  then show ?thesis using assms(1) serves_inv_conn by (simp add: sv_inv_def)
qed (use assms(1) deaf_closed [OF assms(1)] in \<open>simp_all add: sv_inv_def closes_inv_call serves_inv_ops\<close>)

subsection \<open>What the handlers are called with\<close>

text \<open>The calls that one connection has made, out of all.\<close>

definition calls_of :: "nat \<Rightarrow> (nat \<times> event) list \<Rightarrow> event list" where
  "calls_of i log = map snd (filter (\<lambda>(j, _). j = i) log)"

lemma calls_of_snoc [simp]:
  "calls_of i (log @ [(j, ev)]) = calls_of i log @ (if j = i then [ev] else [])"
  by (simp add: calls_of_def)

text \<open>The events of one connection with this inbox, whoever the peer is and whatever it sends.\<close>

definition served_by :: "Server \<Rightarrow> event list \<Rightarrow> bool" where
  "served_by s0 evs \<longleftrightarrow> (\<exists>srv h cred now conn. cfg srv = cfg s0 \<and> token srv = token s0 \<and> evs = handleConn srv h cred now conn)"

definition conn_ok :: "Server \<Rightarrow> (nat \<times> event) list \<Rightarrow> nat \<Rightarrow> conn_run \<Rightarrow> bool" where
  "conn_ok s0 log i c \<longleftrightarrow> served_by s0 (cr_events c) \<and> cr_made c \<le> length (cr_events c)
     \<and> (cr_over c \<longrightarrow> cr_made c = length (cr_events c)) \<and> calls_of i log = take (cr_made c) (cr_events c)"

definition calls_inv :: "Server \<Rightarrow> serving \<Rightarrow> bool" where
  "calls_inv s0 s \<longleftrightarrow> cfg (sv_server s) = cfg s0 \<and> token (sv_server s) = token s0
     \<and> (\<forall>x\<in>set (sv_log s). fst x < length (sv_conns s))
     \<and> (\<forall>i<length (sv_conns s). conn_ok s0 (sv_log s) i (sv_conns s ! i))"

lemma calls_inv_frame [simp]:
  "calls_inv s0 (start_serve s) = calls_inv s0 s"
  "calls_inv s0 (Start s) = calls_inv s0 s"
  "calls_inv s0 (context_ends s) = calls_inv s0 s"
  "calls_inv s0 (call_Close s) = calls_inv s0 s"
  "calls_inv s0 (close_turn i s) = calls_inv s0 s"
  "calls_inv s0 (watcher_turn s) = calls_inv s0 s"
  "calls_inv s0 (serve_accept_error s) = calls_inv s0 s"
  "calls_inv s0 (serve_return s) = calls_inv s0 s"
  by (simp_all add: calls_inv_def) (simp_all add: sv_ops)

lemma calls_of_later: "\<forall>x\<in>set log. fst x < i \<Longrightarrow> calls_of i log = []"
  by (auto simp: calls_of_def filter_empty_conv)

lemma calls_inv_accept: "calls_inv s0 s \<Longrightarrow> calls_inv s0 (serve_accept cred now conn s)"
proof -
  assume c: "calls_inv s0 s"
  then have "served_by s0 (handleConn (sv_server s) (sv_host s) cred now conn)"
    unfolding served_by_def calls_inv_def by blast
  with c show ?thesis
    by (auto simp: calls_inv_def serve_accept_def conn_ok_def nth_append less_Suc_eq calls_of_later)
qed

lemma calls_inv_conn:
  assumes "calls_inv s0 s" "i < length (sv_conns s)"
  shows "calls_inv s0 (conn_turn i s)"
proof -
  let ?c = "sv_conns s ! i"
  have c: "conn_ok s0 (sv_log s) j (sv_conns s ! j)" if "j < length (sv_conns s)" for j
    using assms(1) that by (simp add: calls_inv_def)
  show ?thesis
  proof (cases "cr_made ?c < length (cr_events ?c)")
    case True
    then have "conn_ok s0 (sv_log s @ [(i, cr_events ?c ! cr_made ?c)]) j ((sv_conns s)[i := ?c\<lparr>cr_made := cr_made ?c + 1\<rparr>] ! j)"
      if "j < length (sv_conns s)" for j
      using c [OF that] assms(2) by (cases "i = j") (auto simp: conn_ok_def take_Suc_conv_app_nth)
    then show ?thesis using assms True by (simp add: calls_inv_def conn_turn_def Let_def)
  next
    case False
    then have "conn_ok s0 (sv_log s) j ((sv_conns s)[i := ?c\<lparr>cr_over := True\<rparr>] ! j)" if "j < length (sv_conns s)" for j
      using c [OF that] assms(2) by (cases "i = j") (auto simp: conn_ok_def)
    then show ?thesis using assms False by (simp add: calls_inv_def conn_turn_def Let_def)
  qed
qed

interpretation calling: transition_system "\<lambda>s. \<exists>h0. s = sv_init s0 h0" sv_step "calls_inv s0" for s0
proof unfold_locales
  show "calls_inv s0 s'" if "calls_inv s0 s" "sv_step s s'" for s s'
    using that(2,1) by (auto elim!: sv_stepE sv_workE simp: calls_inv_accept calls_inv_conn)
qed (auto simp: calls_inv_def sv_init_def)

subsection \<open>Coming to rest\<close>

text \<open>The steps a call of \<open>Close\<close>, the watcher and \<open>Serve\<close> have left.\<close>

fun call_rank :: "close_pc \<Rightarrow> nat" where
  "call_rank CloseCalled = 4"
| "call_rank CloseMarked = 3"
| "call_rank ListenerClosed = 2"
| "call_rank SocketRemoved = 1"
| "call_rank (CloseReturned _) = 0"

definition sv_rank :: "serving \<Rightarrow> nat" where
  "sv_rank s = sum_list (map call_rank (sv_calls s)) + (if sv_watcher s = Watching then 5 else 0)
     + (case sv_phase s of Accepting \<Rightarrow> 2 | WaitingConns \<Rightarrow> 1 | _ \<Rightarrow> 0)"

lemma close_turn_rank:
  assumes "i < length (sv_calls s)" "\<not> close_returned (sv_calls s ! i)"
  shows "sv_rank (close_turn i s) < sv_rank s"
proof -
  have le: "call_rank (sv_calls s ! i) \<le> sum_list (map call_rank (sv_calls s))"
    using assms(1) by (intro member_le_sum_list) auto
  then have "sum_list (map call_rank ((sv_calls s)[i := pc])) < sum_list (map call_rank (sv_calls s))"
    if "call_rank pc < call_rank (sv_calls s ! i)" for pc
    using that assms(1) by (simp add: map_update sum_list_update)
  then show ?thesis using assms(2)
    by (cases "sv_calls s ! i") (auto simp: close_turn_def Let_def sv_rank_def close_returned_def)
qed

lemma sv_work_rank: "sv_inv s0 h0 s \<Longrightarrow> sv_work s s' \<Longrightarrow> sv_rank s' < sv_rank s"
  by (erule sv_workE) (auto simp: close_turn_rank, auto simp: sv_rank_def sv_ops deaf_closed)

lemma all_over: "sv_inv s0 h0 s \<Longrightarrow> sv_phase s = Returned \<Longrightarrow> list_all cr_over (sv_conns s)"
proof -
  assume a: "sv_inv s0 h0 s" "sv_phase s = Returned"
  then have "serves_inv s" by (simp add: sv_inv_def)
  with wg_zero [OF this] a(2) show ?thesis by (simp add: serves_inv_def)
qed

lemma returned_step:
  assumes "sv_inv s0 h0 s" "sv_phase s = Returned" "sv_step s s'"
  shows "sv_phase s' = Returned \<and> (sv_conns s', sv_log s') = (sv_conns s, sv_log s)"
proof -
  have "sv_watcher s \<noteq> NoWatcher" using assms(1,2) by (auto simp: sv_inv_def serves_inv_def)
  with all_over [OF assms(1,2)] show ?thesis using assms(2,3) by (auto elim!: sv_stepE sv_workE simp: sv_ops list_all_length)
qed

text \<open>Once it has returned, \<open>Serve\<close> accepts and runs nothing more.\<close>

interpretation serving: latching_system "\<lambda>s. s = sv_init s0 h0 \<and> \<not> closed s0 \<and> listening s0" sv_step "sv_inv s0 h0"
  "\<lambda>s. sv_phase s = Returned" "\<lambda>s. (sv_conns s, sv_log s)" for s0 h0
  by unfold_locales (auto intro: sv_inv_init sv_inv_step dest: returned_step)

text \<open>Its own work comes to rest.\<close>

interpretation ending: ranked_system "\<lambda>s. s = sv_init s0 h0 \<and> \<not> closed s0 \<and> listening s0" sv_step "sv_inv s0 h0"
  sv_work sv_rank for s0 h0
  by unfold_locales (auto intro: own sv_work_rank)

definition asked_to_close :: "serving \<Rightarrow> bool" where
  "asked_to_close s \<longleftrightarrow> sv_calls s \<noteq> [] \<or> sv_ended s \<and> sv_phase s \<noteq> NotServing"

lemma stage_le: "stage pc \<le> 3"
  by (simp add: stage_def split: close_pc.split)

lemma closing_done:
  assumes "\<not> closed s0"
  shows "closing_at (CloseReturned b) s0 h0 = Close s0 h0"
  using closing_steps_all [OF _ assms, of 3 h0]
  by (simp add: closing_at_def stage_def) (simp add: Close_def Let_def assms)

text \<open>What the invariant says of the closing call, and of any call that has returned.\<close>

lemma closes_inv_facts:
  assumes "closes_inv s0 h0 s" "\<not> closed s0"
  shows "\<exists>k\<le>3. sv_host s = closing_steps k s0 h0" "\<not> closed (sv_server s) \<longrightarrow> sv_host s = h0"
    "length (filter (\<lambda>pc. \<not> idle_call pc) (sv_calls s)) \<le> 1"
    "CloseReturned True \<in> set (sv_calls s) \<longrightarrow> Close s0 h0 = (sv_server s, sv_host s)"
    "CloseReturned False \<in> set (sv_calls s) \<longrightarrow> closed (sv_server s)"
proof -
  note inv = assms(1) [unfolded closes_inv_def]
  show "\<not> closed (sv_server s) \<longrightarrow> sv_host s = h0" using inv by (cases "closed (sv_server s)") simp_all
  show "CloseReturned False \<in> set (sv_calls s) \<longrightarrow> closed (sv_server s)"
    using inv by (cases "closed (sv_server s)") auto
  show "\<exists>k\<le>3. sv_host s = closing_steps k s0 h0"
    using inv stage_le closing_steps_simps(1) [of s0 h0] by (auto simp: closing_at_def split: if_splits)
  show "length (filter (\<lambda>pc. \<not> idle_call pc) (sv_calls s)) \<le> 1"
  proof (cases "closed (sv_server s)")
    case False
    then have "filter (\<lambda>pc. \<not> idle_call pc) (sv_calls s) = []" using inv by (auto simp: filter_empty_conv idle_call_def)
    then show ?thesis by simp
  next
    case True
    then obtain i where "\<forall>j<length (sv_calls s). j \<noteq> i \<longrightarrow> idle_call (sv_calls s ! j)" using inv by auto
    then have "{j. j < length (sv_calls s) \<and> \<not> idle_call (sv_calls s ! j)} \<subseteq> {i}" by auto
    from card_mono [OF _ this] show ?thesis by (simp add: length_filter_conv_card)
  qed
  show "CloseReturned True \<in> set (sv_calls s) \<longrightarrow> Close s0 h0 = (sv_server s, sv_host s)"
  proof
    assume "CloseReturned True \<in> set (sv_calls s)"
    then obtain j where j: "j < length (sv_calls s)" "sv_calls s ! j = CloseReturned True" by (auto simp: in_set_conv_nth)
    then have "closed (sv_server s)" using inv by (auto dest!: nth_mem split: if_splits)
    then obtain i where "(sv_server s, sv_host s) = closing_at (sv_calls s ! i) s0 h0"
        "\<forall>j<length (sv_calls s). j \<noteq> i \<longrightarrow> idle_call (sv_calls s ! j)" using inv by auto
    moreover from this j have "i = j" by (auto simp: idle_call_def)
    ultimately show "Close s0 h0 = (sv_server s, sv_host s)" using j closing_done [OF assms(2)] by simp
  qed
qed

lemma all_returned:
  assumes "closes_inv s0 h0 s" "sv_calls s \<noteq> []" "\<And>pc. pc \<in> set (sv_calls s) \<Longrightarrow> close_returned pc" "\<not> closed s0"
  shows "Close s0 h0 = (sv_server s, sv_host s)"
proof -
  have "hd (sv_calls s) \<in> set (sv_calls s)" using assms(2) by simp
  then have "closed (sv_server s)"
    using assms(1) assms(3) [of "hd (sv_calls s)"] by (auto simp: closes_inv_def close_returned_def split: if_splits)
  then obtain i where i: "i < length (sv_calls s)" "\<not> idle_call (sv_calls s ! i)"
    using assms(1) by (auto simp: closes_inv_def)
  then have "CloseReturned True \<in> set (sv_calls s)"
    using assms(3) [OF nth_mem [OF i(1)]] nth_mem [OF i(1)] by (cases "sv_calls s ! i") (auto simp: idle_call_def close_returned_def)
  then show ?thesis using closes_inv_facts(4) [OF assms(1,4)] by blast
qed

lemma serve_at_rest:
  assumes "sv_inv s0 h0 s" "\<nexists>t. sv_work s t" "asked_to_close s"
  shows "Close s0 h0 = (sv_server s, sv_host s) \<and> (\<forall>pc\<in>set (sv_calls s). close_returned pc)
    \<and> (sv_phase s = NotServing \<or> sv_phase s = Returned \<or> sv_phase s = WaitingConns \<and> 0 < sv_wg s)"
proof -
  have r: "close_returned pc" if "pc \<in> set (sv_calls s)" for pc
    using that assms(2) sv_work.close [of _ s] by (auto simp: in_set_conv_nth)
  have "sv_calls s \<noteq> []"
    using assms sv_work.watch [of s] by (cases "sv_watcher s") (auto simp: asked_to_close_def sv_inv_def serves_inv_def)
  then have c: "Close s0 h0 = (sv_server s, sv_host s)"
    using all_returned [of s0 h0 s] r assms(1) by (simp add: sv_inv_def)
  then have "sv_server s = fst (Close s0 h0)" by simp
  then have "\<not> listening (sv_server s)" using assms(1) by (simp add: sv_inv_def Close_def Let_def)
  then have "sv_phase s \<noteq> Accepting" "sv_phase s = WaitingConns \<longrightarrow> 0 < sv_wg s"
    using assms(2) sv_work.stop [of s] sv_work.wait [of s] by auto
  then show ?thesis using c r by (cases "sv_phase s") auto
qed

subsection \<open>Properties\<close>

text \<open>
  (C27) \<open>Serve\<close> and \<open>Close\<close> come to rest, however connections, calls of \<open>Close\<close>, the end of the
  context and errors of \<open>AcceptUnix\<close> interleave. From any reachable state the code has a bounded
  number of steps left to take of itself, and some run takes them; and where none is left after
  somebody asked for the end, by a call of \<open>Close\<close> or by ending the context of a \<open>Serve\<close> that
  runs, then the server and the host are what one \<open>Close\<close> run alone leaves, every call of \<open>Close\<close>
  has returned, and \<open>Serve\<close> has returned with every connection it accepted finished, unless a
  connection is still open, for which it waits as long as the peer likes.
\<close>

theorem serve_shuts_down:
  assumes "\<not> closed s0" "listening s0" "sv_step\<^sup>*\<^sup>* (sv_init s0 h0) s"
  shows "(\<forall>n t. (sv_work ^^ n) s t \<longrightarrow> n \<le> sv_rank s)
    \<and> (\<exists>t. sv_work\<^sup>*\<^sup>* s t \<and> (\<nexists>u. sv_work t u))
    \<and> (\<forall>t. sv_work\<^sup>*\<^sup>* s t \<and> (\<nexists>u. sv_work t u) \<and> asked_to_close t \<longrightarrow>
         Close s0 h0 = (sv_server t, sv_host t) \<and> (\<forall>pc\<in>set (sv_calls t). close_returned pc)
         \<and> (sv_phase t = NotServing \<or> sv_phase t = Returned \<and> list_all cr_over (sv_conns t)
            \<or> sv_phase t = WaitingConns \<and> \<not> list_all cr_over (sv_conns t)))"
proof -
  have i: "sv_inv s0 h0 s" by (rule serving.inv_steps [OF assms(3) sv_inv_init [OF assms(1,2)]])
  have "Close s0 h0 = (sv_server t, sv_host t) \<and> (\<forall>pc\<in>set (sv_calls t). close_returned pc)
      \<and> (sv_phase t = NotServing \<or> sv_phase t = Returned \<and> list_all cr_over (sv_conns t)
         \<or> sv_phase t = WaitingConns \<and> \<not> list_all cr_over (sv_conns t))"
    if "sv_work\<^sup>*\<^sup>* s t" "\<nexists>u. sv_work t u" "asked_to_close t" for t
  proof -
    have t: "sv_inv s0 h0 t" by (rule ending.work_inv [OF i that(1)])
    then have "sv_wg t = 0 \<longleftrightarrow> list_all cr_over (sv_conns t)" "sv_phase t = Returned \<longrightarrow> sv_wg t = 0"
      using wg_zero [of t] t unfolding sv_inv_def by (blast, simp add: serves_inv_def)
    with serve_at_rest [OF t that(2,3)] show ?thesis by auto
  qed
  moreover have "n \<le> sv_rank s" if "(sv_work ^^ n) s t" for n t
    using ending.work_bounded [OF that i] by linarith
  ultimately show ?thesis using ending.work_rests [OF i] by blast
qed

text \<open>
  (C26) Any number of goroutines may close an inbox at once, as happens when a context ends while
  its owner closes the inbox too. At every moment the host is what some number of the removals of
  one \<open>Close\<close> make of it, none while the server is open; at most one call does the closing; when
  that call returns, the server and the host are those of a \<open>Close\<close> run alone; a call that came
  too late has found the server marked as closed, which is all it knows; and \<open>Serve\<close> returns only
  from a closed server.
\<close>

theorem closes_refine_close:
  assumes "\<not> closed s0" "listening s0" "sv_step\<^sup>*\<^sup>* (sv_init s0 h0) s"
  shows "(\<exists>k\<le>3. sv_host s = closing_steps k s0 h0) \<and> (\<not> closed (sv_server s) \<longrightarrow> sv_host s = h0)
    \<and> length (filter (\<lambda>pc. \<not> idle_call pc) (sv_calls s)) \<le> 1
    \<and> (CloseReturned True \<in> set (sv_calls s) \<longrightarrow> Close s0 h0 = (sv_server s, sv_host s))
    \<and> (CloseReturned False \<in> set (sv_calls s) \<longrightarrow> closed (sv_server s))
    \<and> (sv_phase s = Returned \<longrightarrow> closed (sv_server s))"
proof -
  have i: "sv_inv s0 h0 s" by (rule serving.inv_steps [OF assms(3) sv_inv_init [OF assms(1,2)]])
  then have "closes_inv s0 h0 s" by (simp add: sv_inv_def)
  note c = closes_inv_facts [OF this assms(1)]
  have "closed (sv_server s)" if "sv_phase s = Returned"
    using that i by (simp add: sv_inv_def serves_inv_def)
  then show ?thesis using c by blast
qed

lemma served_authed:
  assumes "served_by s0 evs" "ev \<in> set evs" "delivered ev = Some (q, f)" "RequireAuth (cfg s0)"
  shows "Authed q"
proof -
  obtain srv h cred now conn where e: "ev \<in> set (handleConn srv h cred now conn)" "RequireAuth (cfg srv)"
    using assms(1,2,4) by (auto simp: served_by_def)
  show ?thesis
    by (rule handleConn_cases [OF e(1) assms(3)]) (use handle_loop_delivered(2) [OF _ _ assms(3) e(2)] in blast)
qed

text \<open>
  (C2) What the handlers of an inbox are called with, over its whole life and with any number of
  connections at once. Every call is made for a connection that was accepted, leaving aside the
  reports of a failed accept, which \<open>sv_reported\<close> counts; the calls made for one connection, however they are interleaved with those for others, are the first events of a
  run of \<open>handleConn\<close> on it, in order, each once; with \<open>RequireAuth\<close> every frame among them is from
  an authenticated peer; and when \<open>Serve\<close> has returned, every connection has had all its events,
  and no handler is called any more.
\<close>

theorem inbox_calls_handlers:
  assumes "\<not> closed s0" "listening s0" "sv_step\<^sup>*\<^sup>* (sv_init s0 h0) s"
  shows "(\<forall>x\<in>set (sv_log s). fst x < length (sv_conns s)
        \<and> (RequireAuth (cfg s0) \<longrightarrow> (\<forall>q f. delivered (snd x) = Some (q, f) \<longrightarrow> Authed q)))
    \<and> (\<forall>i<length (sv_conns s). served_by s0 (cr_events (sv_conns s ! i))
        \<and> (\<exists>later. cr_events (sv_conns s ! i) = calls_of i (sv_log s) @ later))
    \<and> (sv_phase s = Returned \<longrightarrow>
        (\<forall>i<length (sv_conns s). calls_of i (sv_log s) = cr_events (sv_conns s ! i))
        \<and> (\<forall>t. sv_step\<^sup>*\<^sup>* s t \<longrightarrow> sv_conns t = sv_conns s \<and> sv_log t = sv_log s))"
proof -
  have i: "sv_inv s0 h0 s" by (rule serving.inv_steps [OF assms(3) sv_inv_init [OF assms(1,2)]])
  have "calls_inv s0 (sv_init s0 h0)" by (simp add: calls_inv_def sv_init_def)
  then have c: "calls_inv s0 s" by (rule calling.inv_steps [OF assms(3)])
  have ok: "conn_ok s0 (sv_log s) i (sv_conns s ! i)" if "i < length (sv_conns s)" for i
    using c that by (simp add: calls_inv_def)
  have "\<exists>later. cr_events (sv_conns s ! i) = calls_of i (sv_log s) @ later" if "i < length (sv_conns s)" for i
    using ok [OF that] by (metis append_take_drop_id conn_ok_def)
  moreover have "Authed q" if "x \<in> set (sv_log s)" "RequireAuth (cfg s0)" "delivered (snd x) = Some (q, f)" for x q f
  proof -
    have l: "fst x < length (sv_conns s)" using c that(1) by (simp add: calls_inv_def)
    have "snd x \<in> set (calls_of (fst x) (sv_log s))" using that(1) by (force simp: calls_of_def)
    then have "snd x \<in> set (cr_events (sv_conns s ! fst x))" using ok [OF l] by (auto simp: conn_ok_def dest: in_set_takeD)
    moreover have "served_by s0 (cr_events (sv_conns s ! fst x))" using ok [OF l] by (simp add: conn_ok_def)
    ultimately show ?thesis using served_authed [OF _ _ that(3,2)] by blast
  qed
  moreover have "calls_of i (sv_log s) = cr_events (sv_conns s ! i)" if "sv_phase s = Returned" "i < length (sv_conns s)" for i
  proof -
    have "list_all cr_over (sv_conns s)" by (rule all_over [OF i that(1)])
    then show ?thesis using ok [OF that(2)] that(2) by (simp add: conn_ok_def list_all_length)
  qed
  moreover have "sv_conns t = sv_conns s \<and> sv_log t = sv_log s" if "sv_phase s = Returned" "sv_step\<^sup>*\<^sup>* s t" for t
    using serving.final_steps [OF that(2) i that(1)] by simp
  moreover have "\<forall>x\<in>set (sv_log s). fst x < length (sv_conns s)" using c by (simp add: calls_inv_def)
  moreover have "served_by s0 (cr_events (sv_conns s ! i))" if "i < length (sv_conns s)" for i
    using ok [OF that] by (simp add: conn_ok_def)
  ultimately show ?thesis by blast
qed

subsection \<open>Concrete runs\<close>

lemma asked_step: "sv_step s t \<Longrightarrow> asked_to_close s \<Longrightarrow> asked_to_close t"
  by (auto elim!: sv_stepE sv_workE simp: asked_to_close_def sv_ops split: if_splits)

lemma asked_steps: "sv_step\<^sup>*\<^sup>* s t \<Longrightarrow> asked_to_close s \<Longrightarrow> asked_to_close t"
  by (induction rule: rtranclp_induct) (auto intro: asked_step)

text \<open>The context of a serving inbox ends.\<close>

theorem serve_shuts_down_witness:
  "\<exists>t. sv_step\<^sup>*\<^sup>* (sv_init sample_server idle_host) t \<and> Close sample_server idle_host = (sv_server t, sv_host t)
     \<and> sv_phase t \<noteq> Accepting"
proof -
  let ?runa = "sv_init sample_server idle_host"
  let ?runb = "start_serve ?runa"
  let ?ended = "context_ends ?runb"
  have s: "\<not> closed sample_server" "listening sample_server" by (simp_all add: sample_server_def)
  have "sv_step ?runa ?runb" by (rule sv_step.start) (simp add: sv_init_def)
  then have r: "sv_step\<^sup>*\<^sup>* ?runa ?ended"
    using sv_step.cancel by (metis (no_types) r_into_rtranclp rtranclp.rtrancl_into_rtrancl)
  obtain t where t: "sv_work\<^sup>*\<^sup>* ?ended t" "\<nexists>u. sv_work t u" using serve_shuts_down [OF s r] by blast
  note st = ending.work_steps [OF t(1)]
  have "asked_to_close ?ended" by (simp add: asked_to_close_def sv_ops)
  then have "asked_to_close t" by (rule asked_steps [OF st])
  with serve_shuts_down [OF s r] t have "Close sample_server idle_host = (sv_server t, sv_host t)" "sv_phase t \<noteq> Accepting"
    by (metis serve_phase.distinct(1,7,9))+
  moreover have "sv_step\<^sup>*\<^sup>* ?runa t" using r st by (rule rtranclp_trans)
  ultimately show ?thesis by blast
qed

text \<open>
  Two goroutines close an inbox, and the call that came too late has returned before anything is
  removed.
\<close>

theorem closes_refine_close_witness:
  "\<exists>s. sv_step\<^sup>*\<^sup>* (sv_init sample_server idle_host) s \<and> CloseReturned False \<in> set (sv_calls s)
     \<and> closed (sv_server s) \<and> sv_host s = idle_host"
proof -
  let ?runa = "sv_init sample_server idle_host"
  let ?runb = "call_Close ?runa" let ?runc = "call_Close ?runb"
  let ?rund = "close_turn 0 ?runc" let ?rune = "close_turn 1 ?rund"
  have s: "\<not> closed sample_server" "listening sample_server" by (simp_all add: sample_server_def)
  have calls: "sv_calls ?runc = [CloseCalled, CloseCalled]" by (simp add: sv_init_def call_Close_def)
  then have c: "sv_calls ?rund = [CloseMarked, CloseCalled]" "closed (sv_server ?rund)" "sv_host ?rund = idle_host"
    using s by (simp_all add: close_turn_def Let_def sv_init_def call_Close_def)
  have "sv_step ?runc ?rund" by (rule own, rule sv_work.close) (simp_all add: calls close_returned_def)
  moreover have "sv_step ?rund ?rune" by (rule own, rule sv_work.close) (simp_all add: c close_returned_def)
  ultimately have "sv_step\<^sup>*\<^sup>* ?runc ?rune" by (rule converse_rtranclp_into_rtranclp [OF _ r_into_rtranclp])
  then have r: "sv_step\<^sup>*\<^sup>* ?runa ?rune"
    using sv_step.call by (metis (no_types) converse_rtranclp_into_rtranclp)
  have f: "CloseReturned False \<in> set (sv_calls ?rune)" "sv_host ?rune = idle_host"
    using c by (simp_all add: close_turn_def Let_def)
  then have "closed (sv_server ?rune)" using closes_refine_close [OF s r] by blast
  then show ?thesis using r f by blast
qed

text \<open>
  A connection to the sample inbox that sends an \<open>auth\<close> line and one message, accepted and heard to
  its end.
\<close>

theorem inbox_calls_handlers_witness:
  "\<exists>s. sv_step\<^sup>*\<^sup>* (sv_init sample_server idle_host) s \<and> sv_log s \<noteq> []
     \<and> (\<exists>later. cr_events (sv_conns s ! 0) = calls_of 0 (sv_log s) @ later)"
proof -
  let ?init = "sv_init sample_server idle_host"
  let ?on = "start_serve ?init"
  let ?conn = "serve_accept (LinuxCred 5 1000 1000) 0 sample_conn ?on"
  let ?heard = "conn_turn 0 ?conn"
  have s: "\<not> closed sample_server" "listening sample_server" by (simp_all add: sample_server_def)
  have c: "sv_conns ?conn = [\<lparr>cr_events = handleConn sample_server idle_host (LinuxCred 5 1000 1000) 0 sample_conn,
      cr_made = 0, cr_over = False\<rparr>]" "sv_log ?conn = []"
    by (simp_all add: serve_accept_def start_serve_def sv_init_def)
  have "sv_step ?init ?on" by (rule sv_step.start) (simp add: sv_init_def)
  moreover have "sv_step ?on ?conn"
    by (rule sv_step.accept) (use s in \<open>simp_all add: start_serve_def sv_init_def\<close>)
  moreover have "sv_step ?conn ?heard" by (rule sv_step.conn) (simp_all add: c)
  ultimately have r: "sv_step\<^sup>*\<^sup>* ?init ?heard"
    by (metis (no_types, lifting) r_into_rtranclp rtranclp.rtrancl_into_rtrancl)
  have l: "sv_log ?heard \<noteq> []" "length (sv_conns ?heard) = 1"
    using c by (simp_all add: conn_turn_def Let_def sample_run)
  then have "0 < length (sv_conns ?heard)" by simp
  with inbox_calls_handlers [OF s r] have "\<exists>later. cr_events (sv_conns ?heard ! 0) = calls_of 0 (sv_log ?heard) @ later" by blast
  then show ?thesis using r l by blast
qed

end
