(* ===== verification/Go_Time.thy ===== *)
theory Go_Time
  imports Go_Text
begin

text \<open>
  The two operations on \<open>time.Duration\<close> that the commands use: \<open>ParseDuration\<close>, which reads a
  flag, and \<open>String\<close>, which prints the timeout into messages. A duration is its number of
  nanoseconds. Fractions are read with 64-bit floating point, so its roundings are written out.
\<close>

subsection \<open>Printing\<close>

text \<open>\<open>fmtFrac\<close>: the last \<open>prec\<close> digits as a fraction without trailing zeros, in front of \<open>buf\<close>.\<close>

fun frac_loop :: "nat \<Rightarrow> bool \<Rightarrow> nat \<Rightarrow> gostring \<Rightarrow> bool \<times> nat \<times> gostring" where
  "frac_loop 0 pr v buf = (pr, v, buf)"
| "frac_loop (Suc i) pr v buf =
     (let pr' = (pr \<or> v mod 10 \<noteq> 0) in
      frac_loop i pr' (v div 10) (if pr' then byte_char (48 + v mod 10) # buf else buf))"

definition fmtFrac :: "gostring \<Rightarrow> nat \<Rightarrow> nat \<Rightarrow> gostring \<times> nat" where
  "fmtFrac buf v prec =
     (case frac_loop prec False v buf of (pr, v', b) \<Rightarrow> (if pr then CHR ''.'' # b else b, v'))"

definition micro_s :: gostring where "micro_s = [byte_char 0xC2, byte_char 0xB5, CHR ''s'']"

definition small_string :: "nat \<Rightarrow> gostring" where
  "small_string u =
     (if u = 0 then ''0s''
      else case (if u < 1000 then fmtFrac ''ns'' u 0
                 else if u < 1000000 then fmtFrac micro_s u 3
                 else fmtFrac ''ms'' u 6) of (b, v) \<Rightarrow> nat_dec v @ b)"

definition long_string :: "nat \<Rightarrow> gostring" where
  "long_string u =
     (case fmtFrac ''s'' u 9 of
        (b, v) \<Rightarrow>
          let secs = nat_dec (v mod 60) @ b; m = v div 60 in
          if m = 0 then secs
          else let mins = nat_dec (m mod 60) @ ''m'' @ secs; hr = m div 60 in
               if hr = 0 then mins else nat_dec hr @ ''h'' @ mins)"

definition durationString :: "int \<Rightarrow> gostring" where
  "durationString d =
     (let u = nat \<bar>d\<bar>; s = (if u < 1000000000 then small_string u else long_string u)
      in if d < 0 then CHR ''-'' # s else s)"

subsection \<open>Floating point\<close>

text \<open>
  A positive floating-point number is a significand and a power of two. \<open>round53\<close> rounds to 53
  bits, ties to even.
\<close>

fun bit_length :: "nat \<Rightarrow> nat" where
  "bit_length n = (if n = 0 then 0 else Suc (bit_length (n div 2)))"

declare bit_length.simps [simp del]

definition round53 :: "nat \<times> int \<Rightarrow> nat \<times> int" where
  "round53 x =
     (case x of (m, e) \<Rightarrow>
        let k = bit_length m - 53; q = m div 2 ^ k; r = m mod 2 ^ k in
        if k = 0 then (m, e)
        else if 2 ^ (k - 1) < r \<or> r = 2 ^ (k - 1) \<and> odd q then (q + 1, e + int k) else (q, e + int k))"

text \<open>
  The quotient of two integers: more bits than are kept, and a last bit that tells whether
  anything was left over.
\<close>

definition float_div :: "nat \<Rightarrow> nat \<Rightarrow> nat \<times> int" where
  "float_div a b =
     (let k = 64 + bit_length b; q = a * 2 ^ k div b; r = a * 2 ^ k mod b
      in round53 (2 * q + (if r = 0 then 0 else 1), - int (k + 1)))"

definition float_mult :: "nat \<times> int \<Rightarrow> nat \<times> int \<Rightarrow> nat \<times> int" where
  "float_mult x y = round53 (fst x * fst y, snd x + snd y)"

definition float_trunc :: "nat \<times> int \<Rightarrow> nat" where
  "float_trunc x = (if 0 \<le> snd x then fst x * 2 ^ nat (snd x) else fst x div 2 ^ nat (- snd x))"

text \<open>\<open>uint64(float64(f) * (float64(unit) / scale))\<close>\<close>

definition frac_part :: "nat \<Rightarrow> nat \<Rightarrow> nat \<Rightarrow> nat" where
  "frac_part f unit scale = float_trunc (float_mult (round53 (f, 0)) (float_div unit scale))"

subsection \<open>Reading\<close>

definition unit_ns :: "gostring \<Rightarrow> nat option" where
  "unit_ns u =
     (if u = ''ns'' then Some 1
      else if u = ''us'' \<or> u = micro_s \<or> u = [byte_char 0xCE, byte_char 0xBC, CHR ''s''] then Some 1000
      else if u = ''ms'' then Some 1000000
      else if u = ''s'' then Some 1000000000
      else if u = ''m'' then Some 60000000000
      else if u = ''h'' then Some 3600000000000
      else None)"

fun leadingInt :: "nat \<Rightarrow> gostring \<Rightarrow> (nat \<times> gostring) option" where
  "leadingInt x [] = Some (x, [])"
| "leadingInt x (c # s) =
     (if \<not> is_digit c then Some (x, c # s)
      else if 2 ^ 63 div 10 < x then None
      else let x' = x * 10 + (bv c - 48) in if 2 ^ 63 < x' then None else leadingInt x' s)"

fun leadingFraction :: "bool \<Rightarrow> nat \<Rightarrow> nat \<Rightarrow> gostring \<Rightarrow> nat \<times> nat \<times> gostring" where
  "leadingFraction overflow x scale [] = (x, scale, [])"
| "leadingFraction overflow x scale (c # s) =
     (if \<not> is_digit c then (x, scale, c # s)
      else if overflow \<or> (2 ^ 63 - 1) div 10 < x then leadingFraction True x scale s
      else let y = x * 10 + (bv c - 48) in
           if 2 ^ 63 < y then leadingFraction True x scale s else leadingFraction False y (scale * 10) s)"

definition unit_char :: "char \<Rightarrow> bool" where
  "unit_char c \<longleftrightarrow> c \<noteq> CHR ''.'' \<and> \<not> is_digit c"

text \<open>The fraction, if there is one, and whether it has a digit.\<close>

definition fraction :: "gostring \<Rightarrow> bool \<times> nat \<times> nat \<times> gostring" where
  "fraction s =
     (case s of
        [] \<Rightarrow> (False, 0, 1, [])
      | c # r \<Rightarrow>
          if c = CHR ''.''
          then (case leadingFraction False 0 1 r of (f, scale, t) \<Rightarrow> (length t \<noteq> length r, f, scale, t))
          else (False, 0, 1, s))"

text \<open>One number with its unit: its nanoseconds and the rest of the text.\<close>

definition parse_piece :: "gostring \<Rightarrow> (nat \<times> gostring) option" where
  "parse_piece s =
     (if s = [] \<or> (hd s \<noteq> CHR ''.'' \<and> \<not> is_digit (hd s)) then None
      else case leadingInt 0 s of
             None \<Rightarrow> None
           | Some (v, s1) \<Rightarrow>
               (case fraction s1 of
                  (post, f, scale, s2) \<Rightarrow>
                    if length s1 = length s \<and> \<not> post then None
                    else case unit_ns (takeWhile unit_char s2) of
                           None \<Rightarrow> None
                         | Some unit \<Rightarrow>
                             if 2 ^ 63 div unit < v then None
                             else let w = v * unit + (if 0 < f then frac_part f unit scale else 0) in
                                  if 0 < f \<and> 2 ^ 63 < w then None else Some (w, dropWhile unit_char s2)))"

lemma leadingInt_length: "leadingInt x s = Some (v, t) \<Longrightarrow> length t \<le> length s"
  by (induction x s rule: leadingInt.induct) (auto simp: Let_def split: if_splits)

lemma leadingFraction_length: "length (snd (snd (leadingFraction ov x sc s))) \<le> length s"
proof (induction s arbitrary: ov x sc)
  case (Cons c s)
  show ?case using Cons [of True x sc] Cons [of False "x * 10 + (bv c - 48)" "sc * 10"] by (simp add: Let_def)
qed simp

lemma fraction_length: "fraction s = (post, f, scale, t) \<Longrightarrow> length t \<le> length s"
  using leadingFraction_length [of False 0 1 "tl s"]
  by (auto simp: fraction_def split: list.splits if_splits prod.splits)

lemma unit_ns_nonempty: "unit_ns u = Some n \<Longrightarrow> u \<noteq> []"
  by (auto simp: unit_ns_def micro_s_def)

lemma parse_piece_length:
  assumes "parse_piece s = Some (w, t)"
  shows "length t < length s"
proof -
  obtain v s1 post f sc s2 n where s: "leadingInt 0 s = Some (v, s1)" "fraction s1 = (post, f, sc, s2)"
    "unit_ns (takeWhile unit_char s2) = Some n" "t = dropWhile unit_char s2"
    using assms by (auto simp: parse_piece_def Let_def split: option.splits if_splits prod.splits)
  have "length s2 = length (takeWhile unit_char s2) + length t"
    unfolding s(4) by (simp flip: length_append)
  then have "length t < length s2" using unit_ns_nonempty [OF s(3)] by simp
  then show ?thesis using fraction_length [OF s(2)] leadingInt_length [OF s(1)] by simp
qed

text \<open>The sum is a \<open>uint64\<close>.\<close>

function parse_units :: "nat \<Rightarrow> gostring \<Rightarrow> nat option" where
  "parse_units d s =
     (if s = [] then Some d
      else case parse_piece s of
             None \<Rightarrow> None
           | Some (w, t) \<Rightarrow>
               let d' = (d + w) mod 2 ^ 64 in if 2 ^ 63 < d' then None else parse_units d' t)"
  by pat_completeness auto
termination
  by (relation "measure (\<lambda>(_, s). length s)") (auto dest: parse_piece_length)

declare parse_units.simps [simp del]

definition ParseDuration :: "gostring \<Rightarrow> int option" where
  "ParseDuration s =
     (let (neg, t) = (case s of
            c # r \<Rightarrow> if c = CHR ''-'' \<or> c = CHR ''+'' then (c = CHR ''-'', r) else (False, s)
          | [] \<Rightarrow> (False, s))
      in if t = ''0'' then Some 0
         else if t = [] then None
         else case parse_units 0 t of
                None \<Rightarrow> None
              | Some d \<Rightarrow> if neg then Some (- int d) else if 2 ^ 63 - 1 < d then None else Some (int d))"

subsection \<open>What is printed is read back\<close>

lemma digits_val_snoc: "digits_val (ds @ [c]) = 10 * digits_val ds + (bv c - 48)"
  by (simp add: digits_val_def)

lemma digit_val_le: "is_digit c \<Longrightarrow> bv c - 48 \<le> 9"
  unfolding is_digit_def by arith

lemma le_mult_nat_pos: "0 < k \<Longrightarrow> n \<le> n * k" for n k :: nat
  by simp

lemma digit_step_bound: "d \<le> 9 \<Longrightarrow> (10 * x + d + 1) * p \<le> (x + 1) * (10 * p)" for x d p :: nat
  using mult_le_mono1 [of "10 * x + d + 1" "(x + 1) * 10" p] by (simp only: mult.assoc) simp

lemma foldl_digits_grow: "y \<le> foldl (\<lambda>a c. 10 * a + (bv c - 48)) y es" for y :: nat
proof (induction es arbitrary: y)
  case (Cons e es)
  have "y \<le> 10 * y + (bv e - 48)" by simp
  also have "\<dots> \<le> foldl (\<lambda>a c. 10 * a + (bv c - 48)) (10 * y + (bv e - 48)) es" by (rule Cons)
  finally show ?case by simp
qed simp

lemma leadingInt_digits:
  assumes "list_all is_digit ds" "foldl (\<lambda>a c. 10 * a + (bv c - 48)) x ds \<le> 2 ^ 63" "t = [] \<or> \<not> is_digit (hd t)"
  shows "leadingInt x (ds @ t) = Some (foldl (\<lambda>a c. 10 * a + (bv c - 48)) x ds, t)"
  using assms(1,2)
proof (induction ds arbitrary: x)
  case Nil
  then show ?case using assms(3) by (cases t) simp_all
next
  case (Cons c ds)
  let ?f = "\<lambda>a c. 10 * a + (bv c - 48)"
  have "10 * x + (bv c - 48) \<le> 2 ^ 63" using foldl_digits_grow [of "?f x c" ds] Cons.prems(2) by simp
  then show ?case using Cons by (simp add: Let_def mult.commute)
qed

lemma leadingInt_nat_dec:
  assumes "n \<le> 2 ^ 63" "t = [] \<or> \<not> is_digit (hd t)"
  shows "leadingInt 0 (nat_dec n @ t) = Some (n, t)"
  using leadingInt_digits [OF nat_dec_digits [of n], of 0 t] assms digits_val_nat_dec [of n]
  by (simp add: digits_val_def)

lemma foldl_digits_bound:
  "list_all is_digit ds \<Longrightarrow> foldl (\<lambda>a c. 10 * a + (bv c - 48)) x ds < (x + 1) * 10 ^ length ds"
proof (induction ds arbitrary: x)
  case (Cons c ds)
  have "bv c - 48 \<le> 9" using Cons.prems digit_val_le by simp
  then have "(10 * x + (bv c - 48) + 1) * 10 ^ length ds \<le> (x + 1) * 10 ^ length (c # ds)"
    using digit_step_bound by simp
  then show ?case using Cons.IH [of "10 * x + (bv c - 48)"] Cons.prems by simp
qed simp

lemma leadingFraction_digits:
  assumes "list_all is_digit ds" "t = [] \<or> \<not> is_digit (hd t)" "(x + 1) * 10 ^ length ds \<le> 10 ^ 18"
  shows "leadingFraction False x sc (ds @ t) = (foldl (\<lambda>a c. 10 * a + (bv c - 48)) x ds, sc * 10 ^ length ds, t)"
  using assms(1,3)
proof (induction ds arbitrary: x sc)
  case Nil
  then show ?case using assms(2) by (cases t) simp_all
next
  case (Cons c ds)
  have d: "bv c - 48 \<le> 9" using Cons.prems digit_val_le by simp
  have "(10 * x + (bv c - 48) + 1) * 10 ^ length ds \<le> (x + 1) * 10 ^ length (c # ds)"
    using digit_step_bound [OF d] by simp
  then have b: "(10 * x + (bv c - 48) + 1) * 10 ^ length ds \<le> 10 ^ 18" using Cons.prems(2) by simp
  have "10 * x + (bv c - 48) + 1 \<le> (10 * x + (bv c - 48) + 1) * 10 ^ length ds" by (rule le_mult_nat_pos) simp
  then have "10 * x + (bv c - 48) + 1 \<le> 10 ^ 18" using b by linarith
  then show ?case using Cons.IH [OF _ b] Cons.prems by (simp add: Let_def mult.commute)
qed

text \<open>The text of a fraction \<open>r\<close> of \<open>10 ^ prec\<close> in front of \<open>b0\<close>.\<close>

definition is_frac :: "gostring \<Rightarrow> gostring \<Rightarrow> nat \<Rightarrow> nat \<Rightarrow> bool" where
  "is_frac b0 b r prec \<longleftrightarrow>
     r = 0 \<and> b = b0
     \<or> (\<exists>ds. b = CHR ''.'' # ds @ b0 \<and> list_all is_digit ds \<and> ds \<noteq> [] \<and> length ds \<le> prec \<and> 0 < r
         \<and> digits_val ds * 10 ^ (prec - length ds) = r)"

lemma mod_ten_power: "v div 10 mod 10 ^ i * 10 + v mod 10 = v mod 10 ^ Suc i" for v :: nat
  by (simp add: mod_mult2_eq)

lemma frac_loop_True:
  "\<exists>es. frac_loop i True v b = (True, v div 10 ^ i, es @ b) \<and> length es = i \<and> list_all is_digit es
     \<and> digits_val es = v mod 10 ^ i"
proof (induction i arbitrary: v b)
  case 0
  then show ?case by (simp add: digits_val_def)
next
  case (Suc i)
  obtain es where es: "frac_loop i True (v div 10) (byte_char (48 + v mod 10) # b)
      = (True, v div 10 div 10 ^ i, es @ byte_char (48 + v mod 10) # b)"
    "length es = i" "list_all is_digit es" "digits_val es = v div 10 mod 10 ^ i" using Suc by blast
  let ?es = "es @ [byte_char (48 + v mod 10)]"
  have "digits_val ?es = v mod 10 ^ Suc i"
    using es(4) mod_ten_power [of v i] by (simp add: digits_val_snoc)
  moreover have "frac_loop (Suc i) True v b = (True, v div 10 ^ Suc i, ?es @ b)"
    using es(1) by (simp add: div_mult2_eq)
  ultimately show ?case using es(2,3) by (intro exI [of _ ?es]) simp
qed

lemma frac_loop_False:
  "frac_loop i False v b = (False, v div 10 ^ i, b) \<and> v mod 10 ^ i = 0
   \<or> (\<exists>es. frac_loop i False v b = (True, v div 10 ^ i, es @ b) \<and> es \<noteq> [] \<and> length es \<le> i \<and> list_all is_digit es
       \<and> 0 < v mod 10 ^ i \<and> digits_val es * 10 ^ (i - length es) = v mod 10 ^ i)"
proof (induction i arbitrary: v)
  case (Suc i)
  note m = mod_ten_power [of v i]
  show ?case
  proof (cases "v mod 10 = 0")
    case True
    then have l: "frac_loop (Suc i) False v b = frac_loop i False (v div 10) b" by simp
    show ?thesis
      using Suc [of "v div 10"]
    proof (elim disjE exE conjE)
      assume "frac_loop i False (v div 10) b = (False, v div 10 div 10 ^ i, b)" "v div 10 mod 10 ^ i = 0"
      then show ?thesis using l m True by (simp add: div_mult2_eq)
    next
      fix es assume e: "frac_loop i False (v div 10) b = (True, v div 10 div 10 ^ i, es @ b)" "es \<noteq> []" "length es \<le> i"
        "list_all is_digit es" "0 < v div 10 mod 10 ^ i" "digits_val es * 10 ^ (i - length es) = v div 10 mod 10 ^ i"
      have "Suc i - length es = Suc (i - length es)" using e(3) by simp
      then have "digits_val es * 10 ^ (Suc i - length es) = v mod 10 ^ Suc i" using e(6) m True by simp
      then show ?thesis using e l m True by (intro disjI2 exI [of _ es]) (simp add: div_mult2_eq)
    qed
  next
    case False
    obtain es where es: "frac_loop i True (v div 10) (byte_char (48 + v mod 10) # b)
        = (True, v div 10 div 10 ^ i, es @ byte_char (48 + v mod 10) # b)"
      "length es = i" "list_all is_digit es" "digits_val es = v div 10 mod 10 ^ i" using frac_loop_True by blast
    let ?es = "es @ [byte_char (48 + v mod 10)]"
    have "digits_val ?es = v mod 10 ^ Suc i" using es(4) m by (simp add: digits_val_snoc)
    moreover have "0 < v mod 10 ^ Suc i" using m False by simp
    ultimately show ?thesis
      using es False by (intro disjI2 exI [of _ ?es]) (simp add: div_mult2_eq)
  qed
qed simp

lemma fmtFrac_spec:
  assumes "fmtFrac b0 u prec = (b, v)"
  shows "v = u div 10 ^ prec" "is_frac b0 b (u mod 10 ^ prec) prec"
  using frac_loop_False [of prec u b0] assms by (auto simp: fmtFrac_def is_frac_def)

text \<open>A floating-point number that is the integer \<open>x\<close>. Below \<open>2 ^ 53\<close> nothing is rounded.\<close>

definition is_int :: "nat \<times> int \<Rightarrow> nat \<Rightarrow> bool" where
  "is_int y x \<longleftrightarrow> (\<exists>j. fst y = x * 2 ^ j \<and> snd y = - int j)"

lemma bit_length_bound: "x < 2 ^ k \<Longrightarrow> bit_length x \<le> k"
proof (induction x arbitrary: k rule: bit_length.induct)
  case (1 x)
  show ?case
  proof (cases "x = 0")
    case False
    then obtain k' where k: "k = Suc k'" using 1(2) by (cases k) auto
    have "x div 2 < 2 ^ k'" using 1(2) k by (simp add: less_mult_imp_div_less mult.commute)
    then have "bit_length (x div 2) \<le> k'" using 1(1) False by blast
    then show ?thesis using False k by (subst bit_length.simps) simp
  qed (simp add: bit_length.simps)
qed

lemma round53_exact:
  assumes "is_int y x" "x < 2 ^ 53"
  shows "is_int (round53 y) x"
proof -
  obtain j where y: "y = (x * 2 ^ j, - int j)" using assms(1) by (cases y) (auto simp: is_int_def)
  let ?k = "bit_length (x * 2 ^ j) - 53"
  have "x * 2 ^ j < 2 ^ (53 + j)" using assms(2) by (simp add: power_add)
  then have k: "?k \<le> j" using bit_length_bound [of "x * 2 ^ j" "53 + j"] by simp
  have m: "x * 2 ^ j = x * 2 ^ (j - ?k) * 2 ^ ?k" using k by (simp flip: power_add)
  then have "x * 2 ^ j div 2 ^ ?k = x * 2 ^ (j - ?k)" "x * 2 ^ j mod 2 ^ ?k = 0"
    by (metis div_mult_self_is_m zero_less_numeral zero_less_power) (metis m mod_mult_self2_is_0)
  then have "round53 y = (x * 2 ^ (j - ?k), - int (j - ?k))"
    using k by (simp add: y round53_def Let_def of_nat_diff)
  then show ?thesis unfolding is_int_def by (metis fst_conv snd_conv)
qed

lemma float_div_exact:
  assumes "0 < b" "n < 2 ^ 53"
  shows "is_int (float_div (n * b) b) n"
proof -
  let ?k = "64 + bit_length b"
  have "n * b * 2 ^ ?k = n * 2 ^ ?k * b" by simp
  then have "n * b * 2 ^ ?k div b = n * 2 ^ ?k" "n * b * 2 ^ ?k mod b = 0" using assms(1) by simp_all
  moreover have "is_int (2 * (n * 2 ^ ?k), - int (?k + 1)) n"
    unfolding is_int_def by (rule exI [of _ "?k + 1"]) (simp only: fst_conv snd_conv power_add power_one_right mult_ac)
  ultimately show ?thesis
    using round53_exact [OF _ assms(2)] unfolding float_div_def by (simp only: Let_def) simp
qed

lemma float_mult_exact:
  assumes "is_int y a" "is_int z b" "a * b < 2 ^ 53"
  shows "is_int (float_mult y z) (a * b)"
proof -
  obtain i j where "fst y = a * 2 ^ i" "snd y = - int i" "fst z = b * 2 ^ j" "snd z = - int j"
    using assms(1,2) by (auto simp: is_int_def)
  then have "is_int (fst y * fst z, snd y + snd z) (a * b)"
    unfolding is_int_def by (intro exI [of _ "i + j"]) (simp add: power_add)
  then show ?thesis using round53_exact [OF _ assms(3)] by (simp add: float_mult_def)
qed

lemma float_trunc_exact: "is_int y x \<Longrightarrow> float_trunc y = x"
  by (auto simp: is_int_def float_trunc_def)

lemma frac_part_exact:
  assumes "0 < scale" "n < 2 ^ 53" "f < 2 ^ 53" "f * n < 2 ^ 53"
  shows "frac_part f (n * scale) scale = f * n"
proof -
  have "is_int (f, 0) f" unfolding is_int_def by (rule exI [of _ 0]) simp
  then have "is_int (round53 (f, 0)) f" using round53_exact assms(3) by blast
  then have "is_int (float_mult (round53 (f, 0)) (float_div (n * scale) scale)) (f * n)"
    using float_mult_exact float_div_exact assms by blast
  then show ?thesis using float_trunc_exact by (simp add: frac_part_def)
qed

text \<open>One printed piece.\<close>

lemma unit_text:
  assumes "unit_ns u = Some n" "t = [] \<or> \<not> unit_char (hd t)"
  shows "takeWhile unit_char (u @ t) = u" "dropWhile unit_char (u @ t) = t" "u \<noteq> []" "0 < n"
    "unit_char (hd (u @ t))"
proof -
  have u: "list_all unit_char u" "u \<noteq> []" "0 < n"
    using assms(1) by (auto simp: unit_ns_def micro_s_def unit_char_def is_digit_def byte_char_eq_iff split: if_splits)
  then show "u \<noteq> []" "0 < n" "unit_char (hd (u @ t))" by (auto simp: list_all_iff)
  have "takeWhile unit_char t = []" "dropWhile unit_char t = t" using assms(2) by (cases t; auto)+
  then show "takeWhile unit_char (u @ t) = u" "dropWhile unit_char (u @ t) = t"
    using u(1) by (simp_all add: takeWhile_append list_all_iff dropWhile_append)
qed

lemma parse_piece_whole:
  assumes "unit_ns u = Some n" "t = [] \<or> \<not> unit_char (hd t)" "v * n \<le> 2 ^ 63"
  shows "parse_piece (nat_dec v @ u @ t) = Some (v * n, t)"
proof -
  note ut = unit_text [OF assms(1,2)]
  have v: "v \<le> 2 ^ 63 div n" using assms(3) ut(4) by (simp add: less_eq_div_iff_mult_less_eq)
  then have "v \<le> 2 ^ 63" by (meson div_le_dividend le_trans)
  moreover have h: "\<not> is_digit (hd (u @ t))" "hd (u @ t) \<noteq> CHR ''.''" "u @ t \<noteq> []" using ut(3,5) by (auto simp: unit_char_def)
  ultimately have l: "leadingInt 0 (nat_dec v @ u @ t) = Some (v, u @ t)" by (intro leadingInt_nat_dec) simp_all
  have "fraction (u @ t) = (False, 0, 1, u @ t)" using h(2,3) by (cases "u @ t") (auto simp: fraction_def)
  moreover have "length (nat_dec v) \<noteq> 0" by simp
  ultimately show ?thesis
    using l ut(1,2) assms(1) v hd_nat_dec [of v] by (simp add: parse_piece_def Let_def hd_append)
qed

lemma parse_piece_frac:
  assumes "unit_ns u = Some (10 ^ prec)" "prec \<le> 9" "t = [] \<or> \<not> unit_char (hd t)"
    and "v * 10 ^ prec + r \<le> 2 ^ 63" "is_frac (u @ t) b r prec" "r < 10 ^ prec"
  shows "parse_piece (nat_dec v @ b) = Some (v * 10 ^ prec + r, t)"
proof (cases "r = 0")
  case True
  then have "b = u @ t" using assms(5) by (auto simp: is_frac_def)
  then show ?thesis using parse_piece_whole [OF assms(1,3), of v] assms(4) True by simp
next
  case False
  then obtain ds where ds: "b = CHR ''.'' # ds @ u @ t" "list_all is_digit ds" "ds \<noteq> []" "length ds \<le> prec"
    "digits_val ds * 10 ^ (prec - length ds) = r" using assms(5) by (auto simp: is_frac_def)
  note ut = unit_text [OF assms(1,3)]
  let ?n = "10 ^ (prec - length ds) :: nat" and ?f = "digits_val ds"
  have v: "v \<le> 2 ^ 63 div 10 ^ prec" using assms(4) by (simp add: less_eq_div_iff_mult_less_eq)
  then have "v \<le> 2 ^ 63" by (meson div_le_dividend le_trans)
  then have l: "leadingInt 0 (nat_dec v @ b) = Some (v, b)" by (rule leadingInt_nat_dec) (simp add: ds(1) is_digit_def)
  have h: "u @ t = [] \<or> \<not> is_digit (hd (u @ t))" using ut(5) by (simp add: unit_char_def)
  have "(10 :: nat) ^ length ds \<le> 10 ^ 18" using ds(4) assms(2) by (intro power_increasing) auto
  then have "(0 + 1) * 10 ^ length ds \<le> (10 :: nat) ^ 18" by simp
  then have "leadingFraction False 0 1 (ds @ u @ t) = (?f, 10 ^ length ds, u @ t)"
    using leadingFraction_digits [OF ds(2) h] by (simp add: digits_val_def)
  then have fr: "fraction b = (True, ?f, 10 ^ length ds, u @ t)" using ds(3) by (simp add: fraction_def ds(1))
  have t9: "(10 :: nat) ^ k < 2 ^ 53" if "k \<le> 9" for k
    using power_increasing [OF that, of "10 :: nat"] by simp
  have "r < 2 ^ 53" using assms(2,6) t9 [of prec] by linarith
  moreover have "?f \<le> r" unfolding ds(5) [symmetric] by (rule le_mult_nat_pos) simp
  moreover have "?n < 2 ^ 53" using assms(2) by (intro t9) simp
  ultimately have "frac_part ?f (?n * 10 ^ length ds) (10 ^ length ds) = r"
    using ds(5) frac_part_exact [of "10 ^ length ds" ?n ?f] by simp
  moreover have "?n * 10 ^ length ds = 10 ^ prec" using ds(4) by (simp flip: power_add)
  ultimately have fp: "frac_part ?f (10 ^ prec) (10 ^ length ds) = r" by simp
  have "0 < ?f" using False ds(5) by (cases ?f) auto
  moreover have "length (nat_dec v) \<noteq> 0" by simp
  ultimately show ?thesis
    using l fr ut(1,2) assms(1,4) v fp hd_nat_dec [of v] by (simp add: parse_piece_def Let_def hd_append)
qed

text \<open>A whole text: its pieces are added up.\<close>

lemma parse_units_end [simp]: "parse_units d [] = Some d"
  by (subst parse_units.simps) simp

lemma parse_units_piece:
  assumes "parse_piece s = Some (w, t)" "d + w \<le> 2 ^ 63"
  shows "parse_units d s = parse_units (d + w) t"
proof -
  have "s \<noteq> []" using assms(1) by (auto simp: parse_piece_def)
  moreover have "(d + w) mod 2 ^ 64 = d + w" using assms(2) by simp
  ultimately show ?thesis using assms by (subst parse_units.simps) (simp add: Let_def)
qed

lemma nat_dec_stops_unit [simp]: "\<not> unit_char (hd (nat_dec n))"
  using hd_nat_dec [of n] by (simp add: unit_char_def)

lemma small_string_parses:
  assumes "u < 1000000000"
  shows "parse_units 0 (small_string u) = Some u"
proof -
  have piece: "parse_units 0 (nat_dec v @ b) = Some u"
    if "fmtFrac un u prec = (b, v)" "unit_ns un = Some (10 ^ prec)" "prec \<le> 9" for un prec b v
  proof -
    note f = fmtFrac_spec [OF that(1)]
    have u: "v * 10 ^ prec + u mod 10 ^ prec = u" unfolding f(1) by (rule div_mult_mod_eq)
    have "parse_piece (nat_dec v @ b) = Some (v * 10 ^ prec + u mod 10 ^ prec, [])"
      by (rule parse_piece_frac [OF that(2,3)]) (use f(2) assms in \<open>simp_all add: u\<close>)
    then show ?thesis using assms u by (simp add: parse_units_piece)
  qed
  have "parse_units 0 (nat_dec 0 @ ''s'' @ []) = Some 0"
    using parse_units_piece [of "nat_dec 0 @ ''s'' @ []" 0 "[]" 0] parse_piece_whole [of "''s''" 1000000000 "[]" 0]
    by (simp add: unit_ns_def micro_s_def)
  moreover have "nat_dec 0 = ''0''" by (subst nat_dec.simps) (simp add: byte_char_eq_iff)
  ultimately have zero: "parse_units 0 ''0s'' = Some 0" by simp
  obtain b v where ns: "fmtFrac ''ns'' u 0 = (b, v)" by fastforce
  obtain b' v' where us: "fmtFrac micro_s u 3 = (b', v')" by fastforce
  obtain b'' v'' where ms: "fmtFrac ''ms'' u 6 = (b'', v'')" by fastforce
  show ?thesis
    using zero piece [OF ns] piece [OF us] piece [OF ms] ns us ms
    by (simp add: small_string_def unit_ns_def micro_s_def)
qed

lemma long_string_parses:
  assumes "u \<le> 2 ^ 63"
  shows "parse_units 0 (long_string u) = Some u"
proof -
  obtain b v where f: "fmtFrac ''s'' u 9 = (b, v)" by fastforce
  note spec = fmtFrac_spec [OF f]
  define h m s r where "h = v div 60 div 60" "m = v div 60 mod 60" "s = v mod 60" "r = u mod 10 ^ 9"
  have "v div 60 = h * 60 + m" "v = v div 60 * 60 + s" by (simp_all add: h_m_s_r_def)
  then have v: "v = h * 3600 + m * 60 + s" by linarith
  have u: "u = v * 1000000000 + r" using spec(1) by (simp add: h_m_s_r_def div_mult_mod_eq)
  have tail: "parse_units d (nat_dec s @ b) = Some (d + s * 1000000000 + r)" if "d + s * 1000000000 + r \<le> 2 ^ 63" for d
  proof -
    have "parse_piece (nat_dec s @ b) = Some (s * 10 ^ 9 + r, [])"
      by (rule parse_piece_frac) (use spec(2) that in \<open>simp_all add: unit_ns_def micro_s_def h_m_s_r_def\<close>)
    then show ?thesis using that by (simp add: parse_units_piece)
  qed
  have mins: "parse_units d (nat_dec m @ ''m'' @ nat_dec s @ b) = Some (d + m * 60000000000 + s * 1000000000 + r)"
    if "d + m * 60000000000 + s * 1000000000 + r \<le> 2 ^ 63" for d
  proof -
    have "parse_piece (nat_dec m @ ''m'' @ nat_dec s @ b) = Some (m * 60000000000, nat_dec s @ b)"
      by (rule parse_piece_whole) (use that in \<open>simp_all add: unit_ns_def micro_s_def\<close>)
    then show ?thesis using that tail [of "d + m * 60000000000"] by (simp add: parse_units_piece)
  qed
  have hours: "parse_units 0 (nat_dec h @ ''h'' @ nat_dec m @ ''m'' @ nat_dec s @ b) = Some u"
  proof -
    have "parse_piece (nat_dec h @ ''h'' @ nat_dec m @ ''m'' @ nat_dec s @ b)
        = Some (h * 3600000000000, nat_dec m @ ''m'' @ nat_dec s @ b)"
      by (rule parse_piece_whole) (use u v assms in \<open>simp_all add: unit_ns_def micro_s_def\<close>)
    then show ?thesis using u v assms mins [of "h * 3600000000000"] by (simp add: parse_units_piece)
  qed
  have l: "long_string u =
      (if v div 60 = 0 then nat_dec s @ b else if h = 0 then nat_dec m @ ''m'' @ nat_dec s @ b
       else nat_dec h @ ''h'' @ nat_dec m @ ''m'' @ nat_dec s @ b)"
    by (simp add: long_string_def f Let_def h_m_s_r_def)
  have small: "m = 0" "h = 0" if "v div 60 = 0" using that by (simp_all add: h_m_s_r_def)
  have "u = s * 1000000000 + r" if "v div 60 = 0" using u v small [OF that] by simp
  then have t: "parse_units 0 (nat_dec s @ b) = Some u" if "v div 60 = 0" using tail [of 0] that assms by simp
  have "u = m * 60000000000 + s * 1000000000 + r" if "h = 0" using u v that by simp
  then have "parse_units 0 (nat_dec m @ ''m'' @ nat_dec s @ b) = Some u" if "h = 0" using mins [of 0] that assms by simp
  then show ?thesis using hours t unfolding l by presburger
qed

lemma durationString_digits:
  "is_digit (hd (small_string u))" "small_string u \<noteq> []" "is_digit (hd (long_string u))" "long_string u \<noteq> []"
proof -
  have d: "is_digit (hd (nat_dec n))" for n by (rule hd_nat_dec)
  show "is_digit (hd (small_string u))" "small_string u \<noteq> []"
    by (auto simp: small_string_def d is_digit_def [of "CHR ''0''"] split: prod.split)
  show "is_digit (hd (long_string u))" "long_string u \<noteq> []"
    by (auto simp: long_string_def Let_def d split: prod.split)
qed

lemma parse_bare_zero: "parse_units 0 ''0'' = None"
  by (subst parse_units.simps) (simp add: parse_piece_def fraction_def unit_ns_def micro_s_def is_digit_def)

text \<open>Every 64-bit duration is printed as a text that parses to the same duration.\<close>

theorem ParseDuration_String:
  assumes "int64 d"
  shows "ParseDuration (durationString d) = Some d"
proof -
  define u where "u = nat \<bar>d\<bar>"
  define t where "t = (if u < 1000000000 then small_string u else long_string u)"
  have "u \<le> 2 ^ 63" using assms by (auto simp: u_def int64_def)
  then have p: "parse_units 0 t = Some u" using small_string_parses long_string_parses by (simp add: t_def)
  have h: "is_digit (hd t)" "t \<noteq> []" using durationString_digits by (simp_all add: t_def)
  have s: "t \<noteq> ''0''" using p parse_bare_zero by auto
  obtain c r where t: "t = c # r" using h(2) by (cases t) auto
  have c: "c \<noteq> CHR ''-''" "c \<noteq> CHR ''+''" using h(1) by (auto simp: t is_digit_def)
  have d: "durationString d = (if d < 0 then CHR ''-'' # t else t)"
    by (simp add: durationString_def Let_def u_def t_def)
  show ?thesis
    using assms p h(2) s c unfolding d by (auto simp: ParseDuration_def t u_def int64_def)
qed

text \<open>A timeout of an hour and a half and ten milliseconds.\<close>

theorem ParseDuration_String_witness:
  "ParseDuration (durationString 5400010000000) = Some 5400010000000"
  by (rule ParseDuration_String) (simp add: int64_def)

end
