(* ===== verification/Go_Flag.thy ===== *)
theory Go_Flag
  imports Go_Time
begin

text \<open>
  The \<open>flag\<close> package as the commands use it: one set of flags whose values are stored in a record
  of options, the argument list read up to the first argument that is no flag, and the errors
  that end the program. \<open>'o\<close> is the record of options; a variable is how a value is stored in it.
\<close>

subsection \<open>Values\<close>

definition ParseBool :: "gostring \<Rightarrow> bool option" where
  "ParseBool s =
     (if s \<in> {''1'', ''t'', ''T'', ''true'', ''TRUE'', ''True''} then Some True
      else if s \<in> {''0'', ''f'', ''F'', ''false'', ''FALSE'', ''False''} then Some False
      else None)"

text \<open>\<open>strconv.ParseUint(s, 0, 64)\<close>: the base from the prefix, digits with underscores between them.\<close>

definition digit_of :: "char \<Rightarrow> nat option" where
  "digit_of c =
     (if is_digit c then Some (bv c - 48)
      else if 97 \<le> bv c \<and> bv c \<le> 122 then Some (bv c - 87)
      else if 65 \<le> bv c \<and> bv c \<le> 90 then Some (bv c - 55)
      else None)"

fun base_digits :: "nat \<Rightarrow> nat \<Rightarrow> gostring \<Rightarrow> nat option" where
  "base_digits base n [] = Some n"
| "base_digits base n (c # s) =
     (if c = CHR ''_'' then base_digits base n s
      else case digit_of c of
             None \<Rightarrow> None
           | Some d \<Rightarrow>
               if base \<le> d then None
               else if 2 ^ 64 \<le> n * base + d then None else base_digits base (n * base + d) s)"

definition base_prefix :: "gostring \<Rightarrow> (nat \<times> gostring) option" where
  "base_prefix s =
     (case s of
        z # c # r \<Rightarrow>
          if z = CHR ''0'' \<and> r \<noteq> [] then
            (if c \<in> {CHR ''b'', CHR ''B''} then Some (2, r)
             else if c \<in> {CHR ''o'', CHR ''O''} then Some (8, r)
             else if c \<in> {CHR ''x'', CHR ''X''} then Some (16, r) else None)
          else None
      | _ \<Rightarrow> None)"

datatype last_char = AtStart | AfterDigit | AfterUnderscore | AfterOther

fun underscores_ok :: "bool \<Rightarrow> last_char \<Rightarrow> gostring \<Rightarrow> bool" where
  "underscores_ok hex l [] = (l \<noteq> AfterUnderscore)"
| "underscores_ok hex l (c # s) =
     (if is_digit c \<or> (hex \<and> (97 \<le> bv c \<and> bv c \<le> 102 \<or> 65 \<le> bv c \<and> bv c \<le> 70)) then underscores_ok hex AfterDigit s
      else if c = CHR ''_'' then (l = AfterDigit \<and> underscores_ok hex AfterUnderscore s)
      else l \<noteq> AfterUnderscore \<and> underscores_ok hex AfterOther s)"

definition underscoreOK :: "gostring \<Rightarrow> bool" where
  "underscoreOK s =
     (let t = (case s of c # r \<Rightarrow> if c = CHR ''-'' \<or> c = CHR ''+'' then r else s | [] \<Rightarrow> s) in
      case t of
        z # c # r \<Rightarrow>
          if z = CHR ''0'' \<and> c \<in> {CHR ''b'', CHR ''B'', CHR ''o'', CHR ''O'', CHR ''x'', CHR ''X''}
          then underscores_ok (c \<in> {CHR ''x'', CHR ''X''}) AfterDigit r
          else underscores_ok False AtStart t
      | _ \<Rightarrow> underscores_ok False AtStart t)"

definition ParseUint :: "gostring \<Rightarrow> nat option" where
  "ParseUint s =
     (if s = [] then None
      else case (case base_prefix s of
                   Some (base, r) \<Rightarrow> (base, r)
                 | None \<Rightarrow> if hd s = CHR ''0'' then (8, tl s) else (10, s)) of
             (base, r) \<Rightarrow>
               (case base_digits base 0 r of
                  None \<Rightarrow> None
                | Some n \<Rightarrow> if CHR ''_'' \<in> set r \<and> \<not> underscoreOK s then None else Some n))"

definition ParseInt :: "gostring \<Rightarrow> int option" where
  "ParseInt s =
     (let (neg, t) = (case s of
            c # r \<Rightarrow> if c = CHR ''-'' \<or> c = CHR ''+'' then (c = CHR ''-'', r) else (False, s)
          | [] \<Rightarrow> (False, s))
      in case ParseUint t of
           None \<Rightarrow> None
         | Some n \<Rightarrow> (let v = (if neg then - int n else int n) in if int64 v then Some v else None))"

subsection \<open>Flags\<close>

datatype 'o flag_var =
    BoolVar "bool \<Rightarrow> 'o \<Rightarrow> 'o"
  | StringVar "gostring \<Rightarrow> 'o \<Rightarrow> 'o"
  | IntVar "int \<Rightarrow> 'o \<Rightarrow> 'o"
  | DurationVar "int \<Rightarrow> 'o \<Rightarrow> 'o"

definition set_flag :: "'o flag_var \<Rightarrow> gostring \<Rightarrow> 'o \<Rightarrow> 'o option" where
  "set_flag var v opt =
     (case var of
        BoolVar f \<Rightarrow> map_option (\<lambda>x. f x opt) (ParseBool v)
      | StringVar f \<Rightarrow> Some (f v opt)
      | IntVar f \<Rightarrow> map_option (\<lambda>x. f x opt) (ParseInt v)
      | DurationVar f \<Rightarrow> map_option (\<lambda>x. f x opt) (ParseDuration v))"

datatype flag_error =
    Help
  | BadSyntax gostring
  | NotDefined gostring
  | NeedsArgument gostring
  | InvalidValue gostring gostring

definition is_bool_var :: "'o flag_var \<Rightarrow> bool" where
  "is_bool_var var = (case var of BoolVar _ \<Rightarrow> True | _ \<Rightarrow> False)"

text \<open>The name and the value after the first \<open>=\<close>, which cannot come first.\<close>

definition cut_value :: "gostring \<Rightarrow> gostring \<times> gostring option" where
  "cut_value s =
     (let r = dropWhile (\<lambda>c. c \<noteq> CHR ''='') (tl s) in
      (take 1 s @ takeWhile (\<lambda>c. c \<noteq> CHR ''='') (tl s), if r = [] then None else Some (tl r)))"

text \<open>\<open>FlagSet.Parse\<close>: the options and the arguments that are left.\<close>

fun parse_flags :: "(gostring \<times> 'o flag_var) list \<Rightarrow> 'o \<Rightarrow> gostring list \<Rightarrow> flag_error + 'o \<times> gostring list" where
  "parse_flags tbl opt [] = Inr (opt, [])"
| "parse_flags tbl opt (s # args) =
     (if length s < 2 \<or> hd s \<noteq> CHR ''-'' then Inr (opt, s # args)
      else if s = ''--'' then Inr (opt, args)
      else let body = (if s ! 1 = CHR ''-'' then drop 2 s else drop 1 s) in
           if hd body = CHR ''-'' \<or> hd body = CHR ''='' then Inl (BadSyntax s)
           else let (name, val) = cut_value body in
                (case map_of tbl name of
                   None \<Rightarrow> Inl (if name = ''help'' \<or> name = ''h'' then Help else NotDefined name)
                 | Some var \<Rightarrow>
                     (case (if is_bool_var var \<and> val = None then Some ''true'' else val) of
                        Some v \<Rightarrow>
                          (case set_flag var v opt of
                             None \<Rightarrow> Inl (InvalidValue v name)
                           | Some opt' \<Rightarrow> parse_flags tbl opt' args)
                      | None \<Rightarrow>
                          (case args of
                             [] \<Rightarrow> Inl (NeedsArgument name)
                           | v # args' \<Rightarrow>
                               (case set_flag var v opt of
                                  None \<Rightarrow> Inl (InvalidValue v name)
                                | Some opt' \<Rightarrow> parse_flags tbl opt' args')))))"

text \<open>What \<open>flag.Parse\<close> exits with: asking for help is no error.\<close>

definition flag_exit :: "flag_error \<Rightarrow> int" where
  "flag_exit e = (case e of Help \<Rightarrow> 0 | _ \<Rightarrow> 2)"

subsection \<open>Written flags are read back\<close>

definition flag_arg :: "gostring \<Rightarrow> gostring \<Rightarrow> gostring" where
  "flag_arg name v = ''--'' @ name @ ''='' @ v"

definition bool_text :: "bool \<Rightarrow> gostring" where
  "bool_text b = (if b then ''true'' else ''false'')"

lemma ParseBool_text [simp]: "ParseBool (bool_text b) = Some b"
  by (simp add: ParseBool_def bool_text_def)

lemma base_digits_decimal:
  assumes "list_all is_digit ds" "foldl (\<lambda>a c. 10 * a + (bv c - 48)) n ds < 2 ^ 64"
  shows "base_digits 10 n ds = Some (foldl (\<lambda>a c. 10 * a + (bv c - 48)) n ds)"
  using assms
proof (induction ds arbitrary: n)
  case (Cons c ds)
  let ?f = "\<lambda>a c. 10 * a + (bv c - 48)"
  have "?f n c \<le> foldl ?f (?f n c) ds" by (rule foldl_digits_grow)
  then have "n * 10 + (bv c - 48) < 2 ^ 64" using Cons.prems(2) by simp
  moreover have "c \<noteq> CHR ''_''" "bv c - 48 < 10" using Cons.prems(1) by (auto simp: is_digit_def)
  ultimately show ?case using Cons by (simp add: digit_of_def mult.commute)
qed simp

lemma hd_nat_dec_zero: "hd (nat_dec n) = CHR ''0'' \<longleftrightarrow> n = 0"
proof (induction n rule: nat_dec.induct)
  case (1 n)
  then show ?case by (subst nat_dec.simps) (auto simp: byte_char_eq_iff hd_append)
qed

lemma ParseUint_decimal:
  assumes "n < 2 ^ 64"
  shows "ParseUint (nat_dec n) = Some n"
proof (cases "n = 0")
  case True
  have "nat_dec 0 = ''0''" by (subst nat_dec.simps) (simp add: byte_char_eq_iff)
  then show ?thesis using True by (simp add: ParseUint_def base_prefix_def)
next
  case False
  then have h: "hd (nat_dec n) \<noteq> CHR ''0''" by (simp add: hd_nat_dec_zero)
  have "CHR ''_'' \<notin> set (nat_dec n)" using nat_dec_digits [of n] by (auto simp: list_all_iff is_digit_def)
  moreover have "base_prefix (nat_dec n) = None" using h by (auto simp: base_prefix_def split: list.splits)
  moreover have "base_digits 10 0 (nat_dec n) = Some (digits_val (nat_dec n))"
    unfolding digits_val_def
    by (rule base_digits_decimal [OF nat_dec_digits]) (use assms in \<open>simp flip: digits_val_def\<close>)
  ultimately show ?thesis using h unfolding ParseUint_def by simp
qed

lemma ParseInt_itoa:
  assumes "int64 i"
  shows "ParseInt (itoa i) = Some i"
proof (cases "i < 0")
  case True
  then show ?thesis
    using assms ParseUint_decimal [of "nat (- i)"] by (simp add: itoa_def ParseInt_def Let_def int64_def)
next
  case False
  obtain c r where c: "nat_dec (nat i) = c # r" by (cases "nat_dec (nat i)") auto
  then have "c \<noteq> CHR ''-''" "c \<noteq> CHR ''+''" using hd_nat_dec [of "nat i"] by (auto simp: is_digit_def)
  then show ?thesis
    using assms False c ParseUint_decimal [of "nat i"] by (simp add: itoa_def ParseInt_def Let_def int64_def)
qed

lemma set_flag_text:
  "set_flag (BoolVar fb) (bool_text b) opt = Some (fb b opt)"
  "set_flag (StringVar fs) s opt = Some (fs s opt)"
  "int64 i \<Longrightarrow> set_flag (IntVar fi) (itoa i) opt = Some (fi i opt)"
  "int64 d \<Longrightarrow> set_flag (DurationVar fd) (durationString d) opt = Some (fd d opt)"
  by (simp_all add: set_flag_def ParseInt_itoa ParseDuration_String)

definition flag_name :: "gostring \<Rightarrow> bool" where
  "flag_name s \<longleftrightarrow> s \<noteq> [] \<and> hd s \<noteq> CHR ''-'' \<and> CHR ''='' \<notin> set s"

lemma parse_flag_arg:
  assumes "flag_name name" "map_of tbl name = Some var" "set_flag var v opt = Some opt'"
  shows "parse_flags tbl opt (flag_arg name v # args) = parse_flags tbl opt' args"
proof -
  obtain c r where n: "name = c # r" "c \<noteq> CHR ''-''" "c \<noteq> CHR ''=''" "CHR ''='' \<notin> set r"
    using assms(1) by (cases name) (auto simp: flag_name_def)
  then have "takeWhile (\<lambda>c. c \<noteq> CHR ''='') (r @ CHR ''='' # v) = r" "dropWhile (\<lambda>c. c \<noteq> CHR ''='') (r @ CHR ''='' # v) = CHR ''='' # v"
    by (auto simp: takeWhile_append dropWhile_append)
  then have "cut_value (name @ CHR ''='' # v) = (name, Some v)" by (simp add: cut_value_def n(1))
  then show ?thesis using assms(2,3) n by (simp add: flag_arg_def Let_def)
qed

lemma parse_flags_stop: "parse_flags tbl opt (''--'' # args) = Inr (opt, args)"
  by simp

lemmas parse_flag_texts =
  parse_flag_arg [OF _ _ set_flag_text(1)] parse_flag_arg [OF _ _ set_flag_text(2)]
  parse_flag_arg [OF _ _ set_flag_text(3)] parse_flag_arg [OF _ _ set_flag_text(4)] parse_flags_stop

declare parse_flags.simps [simp del]

end
