(* ===== verification/Claude_Send.thy ===== *)
theory Claude_Send
  imports Client Serve_Steps Go_Flag
begin

text \<open>
  \<open>cmd/claude-send/main.go\<close>: the command that sends one message and waits for the answer, from
  its argument list to its exit code. What it prints is a list of outputs in order: lines on the
  standard output, and on the standard error stream progress notes, complaints and the usage.
\<close>

definition exit_ok :: int where "exit_ok = 0"
definition exit_error :: int where "exit_error = 1"
definition exit_no_reply :: int where "exit_no_reply = 3"
definition exit_timeout :: int where "exit_timeout = 4"
definition exit_refused :: int where "exit_refused = 5"
definition exit_no_target :: int where "exit_no_target = 6"

definition isTerminal :: "os_error + fnode \<Rightarrow> bool" where
  "isTerminal stat = (case stat of Inl _ \<Rightarrow> False | Inr fi \<Rightarrow> n_kind fi = KCharDevice)"

subsection \<open>What is printed\<close>

datatype notice =
    UnknownPid
  | UnidentifiedSender
  | Ignoring int int                       \<comment> \<open>the sender, the process waited for\<close>
  | InboxFailed failure
  | InboxAt gostring
  | AnnouncedAs gostring int gostring
  | SentTo gostring gostring bool          \<comment> \<open>message id, socket, whether authenticated\<close>
  | Collected nat int
  | TimedOut int
  | ReplyFrom gostring

definition plural :: "nat \<Rightarrow> gostring" where
  "plural n = (if n = 1 then ''y'' else ''ies'')"

text \<open>The words of a note; how \<open>%q\<close> quotes and what an error says are the library's.\<close>

definition notice_text :: "(gostring \<Rightarrow> gostring) \<Rightarrow> (failure \<Rightarrow> gostring) \<Rightarrow> notice \<Rightarrow> gostring" where
  "notice_text quote says n =
     (case n of
        UnknownPid \<Rightarrow> ''target pid is unknown, so any sender will be heard''
      | UnidentifiedSender \<Rightarrow>
          ''frames are arriving from a peer the kernel will not identify on this ''
          @ ''platform, so they cannot be told from anyone else's: hearing them anyway''
      | Ignoring p want \<Rightarrow>
          ''ignoring frames from pid '' @ itoa p @ '': waiting for pid '' @ itoa want @ '' (use --any-sender to hear everyone)''
      | InboxFailed e \<Rightarrow> ''claude-send: inbox: '' @ says e
      | InboxAt p \<Rightarrow> ''inbox '' @ p
      | AnnouncedAs name pid sid \<Rightarrow> ''announced as '' @ quote name @ '' (pid '' @ itoa pid @ '', session '' @ sid @ '')''
      | SentTo mid p auth \<Rightarrow>
          ''sent '' @ mid @ '' to '' @ p @ '' ('' @ (if auth then ''authenticated'' else ''unauthenticated'') @ '')''
      | Collected k d \<Rightarrow> ''collected '' @ nat_dec k @ '' repl'' @ plural k @ '' in '' @ durationString d
      | TimedOut d \<Rightarrow> ''timed out after '' @ durationString d
      | ReplyFrom name \<Rightarrow> ''reply from '' @ name)"

datatype complaint =
    BadFlags flag_error
  | NoStdin os_error
  | TwoTargets
  | UnknownWait gostring
  | Unresolved resolve_error
  | NotThePublisher int
  | NoInbox listen_error
  | NoEntry session_error
  | NotPublished os_error
  | NotDialled dial_error
  | NotSent "user_error + send_error"

datatype printed = Line gostring | Note notice | Complain complaint | ShowUsage

definition line_of :: "printed \<Rightarrow> gostring option" where
  "line_of out' = (case out' of Line l \<Rightarrow> Some l | _ \<Rightarrow> None)"

definition stdout :: "printed list \<Rightarrow> gostring list" where
  "stdout outs = List.map_filter line_of outs"

subsection \<open>Options and arguments\<close>

record send_options =
  so_to :: int
  so_toSocket :: gostring
  so_wait :: gostring
  so_timeout :: int                        \<comment> \<open>nanoseconds\<close>
  so_noAuth :: bool
  so_noHint :: bool
  so_jsonOut :: bool
  so_quiet :: bool
  so_anySender :: bool
  so_name :: gostring
  so_announce :: gostring
  so_publishKey :: bool

definition default_options :: send_options where
  "default_options = \<lparr>so_to = 0, so_toSocket = [], so_wait = ''reply'', so_timeout = 300000000000, so_noAuth = False,
     so_noHint = False, so_jsonOut = False, so_quiet = False, so_anySender = False, so_name = [], so_announce = [],
     so_publishKey = False\<rparr>"

definition claude_flags :: "(gostring \<times> send_options flag_var) list" where
  "claude_flags =
     [(''to'', IntVar (\<lambda>v. so_to_update (\<lambda>_. v))),
      (''to-socket'', StringVar (\<lambda>v. so_toSocket_update (\<lambda>_. v))),
      (''wait'', StringVar (\<lambda>v. so_wait_update (\<lambda>_. v))),
      (''timeout'', DurationVar (\<lambda>v. so_timeout_update (\<lambda>_. v))),
      (''any-sender'', BoolVar (\<lambda>v. so_anySender_update (\<lambda>_. v))),
      (''no-auth'', BoolVar (\<lambda>v. so_noAuth_update (\<lambda>_. v))),
      (''no-hint'', BoolVar (\<lambda>v. so_noHint_update (\<lambda>_. v))),
      (''name'', StringVar (\<lambda>v. so_name_update (\<lambda>_. v))),
      (''json'', BoolVar (\<lambda>v. so_jsonOut_update (\<lambda>_. v))),
      (''quiet'', BoolVar (\<lambda>v. so_quiet_update (\<lambda>_. v))),
      (''announce'', StringVar (\<lambda>v. so_announce_update (\<lambda>_. v))),
      (''publish-key'', BoolVar (\<lambda>v. so_publishKey_update (\<lambda>_. v)))]"

definition progress :: "send_options \<Rightarrow> notice list \<Rightarrow> printed list" where
  "progress opt ns = (if so_quiet opt then [] else map Note ns)"

subsection \<open>Whose frames are heard\<close>

datatype acceptance = AnySender | OnlyPID int

definition accepter :: "Target \<Rightarrow> bool \<Rightarrow> acceptance \<times> notice list" where
  "accepter t any' =
     (if any' then (AnySender, [])
      else let want = TPID t;
               want = (if want = 0
                       then (case PIDFromSocketName (path_base (SocketPath t)) of None \<Rightarrow> 0 | Some pid \<Rightarrow> pid)
                       else want)
           in if want = 0 then (AnySender, [UnknownPid]) else (OnlyPID want, []))"

text \<open>The function \<open>accepter\<close> returns; it keeps whether it has warned.\<close>

fun accepts :: "acceptance \<Rightarrow> bool \<Rightarrow> Peer \<Rightarrow> bool \<times> bool \<times> notice list" where
  "accepts AnySender warned p = (True, warned, [])"
| "accepts (OnlyPID want) warned p =
     (if \<not> Identified p then (True, True, if warned then [] else [UnidentifiedSender])
      else if PID p = want then (True, warned, [])
      else (False, True, if warned then [] else [Ignoring (PID p) want]))"

text \<open>
  The handlers of the inbox, event by event: what they print, and what the user handler puts on
  the channel of replies.
\<close>

fun heard :: "send_options \<Rightarrow> acceptance \<Rightarrow> bool \<Rightarrow> event list \<Rightarrow> printed list \<times> Frame list" where
  "heard opt a warned [] = ([], [])"
| "heard opt a warned (OnUser p f # evs) =
     (case accepts a warned p of
        (ok, warned', ns) \<Rightarrow>
          case heard opt a warned' evs of (outs, fs) \<Rightarrow> (progress opt ns @ outs, if ok then f # fs else fs))"
| "heard opt a warned (OnError e # evs) =
     (case heard opt a warned evs of (outs, fs) \<Rightarrow> (progress opt [InboxFailed e] @ outs, fs))"
| "heard opt a warned (_ # evs) = heard opt a warned evs"

definition defaultName :: "host \<Rightarrow> gostring" where
  "defaultName h = (case h_cwd h of None \<Rightarrow> ''claude-send'' | Some cwd \<Rightarrow> ''claude-send in '' @ path_base cwd)"

definition resolve :: "host \<Rightarrow> send_options \<Rightarrow> resolve_error + Target" where
  "resolve h opt =
     (if so_toSocket opt \<noteq> [] then
        (let t = \<lparr>TPID = 0, SocketPath = so_toSocket opt, TToken = [], TProcStart = [], Unauthenticated = False\<rparr> in
         case PIDFromSocketName (path_base (so_toSocket opt)) of
           None \<Rightarrow> Inr t
         | Some pid \<Rightarrow>
             let t = t\<lparr>TPID := pid\<rparr> in
             (case ReadKey h pid (so_toSocket opt) of
                Inl e \<Rightarrow> Inl (BadKey e)
              | Inr None \<Rightarrow> Inr t
              | Inr (Some k) \<Rightarrow> Inr (t\<lparr>TToken := PeerToken k, TProcStart := KeyProcStart k\<rparr>)))
      else ResolveTarget h (so_to opt))"

subsection \<open>Waiting\<close>

datatype await_event = CtxDone | Reply Frame

text \<open>
  \<open>await\<close> on the events the \<open>select\<close> sees, in order; the context always ends, so the end of the
  list is its end. The result is the exit code and what is printed.
\<close>

definition await_end :: "send_options \<Rightarrow> nat \<Rightarrow> int \<times> printed list" where
  "await_end opt got =
     (if so_wait opt = ''replies''
      then (if 0 < got then exit_ok else exit_timeout, progress opt [Collected got (so_timeout opt)])
      else (exit_timeout, progress opt [TimedOut (so_timeout opt)]))"

fun await :: "send_options \<Rightarrow> nat \<Rightarrow> await_event list \<Rightarrow> int \<times> printed list" where
  "await opt got [] = await_end opt got"
| "await opt got (CtxDone # evs) = await_end opt got"
| "await opt got (Reply f # evs) =
     (let raw = (if so_jsonOut opt then [Line (Raw f)] else []) in
      if Type f \<noteq> TypeUser then (case await opt got evs of (code, outs) \<Rightarrow> (code, raw @ outs))
      else let ls = raw @ (if so_jsonOut opt then []
                           else case Unwrap (Text f) of (cs, text, wrapped) \<Rightarrow>
                             (if wrapped \<and> cs_Name cs \<noteq> [] then progress opt [ReplyFrom (cs_Name cs)] else [])
                             @ [Line text]) in
           if so_wait opt = ''replies''
           then (case await opt (got + 1) evs of (code, outs) \<Rightarrow> (code, ls @ outs))
           else (exit_ok, ls))"

subsection \<open>Sending\<close>

record send_env =
  se_stat :: "os_error + fnode"            \<comment> \<open>the standard input\<close>
  se_stdin :: "os_error + gostring"
  se_inbox :: entropy
  se_session :: bytes                      \<comment> \<open>the session id\<close>
  se_tmp :: bytes                          \<comment> \<open>the name of the temporary entry\<close>
  se_msg :: bytes                          \<comment> \<open>the message id\<close>
  se_fails :: "nat \<Rightarrow> bool"                \<comment> \<open>which writes the kernel refuses\<close>
  se_events :: "event list"                \<comment> \<open>what the inbox reports before the command or its context ends\<close>
  se_closer :: "nat option"                \<comment> \<open>the closing goroutine: see \<open>cleanup\<close>\<close>

record send_result =
  sr_code :: int
  sr_out :: "printed list"                  \<comment> \<open>printed by the command itself\<close>
  sr_heard :: "printed list"                \<comment> \<open>printed by the handlers of the inbox\<close>
  sr_client :: "Client option"
  sr_host :: host

definition send_config :: "send_options \<Rightarrow> Config" where
  "send_config opt = \<lparr>Path = [], RequireAuth = False, AllowUnidentifiedPeers = False, PublishKey = so_publishKey opt,
     ModeSource = ModeSourceNone, CFirstLineTimeout = 0,
     CHandler = \<lparr>has_OnUser = True, has_OnUnknown = False, has_OnDrop = False, has_OnError = True\<rparr>\<rparr>"

text \<open>
  The deferred calls: the registry entry goes before the inbox. When the context has ended, the
  goroutine that \<open>Serve\<close> started for this calls \<open>Close\<close> too. If it is first (\<open>Some k\<close>), the
  deferred \<open>Close\<close> finds the server marked as closed and returns at once, and the process exits
  after \<open>k\<close> of the goroutine's removals, however many these are.
\<close>

definition cleanup :: "nat option \<Rightarrow> Server option \<Rightarrow> SessionEntry option \<Rightarrow> host \<Rightarrow> host" where
  "cleanup closer srv entry h =
     (let h1 = (case entry of None \<Rightarrow> h | Some e \<Rightarrow> snd (UnpublishSession h (EPID e)))
      in case srv of
           None \<Rightarrow> h1
         | Some s \<Rightarrow> (case closer of None \<Rightarrow> snd (Close s h1) | Some k \<Rightarrow> closing_steps k s h1))"

text \<open>What was printed, why the command ends here if it does, the entry and the host after announcing.\<close>

definition announce_entry ::
    "send_env \<Rightarrow> send_options \<Rightarrow> Server \<Rightarrow> host \<Rightarrow> printed list \<times> complaint option \<times> SessionEntry option \<times> host" where
  "announce_entry env opt s h =
     (if so_announce opt = [] then ([], None, None, h)
      else case NewSessionEntry (se_session env) h (path s) (so_announce opt) ''cli'' ''cli'' of
             Inl e \<Rightarrow> ([], Some (NoEntry e), None, h)
           | Inr e \<Rightarrow>
               (case PublishSession (se_tmp env) h e of
                  (Some err, hs) \<Rightarrow> ([], Some (NotPublished err), None, last hs)
                | (None, hs) \<Rightarrow> (progress opt [AnnouncedAs (EName e) (EPID e) (SessionID e)], None, Some e, last hs)))"

text \<open>The inbox, when there is one to be, and its entry.\<close>

definition open_inbox ::
    "send_env \<Rightarrow> send_options \<Rightarrow> host
     \<Rightarrow> printed list \<times> complaint option \<times> Server option \<times> SessionEntry option \<times> host" where
  "open_inbox env opt h =
     (if so_wait opt = ''none'' then ([], None, None, None, h)
      else case Listen (se_inbox env) (send_config opt) h of
             (Inl e, h1) \<Rightarrow> ([], Some (NoInbox e), None, None, h1)
           | (Inr s, h1) \<Rightarrow>
               (case announce_entry env opt s h1 of
                  (outs, r, e, h2) \<Rightarrow> (progress opt [InboxAt (path s)] @ outs, r, Some s, e, h2)))"

definition waiting_note :: "send_options \<Rightarrow> gostring" where
  "waiting_note opt =
     (if so_wait opt = ''reply'' then
        [newline, newline] @ ''[The sender is blocked waiting for a reply to this address.]''
      else if so_wait opt = ''replies'' then
        [newline, newline] @ ''[The sender is collecting replies at this address for the next ''
          @ durationString (so_timeout opt) @ ''; more than one is welcome.]''
      else [])"

definition send_mode :: "host \<Rightarrow> Mode" where
  "send_mode h = (case DetectParentMode h of Inl _ \<Rightarrow> [] | Inr m \<Rightarrow> m)"

definition send_user :: "send_options \<Rightarrow> host \<Rightarrow> Mode \<Rightarrow> gostring \<Rightarrow> gostring \<Rightarrow> User" where
  "send_user opt h mode from text =
     (let name = so_name opt;
          name = (if name = [] then so_announce opt else name);
          name = (if name = [] then defaultName h else name)
      in \<lparr>UText = (if so_noHint opt then text else text @ waiting_note opt), UFrom = from, UFromMode = mode, UMsgID = [],
          UAttribution = (if so_noHint opt then None else Some \<lparr>cs_From = from, cs_Name = name, cs_Mode = mode\<rparr>),
          UPriority = []\<rparr>)"

definition final_target :: "send_options \<Rightarrow> Target \<Rightarrow> Target" where
  "final_target opt t = (if so_noAuth opt then t\<lparr>TToken := [], Unauthenticated := True\<rparr> else t)"

text \<open>What the handlers of the inbox print, if there is one, until the command ends.\<close>

definition inbox_output :: "send_env \<Rightarrow> send_options \<Rightarrow> acceptance \<Rightarrow> Server option \<Rightarrow> printed list" where
  "inbox_output env opt a srv = (case srv of None \<Rightarrow> [] | Some _ \<Rightarrow> fst (heard opt a False (se_events env)))"

text \<open>What the command does after the inbox is open: \<open>outs\<close> was printed so far.\<close>

definition send_from ::
    "send_env \<Rightarrow> send_options \<Rightarrow> gostring \<Rightarrow> Target \<Rightarrow> acceptance \<Rightarrow> printed list
     \<Rightarrow> Server option \<Rightarrow> SessionEntry option \<Rightarrow> Mode \<Rightarrow> host \<Rightarrow> send_result" where
  "send_from env opt text t a outs srv entry mode h =
     (let from = (case srv of None \<Rightarrow> [] | Some s \<Rightarrow> ServerAddr s);
          u = send_user opt h mode from text;
          end' = cleanup (se_closer env) srv entry h
      in case Dial h (se_fails env) t of
           Inl e \<Rightarrow> \<lparr>sr_code = exit_error, sr_out = outs @ [Complain (NotDialled e)], sr_heard = inbox_output env opt a srv, sr_client = None, sr_host = end'\<rparr>
         | Inr c \<Rightarrow>
             (case SendUser (se_msg env) c u of
                (Inl e, c') \<Rightarrow>
                  \<lparr>sr_code = exit_error, sr_out = outs @ [Complain (NotSent e)], sr_heard = inbox_output env opt a srv,
                   sr_client = Some (CloseClient c'), sr_host = end'\<rparr>
              | (Inr mid, c') \<Rightarrow>
                  let outs = outs @ progress opt [SentTo mid (SocketPath t) (TToken t \<noteq> [])] in
                  if so_wait opt = ''none''
                  then \<lparr>sr_code = exit_ok, sr_out = outs, sr_heard = [], sr_client = Some (CloseClient c'), sr_host = end'\<rparr>
                  else case heard opt a False (se_events env) of
                         (hs, fs) \<Rightarrow>
                           case await opt 0 (map Reply fs) of
                             (code, ls) \<Rightarrow>
                               \<lparr>sr_code = code, sr_out = outs @ ls, sr_heard = hs,
                                sr_client = Some (CloseClient c'), sr_host = end'\<rparr>))"

definition send :: "send_env \<Rightarrow> send_options \<Rightarrow> gostring \<Rightarrow> host \<Rightarrow> send_result" where
  "send env opt text h =
     (case resolve h opt of
        Inl e \<Rightarrow> \<lparr>sr_code = exit_no_target, sr_out = [Complain (Unresolved e)], sr_heard = [], sr_client = None, sr_host = h\<rparr>
      | Inr t0 \<Rightarrow>
          let t = final_target opt t0 in
          if TPID t \<noteq> 0 \<and> TProcStart t \<noteq> [] \<and> \<not> Alive h (TPID t) (TProcStart t)
          then \<lparr>sr_code = exit_no_target, sr_out = [Complain (NotThePublisher (TPID t))], sr_heard = [], sr_client = None, sr_host = h\<rparr>
          else case (if so_wait opt = ''none'' then (AnySender, []) else accepter t (so_anySender opt)) of
                 (a, ns) \<Rightarrow>
                   case open_inbox env opt h of
                     (outs, Some e, srv, entry, h1) \<Rightarrow>
                       \<lparr>sr_code = exit_error, sr_out = progress opt ns @ outs @ [Complain e], sr_heard = inbox_output env opt a srv, sr_client = None,
                        sr_host = cleanup (se_closer env) srv entry h1\<rparr>
                   | (outs, None, srv, entry, h1) \<Rightarrow> send_from env opt text t a (progress opt ns @ outs) srv entry (send_mode h) h1)"

definition message_text :: "gostring list \<Rightarrow> os_error + fnode \<Rightarrow> os_error + gostring \<Rightarrow> os_error + gostring" where
  "message_text args stat stdin =
     (let text = join_with '' '' args in
      if text = ''-'' \<or> (text = [] \<and> \<not> isTerminal stat)
      then (case stdin of Inl e \<Rightarrow> Inl e | Inr b \<Rightarrow> Inr (trim_right_newlines b))
      else Inr text)"

definition stopped :: "int \<Rightarrow> printed list \<Rightarrow> host \<Rightarrow> send_result" where
  "stopped code outs h = \<lparr>sr_code = code, sr_out = outs, sr_heard = [], sr_client = None, sr_host = h\<rparr>"

definition run :: "send_env \<Rightarrow> gostring list \<Rightarrow> host \<Rightarrow> send_result" where
  "run env argv h =
     (case parse_flags claude_flags default_options argv of
        Inl e \<Rightarrow> stopped (flag_exit e) ((if e = Help then [] else [Complain (BadFlags e)]) @ [ShowUsage]) h
      | Inr (opt, args) \<Rightarrow>
          (case message_text args (se_stat env) (se_stdin env) of
             Inl e \<Rightarrow> stopped exit_error [Complain (NoStdin e)] h
           | Inr text \<Rightarrow>
               if (so_to opt = 0 \<and> so_toSocket opt = []) \<or> text = [] then stopped exit_error [ShowUsage] h
               else if so_to opt \<noteq> 0 \<and> so_toSocket opt \<noteq> [] then stopped exit_error [Complain TwoTargets] h
               else if so_wait opt \<notin> {''reply'', ''replies'', ''none''}
                    then stopped exit_error [Complain (UnknownWait (so_wait opt))] h
               else send env opt text h))"

subsection \<open>The command line\<close>

text \<open>The arguments that ask for given options and a given text.\<close>

definition claude_args :: "send_options \<Rightarrow> gostring \<Rightarrow> gostring list" where
  "claude_args opt text =
     [flag_arg ''to'' (itoa (so_to opt)), flag_arg ''to-socket'' (so_toSocket opt), flag_arg ''wait'' (so_wait opt),
      flag_arg ''timeout'' (durationString (so_timeout opt)), flag_arg ''any-sender'' (bool_text (so_anySender opt)),
      flag_arg ''no-auth'' (bool_text (so_noAuth opt)), flag_arg ''no-hint'' (bool_text (so_noHint opt)),
      flag_arg ''name'' (so_name opt), flag_arg ''json'' (bool_text (so_jsonOut opt)),
      flag_arg ''quiet'' (bool_text (so_quiet opt)), flag_arg ''announce'' (so_announce opt),
      flag_arg ''publish-key'' (bool_text (so_publishKey opt)), ''--'', text]"

definition sensible :: "send_options \<Rightarrow> bool" where
  "sensible opt \<longleftrightarrow> int64 (so_to opt) \<and> int64 (so_timeout opt) \<and> (so_to opt = 0) \<noteq> (so_toSocket opt = [])
     \<and> so_wait opt \<in> {''reply'', ''replies'', ''none''}"

text \<open>
  (C34) The command line says everything. Whatever options make sense, and whatever message that is
  not read from the standard input, there are arguments for them: written as flags, with the
  message after \<open>--\<close>, they are read back as exactly those options, numbers and durations
  included, and the command does exactly what it does for them.
\<close>

theorem claude_command_line:
  assumes "sensible opt" "text \<notin> {[], ''-''}"
  shows "parse_flags claude_flags default_options (claude_args opt text) = Inr (opt, [text])
    \<and> run env (claude_args opt text) h = send env opt text h"
proof -
  have i: "int64 (so_to opt)" "int64 (so_timeout opt)" using assms(1) by (simp_all add: sensible_def)
  have p: "parse_flags claude_flags default_options (claude_args opt text) = Inr (opt, [text])"
    unfolding claude_args_def by (simp add: parse_flag_texts claude_flags_def flag_name_def i default_options_def)
  moreover have "message_text [text] (se_stat env) (se_stdin env) = Inr text"
    using assms(2) by (simp add: message_text_def)
  ultimately show ?thesis using assms by (auto simp: run_def sensible_def)
qed


definition waiting_options :: send_options where
  "waiting_options = default_options\<lparr>so_to := 7, so_announce := ''me''\<rparr>"

theorem claude_command_line_witness:
  "parse_flags claude_flags default_options (claude_args waiting_options ''hi'') = Inr (waiting_options, [''hi''])"
  using claude_command_line [of waiting_options "''hi''"]
  by (simp add: sensible_def waiting_options_def default_options_def int64_def)

subsection \<open>Only the addressed process is heard\<close>

text \<open>The process addressed: the pid that was given or looked up, or the one in the socket's name; 0 is unknown.\<close>

definition addressed :: "Target \<Rightarrow> int" where
  "addressed t = (if TPID t \<noteq> 0 then TPID t
     else case PIDFromSocketName (path_base (SocketPath t)) of None \<Rightarrow> 0 | Some pid \<Rightarrow> pid)"

definition user_calls :: "event list \<Rightarrow> (Peer \<times> Frame) list" where
  "user_calls evs = List.map_filter (\<lambda>e. case e of OnUser p f \<Rightarrow> Some (p, f) | _ \<Rightarrow> None) evs"

lemma user_calls_simps [simp]:
  "user_calls [] = []" "user_calls (OnUser p f # evs) = (p, f) # user_calls evs"
  "user_calls (OnError e # evs) = user_calls evs" "user_calls (OnUnknown p f # evs) = user_calls evs"
  "user_calls (OnDrop p l d # evs) = user_calls evs" "user_calls (LogDrop d # evs) = user_calls evs"
  "user_calls (LogError e # evs) = user_calls evs" "user_calls (xs @ ys) = user_calls xs @ user_calls ys"
  by (simp_all add: user_calls_def List.map_filter_def)

definition may_answer :: "Target \<Rightarrow> bool \<Rightarrow> Peer \<times> Frame \<Rightarrow> bool" where
  "may_answer t any' c = (if Identified (fst c) then any' \<or> addressed t = 0 \<or> PID (fst c) = addressed t else True)"

lemma accepter_addressed:
  "fst (accepter t any') = (if any' \<or> addressed t = 0 then AnySender else OnlyPID (addressed t))"
  by (simp add: accepter_def addressed_def Let_def split: option.splits)

lemma heard_addressed:
  "snd (heard opt (fst (accepter t any')) warned evs) = map snd (filter (may_answer t any') (user_calls evs))"
proof (cases "any' \<or> addressed t = 0")
  case True
  then have "map snd (filter (may_answer t any') cs) = map snd cs" for cs
    by (induction cs) (auto simp: may_answer_def)
  moreover have "snd (heard opt AnySender warned evs) = map snd (user_calls evs)"
    by (induction opt AnySender warned evs rule: heard.induct) (auto split: prod.splits)
  ultimately show ?thesis using True by (simp add: accepter_addressed)
next
  case False
  then have m: "may_answer t any' (p, f) \<longleftrightarrow> (Identified p \<longrightarrow> PID p = addressed t)" for p f
    by (simp add: may_answer_def)
  have "snd (heard opt (OnlyPID (addressed t)) warned evs) = map snd (filter (may_answer t any') (user_calls evs))" for warned
  proof (induction evs arbitrary: warned)
    case (Cons e evs)
    show ?case by (cases e) (simp_all add: m Cons case_prod_beta)
  qed simp
  then show ?thesis using False by (simp add: accepter_addressed)
qed

text \<open>
  (C36) The replies heard are those of the addressed process. Of all frames that reach the inbox,
  in whatever order and however many, the command takes up exactly those whose sender the
  kernel identifies as that process, and those it cannot identify at all; only \<open>--any-sender\<close>
  or an address that names no process lets the others in. What was heard before does not matter.
\<close>

theorem only_addressed_process_heard:
  "snd (heard opt (fst (accepter t any')) warned evs) = map snd (filter (may_answer t any') (user_calls evs))"
  by (rule heard_addressed)

subsection \<open>What waiting gives\<close>

lemma stdout_simps [simp]:
  "stdout [] = []" "stdout (Line l # outs) = l # stdout outs" "stdout (Note n # outs) = stdout outs"
  "stdout (xs @ ys) = stdout xs @ stdout ys" "stdout (progress opt ns) = []"
proof -
  show n: "stdout [] = []" "stdout (Line l # outs) = l # stdout outs" "stdout (Note n # outs) = stdout outs"
    "stdout (xs @ ys) = stdout xs @ stdout ys" for l n outs xs ys
    by (simp_all add: stdout_def line_of_def List.map_filter_def)
  have "stdout (map Note ns) = []" for ns by (induction ns) (simp_all add: n)
  then show "stdout (progress opt ns) = []" by (simp add: progress_def n)
qed

definition is_user_reply :: "await_event \<Rightarrow> bool" where
  "is_user_reply e \<longleftrightarrow> (case e of CtxDone \<Rightarrow> False | Reply f \<Rightarrow> Type f = TypeUser)"

definition reply_body :: "await_event \<Rightarrow> gostring" where
  "reply_body e = (case e of CtxDone \<Rightarrow> [] | Reply f \<Rightarrow> fst (snd (Unwrap (Text f))))"

text \<open>The messages that arrive before the context ends.\<close>

definition in_time :: "await_event list \<Rightarrow> await_event list" where
  "in_time evs = filter is_user_reply (takeWhile (\<lambda>e. e \<noteq> CtxDone) evs)"

lemmas await_simps = in_time_def is_user_reply_def reply_body_def await_end_def Let_def

lemma await_reply:
  assumes "so_wait opt \<noteq> ''replies''" "\<not> so_jsonOut opt"
  shows "map_prod id stdout (await opt n evs)
    = (case in_time evs of [] \<Rightarrow> (exit_timeout, []) | e # _ \<Rightarrow> (exit_ok, [reply_body e]))"
  using assms by (induction opt n evs rule: await.induct) (auto simp: await_simps split: prod.splits)

lemma await_replies:
  assumes "so_wait opt = ''replies''" "\<not> so_jsonOut opt"
  shows "map_prod id stdout (await opt n evs) =
    (if n = 0 \<and> in_time evs = [] then exit_timeout else exit_ok, map reply_body (in_time evs))"
  using assms by (induction opt n evs rule: await.induct) (auto simp: await_simps split: prod.splits)

text \<open>
  Waiting does what the flag says. With \<open>--wait reply\<close> the command ends with the first
  message that arrives in time, prints its text without the envelope and exits 0; with
  \<open>--wait replies\<close> it prints every message that arrives in time, in order, and exits 0 when
  there was one. Nothing in time is exit 4, and frames that are not messages count for nothing.
\<close>

theorem await_outcomes:
  assumes "\<not> so_jsonOut opt"
  shows "map_prod id stdout (await opt 0 evs) =
    (if in_time evs = [] then (exit_timeout, [])
     else if so_wait opt = ''replies'' then (exit_ok, map reply_body (in_time evs))
     else (exit_ok, [reply_body (hd (in_time evs))]))"
  using await_reply [OF _ assms] await_replies [OF _ assms] by (cases "so_wait opt = ''replies''") (auto split: list.splits)

theorem await_outcomes_witness: "fst (await waiting_options 0 [Reply zero_Frame, CtxDone, Reply sample_user]) = exit_timeout"
  using await_outcomes [of waiting_options "[Reply zero_Frame, CtxDone, Reply sample_user]"]
  by (simp add: waiting_options_def default_options_def in_time_def is_user_reply_def zero_Frame_def TypeUser_def prod_eq_iff)

subsection \<open>What is left behind\<close>

lemma UnpublishSession_facts:
  assumes "UnpublishSession h pid = (r, h')"
  shows "same_host h h'" "\<not> h_fault h SysRemove (sessionEntryPath h pid) \<Longrightarrow> h_fs h' (sessionEntryPath h pid) = None"
  using assms
  by (auto simp: UnpublishSession_def os_remove_def intro: same_host_ops(3) split: sum.splits os_error.splits if_splits option.splits)
    (auto simp: same_host_def)

lemma Close_facts:
  assumes "Close s h = (s', h')" "\<not> closed s" "\<And>p. \<not> h_fault h SysRemove p"
  shows "h_fs h' (path s) = None" "h_fs h q = None \<Longrightarrow> h_fs h' q = None"
proof -
  let ?h1 = "unlink (unlink h (path s)) (path s)"
  have g: "h_fs ?h1 (path s) = None" using unlink_gone same_hostD(10) [OF unlink_same] assms(3) by metis
  have k: "h_fs (unlink x p) q = None" if "h_fs x q = None" for x p q
    using that unlink_other unlink_gone by (metis (no_types) unlink_def os_remove_def sum.case)
  have r: "h_fs (snd (removeKey x pid p)) q = None" if "h_fs x q = None" for x pid p q
    using that by (auto simp: removeKey_def os_remove_def split: sum.splits os_error.splits if_splits option.splits)
  have h': "h' = (if PublishKey (cfg s) then snd (removeKey ?h1 (h_pid ?h1) (path s)) else ?h1)"
    using assms(1,2) by (auto simp: Close_def Let_def)
  show "h_fs h' (path s) = None" unfolding h' using g r by simp
  show "h_fs h q = None \<Longrightarrow> h_fs h' q = None" unfolding h' using k r by simp
qed

definition finished :: "nat option \<Rightarrow> bool" where
  "finished closer \<longleftrightarrow> (case closer of None \<Rightarrow> True | Some k \<Rightarrow> 3 \<le> k)"

lemma cleanup_finished:
  "finished closer \<Longrightarrow> \<not> closed s \<Longrightarrow> cleanup closer (Some s) entry h = cleanup None (Some s) entry h"
  by (auto simp: cleanup_def finished_def closing_steps_all split: option.splits)

text \<open>
  \<open>cleanup\<close> leaves out nothing that can happen: when the deferred call of \<open>Close\<close> has returned,
  whatever else was closing the inbox meanwhile, the host is one that some \<open>closer\<close> gives.
\<close>

lemma cleanup_covers:
  assumes "sv_step\<^sup>*\<^sup>* (sv_init s h) st" "\<not> closed s" "listening s" "CloseReturned b \<in> set (sv_calls st)"
  shows "\<exists>closer. sv_host st = cleanup closer (Some s) None h \<and> (b \<longrightarrow> closer = None)"
proof -
  have "closes_inv s h st"
    using serving.inv_steps [OF assms(1) sv_inv_init [OF assms(2,3)]] by (simp add: sv_inv_def)
  note c = closes_inv_facts [OF this assms(2)]
  show ?thesis
  proof (cases b)
    case True
    then have "Close s h = (sv_server st, sv_host st)" using c(4) assms(4) by simp
    then show ?thesis by (intro exI [of _ None]) (simp add: cleanup_def)
  next
    case False
    obtain k where "sv_host st = closing_steps k s h" using c(1) by blast
    then show ?thesis using False by (intro exI [of _ "Some k"]) (simp add: cleanup_def)
  qed
qed

lemma cleanup_facts:
  assumes "finished closer" "\<not> closed s" "\<And>p. \<not> h_fault h SysRemove p"
  shows "h_fs (cleanup closer (Some s) entry h) (path s) = None"
    "entry = Some e \<Longrightarrow> h_fs (cleanup closer (Some s) entry h) (sessionEntryPath h (EPID e)) = None"
  unfolding cleanup_finished [OF assms(1,2)]
proof -
  define h1 where "h1 = (case entry of None \<Rightarrow> h | Some e \<Rightarrow> snd (UnpublishSession h (EPID e)))"
  have "same_host h h1" using UnpublishSession_facts(1) [OF prod.collapse [symmetric]] by (auto simp: h1_def split: option.splits)
  then have f: "\<not> h_fault h1 SysRemove p" for p using assms(3) same_hostD(10) by metis
  note c = Close_facts [OF prod.collapse [symmetric] assms(2) f]
  show "h_fs (cleanup None (Some s) entry h) (path s) = None" using c(1) by (simp add: cleanup_def Let_def h1_def)
  assume e: "entry = Some e"
  then have "h_fs h1 (sessionEntryPath h (EPID e)) = None"
    using UnpublishSession_facts(2) [OF prod.collapse [symmetric]] assms(3) by (simp add: h1_def)
  then show "h_fs (cleanup None (Some s) entry h) (sessionEntryPath h (EPID e)) = None"
    using c(2) e by (simp add: cleanup_def Let_def h1_def)
qed

text \<open>A run that got as far as the inbox.\<close>

lemma send_opened:
  assumes "resolve h opt = Inr t0" "t = final_target opt t0"
    and "TPID t = 0 \<or> TProcStart t = [] \<or> Alive h (TPID t) (TProcStart t)"
    and "open_inbox env opt h = (outs, r, srv, entry, h1)"
  obtains a ns where "if so_wait opt = ''none'' then (a, ns) = (AnySender, []) else (a, ns) = accepter t (so_anySender opt)"
    "send env opt msg h =
      (case r of
         Some e \<Rightarrow> \<lparr>sr_code = exit_error, sr_out = progress opt ns @ outs @ [Complain e], sr_heard = inbox_output env opt a srv, sr_client = None,
                     sr_host = cleanup (se_closer env) srv entry h1\<rparr>
       | None \<Rightarrow> send_from env opt msg t a (progress opt ns @ outs) srv entry (send_mode h) h1)"
proof -
  obtain a ns where a: "(if so_wait opt = ''none'' then (AnySender, []) else accepter t (so_anySender opt)) = (a, ns)" by force
  have alive: "(TPID t \<noteq> 0 \<and> TProcStart t \<noteq> [] \<and> \<not> Alive h (TPID t) (TProcStart t)) = False" using assms(3) by blast
  have "send env opt msg h =
      (case r of
         Some e \<Rightarrow> \<lparr>sr_code = exit_error, sr_out = progress opt ns @ outs @ [Complain e], sr_heard = inbox_output env opt a srv, sr_client = None,
                     sr_host = cleanup (se_closer env) srv entry h1\<rparr>
       | None \<Rightarrow> send_from env opt msg t a (progress opt ns @ outs) srv entry (send_mode h) h1)"
    unfolding send_def assms(1) sum.case Let_def assms(2) [symmetric] a alive assms(4) by (simp split: option.split)
  then show thesis using a by (intro that) (auto split: if_splits)
qed

lemma send_from_host: "sr_host (send_from env opt text t a outs srv entry mode h) = cleanup (se_closer env) srv entry h"
  by (auto simp: send_from_def Let_def split: sum.split prod.split)

lemma open_inbox_server:
  assumes "open_inbox env opt h = (outs, r, Some s, entry, h1)"
  shows "\<not> closed s" "cfg s = send_config opt" "so_wait opt \<noteq> ''none''"
proof -
  obtain h0 where "Listen (se_inbox env) (send_config opt) h = (Inr s, h0)"
    using assms by (auto simp: open_inbox_def split: if_splits prod.splits sum.splits)
  then show "\<not> closed s" "cfg s = send_config opt" using Listen_bound by metis+
  show "so_wait opt \<noteq> ''none''" using assms by (auto simp: open_inbox_def split: if_splits)
qed

text \<open>
  (C33) However the command ends, with an answer, a timeout or any error after the inbox was
  bound, it leaves neither the socket of the inbox nor a registry entry behind, on a host that lets it remove files
  and provided the closing goroutine, if it was first to close the inbox, got to its end before
  the process exits.
\<close>

theorem send_leaves_nothing_behind:
  assumes "resolve h opt = Inr t0" "t = final_target opt t0"
    and "TPID t = 0 \<or> TProcStart t = [] \<or> Alive h (TPID t) (TProcStart t)"
    and "open_inbox env opt h = (outs, r, Some s, entry, h1)" "\<And>p. \<not> h_fault h1 SysRemove p"
    and "finished (se_closer env)"
  shows "h_fs (sr_host (send env opt msg h)) (path s) = None
    \<and> (\<forall>e. entry = Some e \<longrightarrow> h_fs (sr_host (send env opt msg h)) (sessionEntryPath h1 (EPID e)) = None)"
proof -
  have "sr_host (send env opt msg h) = cleanup (se_closer env) (Some s) entry h1"
    by (rule send_opened [OF assms(1-4), of msg]) (auto simp: send_from_host split: option.split)
  then show ?thesis using cleanup_facts [OF assms(6) open_inbox_server(1) [OF assms(4)] assms(5), of entry] by auto
qed

definition quick_options :: send_options where
  "quick_options = default_options\<lparr>so_toSocket := ''/x''\<rparr>"

definition quick_env :: send_env where
  "quick_env = \<lparr>se_stat = Inl ENOENT, se_stdin = Inr [], se_inbox = sample_rnd, se_session = [], se_tmp = [],
     se_msg = replicate 16 0, se_fails = (\<lambda>_. False), se_events = [], se_closer = None\<rparr>"

lemma Listen_quick:
  "\<exists>s. Listen sample_rnd (send_config quick_options) dir_host = (Inr s, bound_host) \<and> path s = sample_path"
proof -
  have cp: "choose_path sample_rnd (send_config quick_options) dir_host = (Inr sample_path, dir_host)"
    using dir_host_path by (simp add: choose_path_def send_config_def sample_server_def)
  have ne: "sample_path \<noteq> inbox_dir" by (simp add: sample_path_eq inbox_dir_eq)
  have st: "os_stat dir_host sample_path = Inl ENOENT"
    using ne by (simp add: os_stat_def dir_host_def inbox_host_def idle_host_def)
  obtain h2 where l: "net_listen dir_host sample_path = Inr h2" "os_chmod h2 sample_path 384 = Inr bound_host"
    using ne
    by (auto simp: net_listen_def os_chmod_def dir_host_def inbox_host_def idle_host_def bound_host_def
        maxSocketPath_def sample_path_eq)
  show ?thesis
    by (simp add: Listen_def cp st l) (simp add: send_config_def quick_options_def default_options_def)
qed

lemma quick_resolve:
  "resolve h quick_options = Inr \<lparr>TPID = 0, SocketPath = ''/x'', TToken = [], TProcStart = [], Unauthenticated = False\<rparr>"
proof -
  have "path_base ''/x'' = ''x''" by (simp add: path_base_def)
  moreover have "cut_suffix ''.sock'' ''x'' = None" by (cases "cut_suffix ''.sock'' ''x''") auto
  then have "PIDFromSocketName ''x'' = None" by (simp add: PIDFromSocketName_def validSocketName_def dialNameRe_def)
  ultimately show ?thesis by (simp add: resolve_def quick_options_def)
qed

theorem send_leaves_nothing_behind_witness:
  "h_fs (sr_host (send quick_env quick_options ''hi'' dir_host)) sample_path = None"
proof -
  obtain s where l: "Listen sample_rnd (send_config quick_options) dir_host = (Inr s, bound_host)" "path s = sample_path"
    using Listen_quick by blast
  have o: "open_inbox quick_env quick_options dir_host = ([Note (InboxAt sample_path)], None, Some s, None, bound_host)"
    using l by (simp add: open_inbox_def announce_entry_def quick_env_def progress_def)
      (simp add: quick_options_def default_options_def)
  have f: "\<not> h_fault bound_host SysRemove p" for p
    by (simp add: bound_host_def dir_host_def inbox_host_def idle_host_def)
  show ?thesis
    using send_leaves_nothing_behind [OF quick_resolve refl _ o f, of "''hi''"] l(2)
    by (auto simp: final_target_def quick_options_def default_options_def finished_def quick_env_def)
qed

subsection \<open>What the exit code says\<close>

definition complains :: "printed list \<Rightarrow> bool" where
  "complains outs \<longleftrightarrow> (\<exists>e. Complain e \<in> set outs)"

lemma complains_simps [simp]:
  "\<not> complains []" "complains (xs @ ys) \<longleftrightarrow> complains xs \<or> complains ys" "complains (Complain e # xs)"
  "complains (Line l # xs) \<longleftrightarrow> complains xs" "complains (Note n # xs) \<longleftrightarrow> complains xs" "\<not> complains (progress opt ns)"
  by (auto simp: complains_def progress_def)

lemma exit_codes_distinct:
  "exit_error \<noteq> exit_no_target" "exit_ok \<notin> {exit_error, exit_no_target}" "exit_timeout \<notin> {exit_error, exit_no_target}"
  by (simp_all add: exit_ok_def exit_error_def exit_timeout_def exit_no_target_def)

lemma await_quiet: "await opt n evs = (code, outs) \<Longrightarrow> code \<in> {exit_ok, exit_timeout} \<and> \<not> complains outs"
  by (induction opt n evs arbitrary: code outs rule: await.induct)
    (auto simp: await_end_def Let_def split: prod.splits if_splits)

lemma open_inbox_quiet: "open_inbox env opt h = (outs, r, srv, entry, h1) \<Longrightarrow> \<not> complains outs"
  by (auto simp: open_inbox_def announce_entry_def split: if_splits sum.splits prod.splits option.splits)

lemma send_from_codes:
  assumes "\<not> complains outs"
  shows "sr_code (send_from env opt text t a outs srv entry mode h) \<in> {exit_ok, exit_error, exit_timeout}
    \<and> (sr_code (send_from env opt text t a outs srv entry mode h) = exit_error
        \<longleftrightarrow> complains (sr_out (send_from env opt text t a outs srv entry mode h)))"
  using assms exit_codes_distinct
  by (auto simp: send_from_def Let_def split: sum.split prod.split dest: await_quiet)

text \<open>
  (C35) A script can tell the outcomes apart. A send ends with 0, 1, 4 or 6. A complaint is printed
  exactly when the code is 1 or 6; and 6 says that the target was not there and nothing was
  opened, written or changed: no connection, and the host as it was.
\<close>

theorem send_exit_codes:
  "sr_code (send env opt msg h) \<in> {exit_ok, exit_error, exit_timeout, exit_no_target}
   \<and> (complains (sr_out (send env opt msg h)) \<longleftrightarrow> sr_code (send env opt msg h) \<in> {exit_error, exit_no_target})
   \<and> (sr_code (send env opt msg h) = exit_no_target
        \<longleftrightarrow> (\<exists>e. send env opt msg h = stopped exit_no_target [Complain e] h))"
proof (cases "resolve h opt")
  case (Inl e)
  then show ?thesis by (simp add: send_def stopped_def)
next
  case (Inr t0)
  define t where "t = final_target opt t0"
  obtain outs r srv entry h1 where o: "open_inbox env opt h = (outs, r, srv, entry, h1)" by (metis prod.exhaust)
  show ?thesis
  proof (cases "TPID t = 0 \<or> TProcStart t = [] \<or> Alive h (TPID t) (TProcStart t)")
    case False
    then show ?thesis using Inr by (simp add: send_def stopped_def Let_def flip: t_def)
  next
    case True
    obtain a ns where s: "send env opt msg h = (case r of
         Some e \<Rightarrow> \<lparr>sr_code = exit_error, sr_out = progress opt ns @ outs @ [Complain e], sr_heard = inbox_output env opt a srv, sr_client = None,
                     sr_host = cleanup (se_closer env) srv entry h1\<rparr>
       | None \<Rightarrow> send_from env opt msg t a (progress opt ns @ outs) srv entry (send_mode h) h1)"
      by (rule send_opened [OF Inr t_def True o])
    have "\<not> complains (progress opt ns @ outs)" using open_inbox_quiet [OF o] by simp
    note f = send_from_codes [OF this, of env opt msg t a srv entry "send_mode h" h1]
    have c: "sr_code (send env opt msg h) \<in> {exit_ok, exit_error, exit_timeout}"
      "sr_code (send env opt msg h) = exit_error \<longleftrightarrow> complains (sr_out (send env opt msg h))"
      using f unfolding s by (cases r; auto)+
    moreover have "sr_code (stopped exit_no_target [Complain e] h) = exit_no_target" for e by (simp add: stopped_def)
    ultimately show ?thesis using exit_codes_distinct by (metis (no_types, lifting) insert_iff empty_iff)
  qed
qed

subsection \<open>An answer\<close>

lemma SendUser_Inr:
  assumes "SendUser rnd c u = (Inr i, c')"
  obtains f where "fst (BuildUserFrame rnd u) = Inr f" "send_users c [(rnd, u)] = Some (c', [f])"
  using assms by (cases "BuildUserFrame rnd u") (auto simp: SendUser_def split: sum.splits)

text \<open>One message, from a client that dialled with the inbox token to the handler of the inbox.\<close>

lemma one_message_arrives:
  assumes "Dial h fails t = Inr c0" "TToken t \<noteq> []" "toValid (TToken t) = token s" "SendUser rnd c0 u = (Inr i, c)"
    and "UAttribution u = Some cs" "validString (UText u)"
    and "map snd (c_in conn) = out c" "snd (c_end conn) = EOF" "prompt s now conn"
    and "peerCred h' cred = Inr p" "has_OnUser (CHandler (cfg s))"
  obtains f where "handleConn s h' cred now conn = [OnUser (p\<lparr>Addr := path s, Authed := True\<rparr>) f]"
    "Type f = TypeUser" "Unwrap (Text f) = (attributed cs, UText u, True)"
proof -
  obtain f where f: "fst (BuildUserFrame rnd u) = Inr f" "send_users c0 [(rnd, u)] = Some (c, [f])"
    using SendUser_Inr [OF assms(4)] by blast
  obtain u' where b: "BuildUserFrame rnd u = (Inr f, u')" using f(1) by (cases "BuildUserFrame rnd u") simp
  have "Type (received f) = TypeUser"
    using BuildUserFrame_complete [OF b] by (simp add: received_def norm_Frame_def TypeUser_def toValid_ascii)
  then show thesis
    using that dial_and_send [OF assms(1-3) f(2) assms(7-11)] built_text [OF b assms(5,6)] by simp
qed

text \<open>
  (C14) An answer gets back to whoever asked. The command waits for a reply; the process it wrote to
  dials the inbox with its token and sends a message. Then the command exits 0 and prints that
  message, without its envelope, as its one line of output, whatever other processes sent to the
  inbox before and whoever writes to it afterwards.
\<close>

theorem claude_reply_printed:
  assumes "resolve h opt = Inr t0" "t = final_target opt t0"
    and "TPID t = 0 \<or> TProcStart t = [] \<or> Alive h (TPID t) (TProcStart t)"
    and "open_inbox env opt h = (outs, None, Some s, entry, h1)" "sr_code (send env opt msg h) \<noteq> exit_error"
    and "so_wait opt = ''reply''" "\<not> so_jsonOut opt" "\<not> so_anySender opt" "addressed t \<noteq> 0"
    and "Dial hp fails tp = Inr d0" "TToken tp \<noteq> []" "toValid (TToken tp) = token s" "SendUser rnd d0 u = (Inr i, d)"
    and "UAttribution u = Some cs" "validString (UText u)"
    and "map snd (c_in conn) = out d" "snd (c_end conn) = EOF" "prompt s now conn"
    and "peerCred h1 cred = Inr p" "Identified p" "PID p = addressed t"
    and "se_events env = before @ handleConn s h1 cred now conn @ later"
    and "filter (may_answer t False) (user_calls before) = []"
  shows "sr_code (send env opt msg h) = exit_ok \<and> stdout (sr_out (send env opt msg h)) = [UText u]"
proof -
  note i = open_inbox_server [OF assms(4)]
  have "has_OnUser (CHandler (cfg s))" using i(2) by (simp add: send_config_def)
  then obtain f where f: "handleConn s h1 cred now conn = [OnUser (p\<lparr>Addr := path s, Authed := True\<rparr>) f]"
    "Type f = TypeUser" "Unwrap (Text f) = (attributed cs, UText u, True)"
    using one_message_arrives [OF assms(10-19)] by blast
  have may: "may_answer t False (p\<lparr>Addr := path s, Authed := True\<rparr>, f)" using assms(20,21) by (simp add: may_answer_def)
  obtain a ns where "if so_wait opt = ''none'' then (a, ns) = (AnySender, []) else (a, ns) = accepter t (so_anySender opt)"
    and "send env opt msg h = (case None of
         Some e \<Rightarrow> \<lparr>sr_code = exit_error, sr_out = progress opt ns @ outs @ [Complain e], sr_heard = inbox_output env opt a (Some s), sr_client = None,
                     sr_host = cleanup (se_closer env) (Some s) entry h1\<rparr>
       | None \<Rightarrow> send_from env opt msg t a (progress opt ns @ outs) (Some s) entry (send_mode h) h1)"
    by (rule send_opened [OF assms(1-4)])
  then have a: "(a, ns) = accepter t False"
    and se: "send env opt msg h = send_from env opt msg t a (progress opt ns @ outs) (Some s) entry (send_mode h) h1"
    using assms(6,8) by simp_all
  obtain hs fs where hf: "heard opt a False (se_events env) = (hs, fs)" by force
  have "fs = map snd (filter (may_answer t False) (user_calls (se_events env)))"
    using heard_addressed [of opt t False False "se_events env"] hf by (simp flip: a)
  then obtain fs' where fs: "fs = f # fs'" using assms(22,23) f(1) may by simp
  obtain ls where aw: "await opt 0 (map Reply fs) = (exit_ok, ls)" "stdout ls = [UText u]"
    using f(2,3) assms(6,7) fs by simp
  have o: "stdout outs = []"
    using assms(4) by (auto simp: open_inbox_def announce_entry_def split: if_splits sum.splits prod.splits option.splits)
  show ?thesis
    using assms(5,6) aw hf o unfolding se by (auto simp: send_from_def Let_def split: sum.splits prod.splits)
qed

lemma send_from_sent:
  assumes "Dial h (se_fails env) t = Inr c"
    and "SendUser (se_msg env) c (send_user opt h mode (ServerAddr s) msg) = (Inr j, c')"
  shows "sr_code (send_from env opt msg t a outs (Some s) entry mode h) \<noteq> exit_error"
  using assms exit_codes_distinct by (auto simp: send_from_def Let_def split: prod.split dest: await_quiet)

text \<open>A message of ordinary size is always sent.\<close>

lemma small_user_sent:
  assumes "\<And>n. \<not> wfail c n" "length rnd = 16" "UMsgID u = []" "UPriority u = []" "UFrom u = [] \<or> validAddress (UFrom u)"
    and "UAttribution u = Some cs" "length (cs_Name cs) \<le> 1000" "length (UText u) \<le> 1000"
    and "length (UFrom u) \<le> 1000" "length (UFromMode u) \<le> 1000"
  shows "\<exists>i c'. SendUser rnd c u = (Inr i, c')"
proof -
  define f where "f = \<lparr>MsgV = msgVersion, Type = TypeUser, MsgID = newMsgID rnd, From = UFrom u, FromMode = UFromMode u,
     Priority = priorityNext, Token = [], Message = Some \<lparr>Role = ''user'', Content = Wrap cs (UText u)\<rparr>, Raw = []\<rparr>"
  have "msgIDPattern (newMsgID rnd)" using uuid_format_pattern assms(2) by (simp add: newMsgID_def newUUID_def Let_def)
  then have b: "fst (BuildUserFrame rnd u) = Inr f"
    using assms(3-6) by (auto simp: BuildUserFrame_def Let_def f_def priorityNext_def)
  have "length (marshalFrame f) < MaxLineBytes"
    using length_user_frame [of f "Wrap cs (UText u)"] length_Wrap [of cs "UText u"] length_newMsgID [OF assms(2)] assms(7-10)
    by (simp add: f_def MaxLineBytes_def priorityNext_def)
  then show ?thesis
    using b small_send [OF _ assms(1)] by (cases "BuildUserFrame rnd u") (simp add: SendUser_def)
qed

definition asking_options :: send_options where
  "asking_options = default_options\<lparr>so_toSocket := ''/tmp/7.sock'', so_noAuth := True, so_name := ''me''\<rparr>"

definition asked_target :: Target where
  "asked_target = \<lparr>TPID = 7, SocketPath = ''/tmp/7.sock'', TToken = [], TProcStart = [], Unauthenticated = True\<rparr>"

lemma pid_of_seven: "PIDFromSocketName (path_base ''/tmp/7.sock'') = Some 7"
proof -
  have "itoa 7 = ''7''" by (simp add: itoa_def nat_dec.simps byte_char_eq_iff)
  then have "path_base ''/tmp/7.sock'' = session_name 7"
    using path_base_join [of "''7.sock''" "''/tmp''"] by (simp add: session_name_def)
  then show ?thesis using pid_of_session_name [of 7] by simp
qed

lemma asking_resolves: "\<exists>t0. resolve dir_host asking_options = Inr t0 \<and> final_target asking_options t0 = asked_target"
proof -
  obtain name where n: "keyFileName dir_host 7 ''/tmp/7.sock'' = Inr name"
    using keyFileName_total [of dir_host "''/''"] by (auto simp: dir_host_def inbox_host_def idle_host_def)
  then obtain a where "name = itoa 7 @ ''.'' @ hexEncode (sha256_Sum256 a) @ ''.key''"
    using keyFileName_shape [OF n] by (elim exE)
  then have "CHR ''.'' \<in> set name" by simp
  moreover have "path_base (path_join [sessionsDir dir_host, name]) = name"
    using path_base_path_join [OF keyFileName_plain(1) [OF n]] .
  moreover have "path_base inbox_dir = ''cc-socks''" by (simp add: inbox_dir_eq path_base_def)
  ultimately have "path_join [sessionsDir dir_host, name] \<noteq> inbox_dir" by auto
  then have "ReadKey dir_host 7 ''/tmp/7.sock'' = Inr None"
    using n by (simp add: ReadKey_def os_stat_def dir_host_def inbox_host_def idle_host_def)
  then show ?thesis
    by (simp add: resolve_def asking_options_def default_options_def pid_of_seven final_target_def asked_target_def)
qed

lemma asking_facts:
  "so_wait asking_options = ''reply''" "\<not> so_jsonOut asking_options" "\<not> so_anySender asking_options" "addressed asked_target = 7"
  "TPID asked_target = 0 \<or> TProcStart asked_target = [] \<or> Alive dir_host (TPID asked_target) (TProcStart asked_target)"
  by (simp_all add: asking_options_def default_options_def addressed_def asked_target_def)

lemma asking_opens:
  obtains s where "path s = sample_path" "token s = ''01''" "cfg s = send_config asking_options"
    "\<And>env. se_inbox env = sample_rnd
      \<Longrightarrow> open_inbox env asking_options dir_host = ([Note (InboxAt sample_path)], None, Some s, None, bound_host)"
proof -
  have oc: "send_config asking_options = send_config quick_options"
    by (simp add: send_config_def asking_options_def quick_options_def default_options_def)
  obtain s where l: "Listen sample_rnd (send_config asking_options) dir_host = (Inr s, bound_host)" "path s = sample_path"
    unfolding oc using Listen_quick by blast
  have "token s = newToken [1]" by (rule Listen_bound [OF l(1)]) (simp add: sample_rnd_def)
  moreover have "newToken [1] = ''01''" unfolding newToken_def by code_simp
  moreover have "cfg s = send_config asking_options" by (rule Listen_bound [OF l(1)]) simp
  moreover have "open_inbox env asking_options dir_host = ([Note (InboxAt sample_path)], None, Some s, None, bound_host)"
    if "se_inbox env = sample_rnd" for env
    using l that by (simp add: open_inbox_def announce_entry_def progress_def) (simp add: asking_options_def default_options_def)
  ultimately show thesis using that l(2) by simp
qed

lemma asking_sends:
  assumes "path s = sample_path" "se_fails env = (\<lambda>_. False)" "se_msg env = replicate 16 0"
    and "open_inbox env asking_options dir_host = (outs, None, Some s, None, bound_host)"
    and "resolve dir_host asking_options = Inr t0" "asked_target = final_target asking_options t0"
  shows "sr_code (send env asking_options ''hi'' dir_host) \<noteq> exit_error"
proof -
  let ?u = "send_user asking_options bound_host (send_mode dir_host) (ServerAddr s) ''hi''"
  let ?c = "\<lparr>target = asked_target, out = [], copen = True, writes = 0, wfail = (\<lambda>_. False)\<rparr>"
  have "\<not> h_fault bound_host q x" for q x by (simp add: bound_host_def dir_host_def inbox_host_def idle_host_def)
  then have dial: "Dial bound_host (se_fails env) asked_target = Inr ?c" using assms(2) by (simp add: Dial_def asked_target_def)
  have "validAddress (udsAddress sample_path)" unfolding sample_path_eq by code_simp
  then have "\<exists>i c'. SendUser (se_msg env) ?c ?u = (Inr i, c')"
    by (intro small_user_sent [where cs = "\<lparr>cs_From = ServerAddr s, cs_Name = ''me'', cs_Mode = send_mode dir_host\<rparr>"])
      (auto simp: send_user_def Let_def ServerAddr_def assms(1,3) asking_options_def default_options_def waiting_note_def
        send_mode_def DetectParentMode_def ModePrompting_def udsAddress_def sample_path_eq schemeUDS_def split: sum.splits option.splits)
  then have "sr_code (send_from env asking_options ''hi'' asked_target a os (Some s) None (send_mode dir_host) bound_host) \<noteq> exit_error" for a os
    using send_from_sent [OF dial] by blast
  then show ?thesis
    using send_opened [OF assms(5,6) asking_facts(5) assms(4), of "''hi''"] by (metis option.case(1))
qed

lemma named_facts:
  "UMsgID named_message = []" "UPriority named_message = []" "UFrom named_message = []" "UFromMode named_message = []"
  "UAttribution named_message = Some \<lparr>cs_From = [], cs_Name = ''me'', cs_Mode = []\<rparr>" "UText named_message = ''hi''"
  by (simp_all add: named_message_def sample_message_def)

definition answered_target :: Target where
  "answered_target = \<lparr>TPID = 0, SocketPath = sample_path, TToken = ''01'', TProcStart = [], Unauthenticated = False\<rparr>"

lemma answer_sent:
  obtains d0 i d where "Dial idle_host (\<lambda>_. False) answered_target = Inr d0" "SendUser (replicate 16 0) d0 named_message = (Inr i, d)"
proof -
  have "length (marshalFrame (auth_frame ''01'')) < MaxLineBytes"
    using length_json_quote [of "''type''"] length_json_quote [of "''auth''"] length_json_quote [of "''token''"]
      length_json_quote [of "''01''"]
    by (simp add: marshalFrame_def json_of_Frame_def auth_frame_def zero_Frame_def omit_int_def omit_str_def
        jmember_def TypeAuth_def MaxLineBytes_def)
  then obtain d0 where d0: "Dial idle_host (\<lambda>_. False) answered_target = Inr d0" "\<And>n. \<not> wfail d0 n"
    by (auto simp: Dial_def Let_def small_send answered_target_def idle_host_def)
  then show thesis
    using that small_user_sent [OF d0(2), of "replicate 16 0" named_message] named_facts by auto
qed

text \<open>The answer comes from process 7, on a connection that dialled with the token of the inbox.\<close>

theorem claude_reply_printed_witness:
  "\<exists>env. sr_code (send env asking_options ''hi'' dir_host) = exit_ok
     \<and> stdout (sr_out (send env asking_options ''hi'' dir_host)) = [''hi'']"
proof -
  obtain s where s: "path s = sample_path" "token s = ''01''" "cfg s = send_config asking_options"
    and o: "\<And>env. se_inbox env = sample_rnd
      \<Longrightarrow> open_inbox env asking_options dir_host = ([Note (InboxAt sample_path)], None, Some s, None, bound_host)"
    using asking_opens by metis
  obtain t0 where t: "resolve dir_host asking_options = Inr t0" "asked_target = final_target asking_options t0"
    using asking_resolves by metis
  obtain d0 i d where d: "Dial idle_host (\<lambda>_. False) answered_target = Inr d0"
    "SendUser (replicate 16 0) d0 named_message = (Inr i, d)" using answer_sent by blast
  let ?evs = "handleConn s bound_host (LinuxCred 7 1000 1000) 0 (sent_conn (out d))"
  define env where "env = quick_env\<lparr>se_events := ?evs\<rparr>"
  have e: "se_inbox env = sample_rnd" "se_events env = [] @ ?evs @ []" "se_fails env = (\<lambda>_. False)" "se_msg env = replicate 16 0"
    by (simp_all add: env_def quick_env_def)
  have tok: "TToken answered_target \<noteq> []" "toValid (TToken answered_target) = token s"
    using s(2) by (simp_all add: toValid_ascii answered_target_def)
  have v: "validString (UText named_message)" by (simp add: named_facts validString_ascii)
  have c: "map snd (c_in (sent_conn (out d))) = out d" "snd (c_end (sent_conn (out d))) = EOF" "prompt s 0 (sent_conn (out d))"
    by (simp_all add: sent_conn_def comp_def prompt_def deadline_of_def s(3) send_config_def FirstLineTimeout_def list_all_iff)
  have p: "peerCred bound_host (LinuxCred 7 1000 1000) = Inr (peerCred_linux bound_host 7 1000 1000)"
    "Identified (peerCred_linux bound_host 7 1000 1000)" "PID (peerCred_linux bound_host 7 1000 1000) = addressed asked_target"
    by (simp_all add: peerCred_def peerCred_linux_def asking_facts(4))
  have a: "addressed asked_target \<noteq> 0" by (simp add: asking_facts(4))
  from claude_reply_printed [OF t asking_facts(5) o [OF e(1)] asking_sends [OF s(1) e(3,4) o [OF e(1)] t] asking_facts(1-3)
      a d(1) tok d(2) named_facts(5) v c p e(2)]
  show ?thesis by (auto simp: named_facts)
qed

subsection \<open>A timeout can leave the inbox behind\<close>

lemma send_from_unanswered:
  assumes "sr_code (send_from env opt msg t a outs srv entry mode h) \<noteq> exit_error"
    and "so_wait opt = ''reply''" "se_events env = []"
  shows "sr_code (send_from env opt msg t a outs srv entry mode h) = exit_timeout"
  using assms by (auto simp: send_from_def Let_def await_end_def split: sum.splits prod.splits)

text \<open>
  The proviso is needed. A timeout ends the context, so the goroutine of \<open>Serve\<close> and the
  deferred call close the same inbox; when the goroutine is first, the deferred call returns at
  once, and the process may exit before anything is removed: the socket stays.
\<close>

theorem timeout_can_leave_inbox:
  "sr_code (send (quick_env\<lparr>se_closer := Some 0\<rparr>) asking_options ''hi'' dir_host) = exit_timeout
   \<and> h_fs (sr_host (send (quick_env\<lparr>se_closer := Some 0\<rparr>) asking_options ''hi'' dir_host)) sample_path \<noteq> None"
proof -
  let ?e = "quick_env\<lparr>se_closer := Some 0\<rparr>"
  obtain s where s: "path s = sample_path"
    and o: "\<And>env. se_inbox env = sample_rnd
      \<Longrightarrow> open_inbox env asking_options dir_host = ([Note (InboxAt sample_path)], None, Some s, None, bound_host)"
    using asking_opens by metis
  obtain t0 where t: "resolve dir_host asking_options = Inr t0" "asked_target = final_target asking_options t0"
    using asking_resolves by metis
  have e: "se_inbox ?e = sample_rnd" "se_fails ?e = (\<lambda>_. False)" "se_msg ?e = replicate 16 0" "se_events ?e = []"
    by (simp_all add: quick_env_def)
  have ne: "sr_code (send ?e asking_options ''hi'' dir_host) \<noteq> exit_error"
    by (rule asking_sends [OF s e(2,3) o [OF e(1)] t])
  obtain a outs where f: "send ?e asking_options ''hi'' dir_host
      = send_from ?e asking_options ''hi'' asked_target a outs (Some s) None (send_mode dir_host) bound_host"
    by (rule send_opened [OF t asking_facts(5) o [OF e(1)], of "''hi''"]) simp
  have "sr_code (send ?e asking_options ''hi'' dir_host) = exit_timeout"
    using send_from_unanswered [OF _ asking_facts(1) e(4)] ne unfolding f by blast
  moreover have "sr_host (send ?e asking_options ''hi'' dir_host) = bound_host"
    unfolding f send_from_host by (simp add: cleanup_def closing_steps_def)
  moreover have "h_fs bound_host sample_path \<noteq> None" by (simp add: bound_host_def)
  ultimately show ?thesis by simp
qed

end
