(* ===== verification/Codex_Progress.thy ===== *)
theory Codex_Progress
  imports Codex_Client
begin

text \<open>
  That the goroutines of a connection finish: every step they take by themselves, without a new
  call, a new \<open>Close\<close> or a context that ends, lowers a rank. The bytes the daemon sends over the
  life of the connection are a finite list, after which it either ends the connection or says
  nothing more; bytes that arrive late are bytes the reader is late to read. A silent daemon
  leaves the reader blocked and the calls it has not answered waiting, until \<open>Close\<close> or their
  contexts end them. A write either succeeds or fails: the kernel does not block one for ever.
\<close>

subsection \<open>The work under way\<close>

inductive settle :: "CodexClient \<Rightarrow> CodexClient \<Rightarrow> bool" where
  register: "phases s n = Prepared \<Longrightarrow> settle s (call_register n s)"
| writing: "phases s n = Registered \<Longrightarrow> settle s (call_write n s)"
| dropping: "phases s n = Dropping e \<Longrightarrow> settle s (call_drop n e s)"
| receive: "phases s n = Waiting \<Longrightarrow> chans s n \<noteq> ChEmpty \<Longrightarrow> settle s (call_receive n s)"
| read: "reader s = Reading \<Longrightarrow> settle s (readLoop s)"
| read_closed: "reader s \<in> {Reading, Blocked} \<Longrightarrow> \<not> ws_open (cws s)
    \<Longrightarrow> settle s (failClient (WsRead ErrClosed) (s\<lparr>reader := Stopped\<rparr>))"
| send: "reader s = Sending n m \<Longrightarrow> \<forall>m'. chans s n \<noteq> ChFull m' \<Longrightarrow> settle s (reader_send n m s)"
| fail_one: "closing s = Some C \<Longrightarrow> n \<in> C \<Longrightarrow> settle s (fail_close n s)"
| fail_end: "closing s = Some {} \<Longrightarrow> settle s (fail_done s)"
| close_socket: "0 < first_closers s \<Longrightarrow> settle s (close_first s)"
| close_again: "0 < late_closers s \<Longrightarrow> settle s (close_late s)"
| closed: "0 < closers s \<Longrightarrow> settle s (close_fail s)"

text \<open>Nothing else happens on a connection but a new call, a new \<open>Close\<close> and the end of a context.\<close>

lemma cstep_iff:
  "cstep s s' \<longleftrightarrow> settle s s'
     \<or> (\<exists>method params. started s + 1 < 2 ^ 64 \<and> s' = call_begin method params s)
     \<or> (\<exists>n. phases s n = Waiting \<and> s' = call_cancel n s) \<or> s' = close_begin s"
proof
  show "cstep s s'" if "settle s s' \<or> (\<exists>method params. started s + 1 < 2 ^ 64 \<and> s' = call_begin method params s)
     \<or> (\<exists>n. phases s n = Waiting \<and> s' = call_cancel n s) \<or> s' = close_begin s"
    using that by (auto intro: cstep.intros elim!: settle.cases)
next
  assume "cstep s s'"
  then show "settle s s' \<or> (\<exists>method params. started s + 1 < 2 ^ 64 \<and> s' = call_begin method params s)
     \<or> (\<exists>n. phases s n = Waiting \<and> s' = call_cancel n s) \<or> s' = close_begin s"
    by cases (auto intro: settle.intros)
qed

lemma settle_cstep: "settle s s' \<Longrightarrow> cstep s s'"
  using cstep_iff by blast

subsection \<open>The rank\<close>

fun phase_rank :: "phase \<Rightarrow> nat" where
  "phase_rank Prepared = 4"
| "phase_rank Registered = 3"
| "phase_rank Waiting = 2"
| "phase_rank (Dropping _) = 1"
| "phase_rank _ = 0"

fun reader_rank :: "reader_state \<Rightarrow> nat" where
  "reader_rank Reading = 2"
| "reader_rank (Sending _ _) = 3"
| "reader_rank Blocked = 1"
| "reader_rank Stopped = 0"

definition calls_rank :: "CodexClient \<Rightarrow> nat" where
  "calls_rank s = (\<Sum>n < started s. phase_rank (phases s n))"

definition fail_rank :: "CodexClient \<Rightarrow> nat" where
  "fail_rank s =
     (if cclosed s then (case closing s of None \<Rightarrow> 0 | Some C \<Rightarrow> card C + 1) else started s + 2)"

definition stream_rank :: "CodexClient \<Rightarrow> nat" where
  "stream_rank s = 2 * length (ws_in (cws s)) + reader_rank (reader s)"

definition close_rank :: "CodexClient \<Rightarrow> nat" where
  "close_rank s = 2 * first_closers s + late_closers s + closers s"

definition crank :: "CodexClient \<Rightarrow> nat" where
  "crank s = calls_rank s + fail_rank s + stream_rank s + close_rank s"

lemma started_cell:
  assumes "cinv s" "phases s n \<noteq> NotStarted"
  shows "n < started s"
  using cinvD(1) [OF assms(1)] assms(2) by (auto simp: ids_ok_def not_le [symmetric])

text \<open>One call goes on, nothing else changes.\<close>

lemma calls_rank_step:
  assumes "cinv s" "phases s n = p" "p \<noteq> NotStarted" "phase_rank q < phase_rank p"
    and "phases s' = (phases s)(n := q)" "started s' = started s"
  shows "calls_rank s' < calls_rank s"
proof -
  have n: "n \<in> {..<started s}" using started_cell [OF assms(1)] assms(2,3) by simp
  have "calls_rank s = phase_rank p + (\<Sum>i\<in>{..<started s} - {n}. phase_rank (phases s i))"
    using n assms(2) by (simp add: calls_rank_def sum.remove)
  moreover have "calls_rank s' = phase_rank q + (\<Sum>i\<in>{..<started s} - {n}. phase_rank (phases s i))"
    using n assms(5,6) by (simp add: calls_rank_def sum.remove)
  ultimately show ?thesis using assms(4) by simp
qed

lemma crank_call:
  assumes "cinv s" "phases s n = p" "p \<noteq> NotStarted" "phase_rank q < phase_rank p"
    and "phases s' = (phases s)(n := q)" "started s' = started s"
    and "cclosed s' = cclosed s" "closing s' = closing s" "stream_rank s' = stream_rank s" "close_rank s' = close_rank s"
  shows "crank s' < crank s"
  using calls_rank_step [OF assms(1-6)] assms(6-) by (simp add: crank_def fail_rank_def)

lemma rank_frame [simp]:
  "calls_rank (s\<lparr>reader := r\<rparr>) = calls_rank s" "fail_rank (s\<lparr>reader := r\<rparr>) = fail_rank s"
  "close_rank (s\<lparr>reader := r\<rparr>) = close_rank s"
  "calls_rank (s\<lparr>cws := w\<rparr>) = calls_rank s" "fail_rank (s\<lparr>cws := w\<rparr>) = fail_rank s"
  "close_rank (s\<lparr>cws := w\<rparr>) = close_rank s"
  "calls_rank (s\<lparr>closers := k\<rparr>) = calls_rank s" "fail_rank (s\<lparr>closers := k\<rparr>) = fail_rank s"
  "stream_rank (s\<lparr>closers := k\<rparr>) = stream_rank s"
  by (simp_all add: calls_rank_def fail_rank_def close_rank_def stream_rank_def cong: if_cong)

text \<open>The calls whose channels \<open>fail\<close> closes.\<close>

lemma tabled_started:
  assumes "cinv s"
  shows "ran (pending s) \<subseteq> {..<started s}"
proof
  fix n assume "n \<in> ran (pending s)"
  then obtain k where "pending s k = Some n" by (auto simp: ran_def)
  then have "tabled s n" using cinvD(3) [OF assms] by (auto simp: table_ok_def tabled_def)
  then have "in_table (phases s n)" using tabled_phase cinvD(2) [OF assms] by blast
  then have "phases s n \<noteq> NotStarted" by (auto simp: in_table_def)
  then show "n \<in> {..<started s}" using started_cell [OF assms] by simp
qed

lemma closing_started:
  assumes "cinv s" "closing s = Some C"
  shows "C \<subseteq> {..<started s}"
proof
  fix n assume "n \<in> C"
  then have "being_closed s n" using assms(2) by (simp add: being_closed_def)
  then have "phases s n \<noteq> NotStarted"
    using cell_at [OF cinvD(2) [OF assms(1)], of n] by (auto simp: cell_simps)
  then show "n \<in> {..<started s}" using started_cell [OF assms(1)] by simp
qed

lemma failClient_rank:
  assumes "ran (pending s) \<subseteq> {..<started s}"
  shows "fail_rank (failClient e s) \<le> fail_rank s"
proof -
  have "card (ran (pending s)) \<le> started s" using card_mono [OF _ assms] by simp
  then show ?thesis by (simp add: fail_rank_def failClient_def)
qed

lemma failClient_same [simp]:
  "started (failClient e s) = started s" "phases (failClient e s) = phases s" "cws (failClient e s) = cws s"
  "reader (failClient e s) = reader s" "first_closers (failClient e s) = first_closers s"
  "late_closers (failClient e s) = late_closers s" "closers (failClient e s) = closers s"
  "cclosed (failClient e s)"
  by (simp_all add: failClient_def)

lemma crank_fail:
  assumes "ran (pending s) \<subseteq> {..<started s}"
  shows "crank (failClient e s) \<le> crank s"
  using failClient_rank [OF assms, of e]
  by (simp add: crank_def calls_rank_def stream_rank_def close_rank_def)

subsection \<open>Every step of work lowers the rank\<close>

lemma write_line_in: "write_line w l = (r, w') \<Longrightarrow> ws_in w' = ws_in w"
  using writeFrame_in(1) [of w opText l]
  by (cases "ws_open w") (auto simp: write_line_def WriteText_def)

lemma write_line_frame: "write_line w l = (r, w') \<Longrightarrow> ws_end w' = ws_end w \<and> ws_open w' = ws_open w"
  using writeFrame_in(2,3) [of w opText l]
  by (cases "ws_open w") (auto simp: write_line_def WriteText_def)

lemma WsClose_in [simp]: "ws_in (WsClose w) = ws_in w"
  by (simp add: WsClose_def)

lemma crank_readLoop:
  assumes "cinv s" "reader s = Reading"
  shows "crank (readLoop s) < crank s"
proof -
  obtain r w where r: "ReadMessage (cws s) = (r, w)" by force
  show ?thesis
  proof (cases r)
    case (Inl e)
    let ?s = "s\<lparr>cws := w, reader := Stopped\<rparr>"
    have "ran (pending ?s) \<subseteq> {..<started ?s}" using tabled_started [OF assms(1)] by simp
    then have "crank (failClient e ?s) \<le> crank ?s" by (rule crank_fail)
    moreover have "length (ws_in w) \<le> length (ws_in (cws s))" using ReadMessage_effect(1) r Inl by blast
    ultimately show ?thesis
      using assms(2) r Inl by (simp add: readLoop_def crank_def stream_rank_def)
  next
    case (Inr p)
    have "length (ws_in w) < length (ws_in (cws s))" using ReadMessage_effect(2) r Inr by blast
    then show ?thesis
      using assms(2) r Inr
      by (auto simp: readLoop_def read_data_def Let_def crank_def calls_rank_def fail_rank_def stream_rank_def
          close_rank_def split: option.splits)
  qed
qed

lemma settle_rank:
  assumes "cinv s" "settle s s'"
  shows "crank s' < crank s"
  using assms(2)
proof cases
  case (register n)
  then show ?thesis
    by (intro crank_call [OF assms(1), of n Prepared "phases s' n"])
      (auto simp: call_register_def stream_rank_def close_rank_def)
next
  case (writing n)
  obtain r w where w: "write_line (cws s) (request_line (reqs s n)) = (r, w)" by force
  show ?thesis
    by (rule crank_call [OF assms(1), of n Registered "phases s' n"])
      (use writing w write_line_in [OF w] in \<open>auto simp: call_write_def stream_rank_def close_rank_def split: option.splits\<close>)
next
  case (dropping n e)
  then show ?thesis
    by (intro crank_call [OF assms(1), of n "Dropping e" "Finished (Inl e)"])
      (auto simp: call_drop_def stream_rank_def close_rank_def)
next
  case (receive n)
  then show ?thesis
    by (intro crank_call [OF assms(1), of n Waiting "phases s' n"])
      (auto simp: call_receive_def stream_rank_def close_rank_def split: chan.splits)
next
  case read
  then show ?thesis using crank_readLoop [OF assms(1)] by simp
next
  case read_closed
  let ?s = "s\<lparr>reader := Stopped\<rparr>"
  have "ran (pending ?s) \<subseteq> {..<started ?s}" using tabled_started [OF assms(1)] by simp
  then have "crank s' \<le> crank ?s" unfolding read_closed(1) by (rule crank_fail)
  then show ?thesis
    using read_closed(2) by (auto simp: crank_def stream_rank_def)
next
  case (send n m)
  have "chans s n = ChEmpty"
    using cell_at [OF cinvD(2) [OF assms(1)], of n] send(2) by (auto simp: cell_ok_def being_sent_def)
  then show ?thesis
    using send by (simp add: reader_send_def crank_def calls_rank_def fail_rank_def stream_rank_def close_rank_def)
next
  case (fail_one C n)
  have "chans s n = ChEmpty"
    using cell_at [OF cinvD(2) [OF assms(1)], of n] fail_one(2,3) by (auto simp: cell_ok_def being_closed_def)
  moreover have "cclosed s" using cinvD(5) [OF assms(1)] fail_one(2) by (auto simp: flags_ok_def)
  moreover have "finite C" using closing_started [OF assms(1) fail_one(2)] finite_subset by blast
  then have "card (C - {n}) < card C" using fail_one(3) by (rule card_Diff1_less)
  ultimately show ?thesis
    using fail_one(1,2)
    by (simp add: fail_close_def crank_def calls_rank_def fail_rank_def stream_rank_def close_rank_def)
next
  case fail_end
  have "cclosed s" "done_closes s = 0" using cinvD(5) [OF assms(1)] fail_end(2) by (auto simp: flags_ok_def)
  then show ?thesis
    using fail_end by (simp add: fail_done_def crank_def calls_rank_def fail_rank_def stream_rank_def close_rank_def)
next
  case close_socket
  then show ?thesis by (simp add: close_first_def crank_def calls_rank_def fail_rank_def stream_rank_def close_rank_def)
next
  case close_again
  then show ?thesis by (simp add: close_late_def crank_def calls_rank_def fail_rank_def stream_rank_def close_rank_def)
next
  case closed
  let ?s = "s\<lparr>closers := closers s - 1\<rparr>"
  have "ran (pending ?s) \<subseteq> {..<started ?s}" using tabled_started [OF assms(1)] by simp
  then have "crank s' \<le> crank ?s" unfolding closed(1) close_fail_def by (rule crank_fail)
  then show ?thesis
    using closed(2) by (simp add: crank_def close_rank_def)
qed

subsection \<open>How the end of a connection spreads\<close>

text \<open>
  The reader stops only after it has called \<open>fail\<close>, and blocks only on a silent daemon; a client
  is closed by its reader or by a \<open>Close\<close> that has closed the connection before.
\<close>

definition ends_ok :: "CodexClient \<Rightarrow> bool" where
  "ends_ok s \<longleftrightarrow> (reader s = Stopped \<longrightarrow> cclosed s)
     \<and> (reader s = Blocked \<longrightarrow> ws_end (cws s) = Silent)
     \<and> (cclosed s \<or> 0 < closers s \<longrightarrow> reader s = Stopped \<or> \<not> ws_open (cws s))"

definition live_inv :: "CodexClient \<Rightarrow> bool" where
  "live_inv s \<longleftrightarrow> cinv s \<and> ends_ok s"

lemma WsClose_end [simp]: "ws_end (WsClose w) = ws_end w" "\<not> ws_open (WsClose w)"
  by (simp_all add: WsClose_def)

lemma step_end: "cstep s s' \<Longrightarrow> ws_end (cws s') = ws_end (cws s)"
  by (induction rule: cstep.induct)
    (auto simp: call_begin_def Let_def call_register_def call_write_def call_cancel_def call_drop_def call_receive_def
      readLoop_def read_data_def reader_send_def fail_close_def fail_done_def close_begin_def close_first_def
      close_late_def close_fail_def
      dest: write_line_frame ReadMessage_effect(3)
      split: prod.splits sum.splits option.splits chan.splits if_splits)

lemma run_end: "cstep\<^sup>*\<^sup>* s s' \<Longrightarrow> ws_end (cws s') = ws_end (cws s)"
  by (induction rule: rtranclp_induct) (auto dest: step_end)

lemma ends_ok_readLoop:
  assumes "ends_ok s" "reader s = Reading"
  shows "ends_ok (readLoop s)"
proof -
  obtain r w where r: "ReadMessage (cws s) = (r, w)" by force
  note w = ReadMessage_effect(3) [OF r]
  show ?thesis
  proof (cases r)
    case (Inl e)
    then show ?thesis
      using assms r w ReadMessage_effect(4) [of "cws s" w] by (auto simp: readLoop_def ends_ok_def)
  next
    case (Inr d)
    then show ?thesis
      using assms r w
      by (auto simp: readLoop_def ends_ok_def read_data_def Let_def split: option.splits)
  qed
qed

lemma ends_ok_step:
  assumes "cstep s s'" "ends_ok s"
  shows "ends_ok s'"
  using assms(1)
proof cases
  case (writing n)
  obtain r w where w: "write_line (cws s) (request_line (reqs s n)) = (r, w)" by force
  show ?thesis
    using assms(2) write_line_frame [OF w] by (simp add: writing(1) call_write_def w ends_ok_def)
next
  case read
  then show ?thesis using ends_ok_readLoop [OF assms(2)] by simp
qed (use assms(2) in \<open>auto simp: ends_ok_def call_begin_def Let_def call_register_def call_cancel_def call_drop_def
  call_receive_def reader_send_def fail_close_def fail_done_def close_begin_def close_first_def close_late_def
  close_fail_def split: chan.splits\<close>)

lemma live_inv_new_client: "live_inv (new_client w)"
  by (simp add: live_inv_def cinv_new_client) (simp add: new_client_def ends_ok_def)

interpretation codex_work: ranked_system dialled cstep live_inv settle crank
  by unfold_locales
    (use live_inv_new_client in \<open>auto simp: dialled_def live_inv_def intro: settle_cstep settle_rank cinv_step ends_ok_step\<close>)

text \<open>A connection that was told to close stays so.\<close>

definition told_to_close :: "CodexClient \<Rightarrow> bool" where
  "told_to_close s \<longleftrightarrow> cclosed s \<or> 0 < first_closers s \<or> 0 < closers s"

lemma told_step: "settle s s' \<Longrightarrow> told_to_close s \<Longrightarrow> told_to_close s'"
  by (induction rule: settle.induct)
    (auto simp: told_to_close_def call_register_def call_write_def call_drop_def call_receive_def readLoop_def read_data_def
      Let_def reader_send_def fail_close_def fail_done_def close_first_def close_late_def close_fail_def
      split: prod.splits sum.splits option.splits chan.splits)

lemma told_steps: "settle\<^sup>*\<^sup>* s s' \<Longrightarrow> told_to_close s \<Longrightarrow> told_to_close s'"
  by (induction rule: rtranclp_induct) (auto dest: told_step)

subsection \<open>Where the work ends\<close>

lemma call_phases:
  obtains "p = NotStarted" | "p = Prepared" | "p = Registered" | "p = Waiting" | e where "p = Dropping e" | r where "p = Finished r"
  by (cases p) auto

text \<open>
  When no goroutine can take a step, either the reader has stopped and every call has returned, or
  the daemon is silent, the connection is open and the calls that have not returned are those
  whose answers have not come.
\<close>

lemma at_rest:
  assumes "live_inv s" "\<nexists>t. settle s t"
  shows "first_closers s = 0" "late_closers s = 0" "closers s = 0" "closing s = None"
    "reader s = Stopped \<and> cclosed s \<or> reader s = Blocked \<and> ws_end (cws s) = Silent \<and> ws_open (cws s) \<and> \<not> cclosed s"
    "n < started s \<Longrightarrow> (\<exists>r. phases s n = Finished r)
       \<or> reader s = Blocked \<and> phases s n = Waiting \<and> chans s n = ChEmpty \<and> tabled s n"
proof -
  have i: "cinv s" "ends_ok s" using assms(1) by (simp_all add: live_inv_def)
  have c: "cell_ok (phases s m) (chans s m) (tabled s m) (being_sent s m) (being_closed s m)" for m
    using cell_at [OF cinvD(2) [OF i(1)]] .
  show "first_closers s = 0" "late_closers s = 0" and k: "closers s = 0"
    using assms(2) settle.close_socket settle.close_again settle.closed by auto
  show cl: "closing s = None"
  proof (cases "closing s")
    case (Some C)
    then show ?thesis using assms(2) settle.fail_end settle.fail_one by (cases "C = {}") blast+
  qed
  have nr: "reader s \<noteq> Reading" using assms(2) settle.read by blast
  moreover have "reader s \<noteq> Sending m x" for m x
    using assms(2) settle.send [of s m x] c [of m] by (auto simp: cell_ok_def being_sent_def)
  ultimately have r: "reader s = Stopped \<or> reader s = Blocked" by (cases "reader s") auto
  have o: "ws_open (cws s)" if "reader s = Blocked" using assms(2) settle.read_closed [of s] that by blast
  show e: "reader s = Stopped \<and> cclosed s \<or> reader s = Blocked \<and> ws_end (cws s) = Silent \<and> ws_open (cws s) \<and> \<not> cclosed s"
    using r o i(2) by (auto simp: ends_ok_def)
  show "(\<exists>r. phases s n = Finished r)
      \<or> reader s = Blocked \<and> phases s n = Waiting \<and> chans s n = ChEmpty \<and> tabled s n" if "n < started s"
  proof (cases "phases s n" rule: call_phases)
    case 1
    then show ?thesis using cinvD(1) [OF i(1)] that by (auto simp: ids_ok_def not_le [symmetric])
  next
    case 4
    have ch: "chans s n = ChEmpty" using assms(2) settle.receive [OF 4] by blast
    moreover have "\<not> being_sent s n" "\<not> being_closed s n" using r cl by (auto simp: being_sent_def being_closed_def)
    ultimately have t: "tabled s n" using c [of n] 4 by (simp add: cell_ok_def)
    moreover have "\<not> tabled s n" if "cclosed s" using cinvD(5) [OF i(1)] that by (simp add: flags_ok_def tabled_def)
    ultimately show ?thesis using e 4 ch by auto
  qed (use assms(2) settle.register settle.writing settle.dropping in blast)+
qed

text \<open>
  (C6) The goroutines of a connection finish. From any state the work under way, with no new call,
  no new \<open>Close\<close> and no context that ends, takes at most \<open>crank\<close> steps, in whatever order the
  scheduler takes them. Where it comes to rest there are two cases. Either the reader has stopped,
  \<open>done\<close> was closed exactly once and every call ever made has returned: so it is when the daemon
  ends the connection after what it sends, and whenever \<open>Close\<close> was called. Or the daemon has
  fallen silent on an open connection: then the reader is blocked in its read, and every call has
  returned but those whose answers have not come, which wait in the table with empty channels. No
  call that was answered or failed is stranded.
\<close>

theorem codex_calls_return:
  assumes "cstep\<^sup>*\<^sup>* (new_client w) s" "(settle ^^ k) s s'"
  shows "k \<le> crank s \<and> started s' = started s
    \<and> ((\<nexists>t. settle s' t) \<longrightarrow>
        (reader s' = Stopped \<and> done_closes s' = 1 \<and> (\<forall>n < started s. \<exists>r. phases s' n = Finished r)
         \<or> reader s' = Blocked \<and> ws_open (cws s') \<and> done_closes s' = 0
           \<and> (\<forall>n < started s. (\<exists>r. phases s' n = Finished r)
                \<or> phases s' n = Waiting \<and> chans s' n = ChEmpty \<and> pending s' (key (ReqID (reqs s' n))) = Some n))
        \<and> (ws_end w \<noteq> Silent \<or> cclosed s \<or> 0 < first_closers s \<or> 0 < closers s \<longrightarrow> reader s' = Stopped))"
proof -
  have i: "live_inv s" using codex_work.inv_steps [OF assms(1) live_inv_new_client] .
  have b: "k \<le> crank s" using codex_work.work_bounded [OF assms(2) i] by simp
  have run: "settle\<^sup>*\<^sup>* s s'" using assms(2) by (metis rtranclp_power)
  have i': "live_inv s'" by (rule codex_work.work_inv [OF i run])
  have s: "started t = started s0" if "settle s0 t" for s0 t
    using that
    by cases (auto simp: call_register_def call_write_def call_drop_def call_receive_def readLoop_def read_data_def
        Let_def reader_send_def fail_close_def fail_done_def close_first_def close_late_def close_fail_def
        split: prod.splits sum.splits option.splits chan.splits)
  have st: "started s' = started s"
    using assms(2) by (induction k arbitrary: s') (auto dest: s)
  have e: "ws_end (cws s') = ws_end w"
    using run_end [OF assms(1)] run_end [OF codex_work.work_steps [OF run]] by (simp add: new_client_def)
  show ?thesis
  proof (intro conjI impI)
    assume rest: "\<nexists>t. settle s' t"
    note r = at_rest [OF i' rest]
    have d: "done_closes s' = (if cclosed s' then 1 else 0)"
      using r(4) i' by (simp add: live_inv_def cinv_def flags_ok_def)
    show "reader s' = Stopped \<and> done_closes s' = 1 \<and> (\<forall>n < started s. \<exists>r. phases s' n = Finished r)
         \<or> reader s' = Blocked \<and> ws_open (cws s') \<and> done_closes s' = 0
           \<and> (\<forall>n < started s. (\<exists>r. phases s' n = Finished r)
                \<or> phases s' n = Waiting \<and> chans s' n = ChEmpty \<and> pending s' (key (ReqID (reqs s' n))) = Some n)"
      using r(5) r(6) d st by (auto simp: tabled_def)
    assume "ws_end w \<noteq> Silent \<or> cclosed s \<or> 0 < first_closers s \<or> 0 < closers s"
    then have "ws_end w \<noteq> Silent \<or> told_to_close s'" using told_steps [OF run] by (auto simp: told_to_close_def)
    then show "reader s' = Stopped" using r(1,3,5) e by (auto simp: told_to_close_def)
  qed (use b st in simp_all)
qed

text \<open>
  A daemon that says nothing: the call waits and the reader is blocked, until the connection is
  closed.
\<close>

definition silent_ws :: wsConn where
  "silent_ws = sample_ws\<lparr>ws_end := Silent\<rparr>"

definition unanswered :: CodexClient where
  "unanswered = readLoop (call_write 0 (call_register 0 (call_begin ''ping'' None (new_client silent_ws))))"

lemma unanswered_facts:
  "cstep\<^sup>*\<^sup>* (new_client silent_ws) unanswered" "reader unanswered = Blocked" "ws_open (cws unanswered)"
  "phases unanswered = (\<lambda>_. NotStarted)(0 := Waiting)" "chans unanswered = (\<lambda>_. ChEmpty)" "closing unanswered = None"
  "first_closers unanswered = 0" "late_closers unanswered = 0" "closers unanswered = 0" "\<not> cclosed unanswered"
  "started unanswered = 1"
proof -
  let ?s0 = "new_client silent_ws"
  let ?s1 = "call_begin ''ping'' None ?s0" let ?s2 = "call_register 0 ?s1" let ?s3 = "call_write 0 ?s2"
  have p1: "phases ?s1 0 = Prepared" "\<not> cclosed ?s1" by (simp_all add: call_begin_def new_client_def)
  then have p2: "phases ?s2 0 = Registered" by (simp add: call_register_def)
  have s2: "cws ?s2 = silent_ws" "?s2 = ?s0\<lparr>nextID := nextID ?s2, started := 1, reqs := reqs ?s2, pending := pending ?s2,
      phases := (\<lambda>_. NotStarted)(0 := Registered)\<rparr>"
    by (simp_all add: call_register_def call_begin_def new_client_def Let_def fun_upd_idem)
  have "\<And>n. \<not> ws_wfail (cws ?s2) n" "ws_open (cws ?s2)" unfolding s2(1) by (simp_all add: silent_ws_def sample_ws_def)
  then obtain w where w: "write_line (cws ?s2) (request_line (reqs ?s2 0)) = (None, w)" "ws_in w = ws_in (cws ?s2)" "ws_open w"
    by (rule write_line_ok)
  have w_end: "ws_in w = []" "ws_end w = Silent"
    using w(2) write_line_frame [OF w(1)] unfolding s2(1) by (simp_all add: silent_ws_def sample_ws_def)
  have rm: "ReadMessage w = (Inl WsBlocked, w)"
    by (simp add: ReadMessage_def read_message.simps [of "[]" 0 w] w_end readFrame_def readFull_def)
  have s3: "?s3 = ?s2\<lparr>cws := w, phases := (phases ?s2)(0 := Waiting)\<rparr>" using w(1) by (simp add: call_write_def)
  have u: "unanswered = ?s3\<lparr>reader := Blocked\<rparr>" by (simp add: unanswered_def readLoop_def s3 rm)
  have r: "reader ?s3 = Reading" unfolding s3 by (subst s2(2)) (simp add: new_client_def)
  have "cstep ?s0 ?s1" by (rule cstep.start) (simp add: new_client_def)
  moreover have "cstep ?s1 ?s2" using cstep.register p1(1) by blast
  moreover have "cstep ?s2 ?s3" using cstep.writing p2 by blast
  moreover have "cstep ?s3 unanswered" unfolding unanswered_def using cstep.read r by blast
  ultimately show "cstep\<^sup>*\<^sup>* ?s0 unanswered" by (meson converse_rtranclp_into_rtranclp rtranclp.rtrancl_refl)
  have e: "unanswered = ?s0\<lparr>nextID := nextID ?s2, started := 1, reqs := reqs ?s2, pending := pending ?s2, cws := w,
      phases := (\<lambda>_. NotStarted)(0 := Waiting), reader := Blocked\<rparr>"
    unfolding u s3 by (subst (1 2) s2(2)) simp
  show "reader unanswered = Blocked" "ws_open (cws unanswered)"
    "phases unanswered = (\<lambda>_. NotStarted)(0 := Waiting)" "chans unanswered = (\<lambda>_. ChEmpty)" "closing unanswered = None"
    "first_closers unanswered = 0" "late_closers unanswered = 0" "closers unanswered = 0" "\<not> cclosed unanswered"
    "started unanswered = 1"
    unfolding e using w(3) by (simp_all add: new_client_def)
qed

lemma unanswered_rests: "\<not> settle unanswered t"
  by (auto simp: unanswered_facts elim!: settle.cases split: if_splits)

theorem codex_calls_return_witness:
  "phases unanswered 0 = Waiting \<and> chans unanswered 0 = ChEmpty \<and> ws_open (cws unanswered)
     \<and> pending unanswered (key (ReqID (reqs unanswered 0))) = Some 0
     \<and> (\<exists>k s'. (settle ^^ k) (close_begin unanswered) s' \<and> k \<le> crank (close_begin unanswered)
          \<and> (\<exists>r. phases s' 0 = Finished r) \<and> done_closes s' = 1)"
proof -
  let ?s = "close_begin unanswered"
  note u = unanswered_facts
  have rest: "(settle ^^ 0) unanswered unanswered" "\<nexists>t. settle unanswered t" using unanswered_rests by auto
  have r: "cstep\<^sup>*\<^sup>* (new_client silent_ws) ?s" using u(1) cstep.close by (rule rtranclp.rtrancl_into_rtrancl)
  have i: "live_inv ?s" using codex_work.inv_steps [OF r live_inv_new_client] .
  then obtain s' where s': "settle\<^sup>*\<^sup>* ?s s'" "\<nexists>t. settle s' t" using codex_work.work_rests by blast
  then obtain k where k: "(settle ^^ k) ?s s'" by (metis rtranclp_power)
  have "0 < first_closers ?s" "0 < started ?s" using u(7,10,11) by (simp_all add: close_begin_def)
  then have "\<exists>k s'. (settle ^^ k) ?s s' \<and> k \<le> crank ?s \<and> (\<exists>r. phases s' 0 = Finished r) \<and> done_closes s' = 1"
    using codex_calls_return [OF r k] k s'(2) by (intro exI [of _ k] exI [of _ s']) auto
  then show ?thesis
    using codex_calls_return [OF u(1) rest(1)] rest(2) u(2,4) unanswered_facts(11) by auto
qed

end
