(* ===== verification/Codex_Call.thy ===== *)
theory Codex_Call
  imports Codex_Progress
begin

text \<open>
  \<open>Call\<close> of \<open>codexmsg/client.go\<close> from its first line to its last, on a connection that nobody else
  uses: the steps of the client in the one order they then have, ending with what the call
  returns. Such a call is a run of the client, so all that holds of every interleaving holds of
  it, and what it puts on the wire and takes off it can be said exactly.
\<close>

subsection \<open>Waiting for the channel\<close>

lemma stream_rank_readLoop:
  assumes "reader s = Reading"
  shows "stream_rank (readLoop s) < stream_rank s"
proof -
  obtain r w where r: "ReadMessage (cws s) = (r, w)" by force
  show ?thesis
  proof (cases r)
    case (Inl e)
    then show ?thesis using r assms ReadMessage_effect(1) by (fastforce simp: readLoop_def stream_rank_def)
  next
    case (Inr p)
    then have "length (ws_in w) < length (ws_in (cws s))" using r ReadMessage_effect(2) by blast
    then show ?thesis
      using r assms Inr by (auto simp: readLoop_def read_data_def Let_def stream_rank_def split: option.splits)
  qed
qed

text \<open>
  The reader works until the channel of the call is filled or closed, and then the caller takes
  it. The context of the call lasts for \<open>k\<close> turns of the connection; when it ends the call gives
  up. A turn may also pass without anything happening, as all do once the reader is blocked on an
  open connection.
\<close>

text \<open>What the reader does, blocked, when the connection is closed: its read returns an error.\<close>

definition reader_cut :: "CodexClient \<Rightarrow> CodexClient" where
  "reader_cut s = (if ws_open (cws s) then s else failClient (WsRead ErrClosed) (s\<lparr>reader := Stopped\<rparr>))"


fun await_channel :: "nat \<Rightarrow> nat \<Rightarrow> CodexClient \<Rightarrow> CodexClient" where
  "await_channel n 0 s =
     (if chans s n \<noteq> ChEmpty then call_receive n s else call_drop n CallContext (call_cancel n s))"
| "await_channel n (Suc k) s =
     (if chans s n \<noteq> ChEmpty then call_receive n s
      else case reader s of
             Reading \<Rightarrow> await_channel n k (readLoop s)
           | Sending j m \<Rightarrow> await_channel n k (if chans s j = ChEmpty then reader_send j m s else s)
           | Blocked \<Rightarrow> await_channel n k (reader_cut s)
           | Stopped \<Rightarrow> await_channel n k (if being_closed s n then fail_close n s else s))"

declare await_channel.simps(2) [simp del]

definition Call :: "nat \<Rightarrow> gostring \<Rightarrow> json option \<Rightarrow> CodexClient \<Rightarrow> CodexClient" where
  "Call k mth params s =
     (let n = started s; s1 = call_register n (call_begin mth params s) in
      if phases s1 n \<noteq> Registered then s1
      else let s2 = call_write n s1 in
           case phases s2 n of
             Dropping e \<Rightarrow> call_drop n e s2
           | _ \<Rightarrow> await_channel n k s2)"

definition returned :: "nat \<Rightarrow> CodexClient \<Rightarrow> call_error + Message" where
  "returned n s = (case phases s n of Finished r \<Rightarrow> r | _ \<Rightarrow> Inl CallContext)"

subsection \<open>A call is a run of the client\<close>

lemma phases_kept [simp]:
  "phases (readLoop s) = phases s" "phases (reader_send j m s) = phases s" "phases (fail_close j s) = phases s"
  "phases (reader_cut s) = phases s"
  by (auto simp: reader_cut_def readLoop_def read_data_def Let_def reader_send_def fail_close_def split: prod.splits sum.splits option.splits)

text \<open>One turn is a step or nothing.\<close>

definition turn :: "nat \<Rightarrow> CodexClient \<Rightarrow> CodexClient" where
  "turn n s =
     (case reader s of
        Reading \<Rightarrow> readLoop s
      | Sending j m \<Rightarrow> if chans s j = ChEmpty then reader_send j m s else s
      | Blocked \<Rightarrow> reader_cut s
      | Stopped \<Rightarrow> if being_closed s n then fail_close n s else s)"

lemma await_channel_turn: "chans s n = ChEmpty \<Longrightarrow> await_channel n (Suc k) s = await_channel n k (turn n s)"
  by (simp add: turn_def await_channel.simps split: reader_state.split)

lemma turn_phases [simp]: "phases (turn n s) = phases s"
  by (simp add: turn_def split: reader_state.split)

lemma turn_run: "cstep\<^sup>*\<^sup>* s (turn n s)"
proof (cases "reader s")
  case Reading
  then show ?thesis using cstep.read by (auto simp: turn_def)
next
  case (Sending j m)
  then show ?thesis using cstep.send [OF Sending] by (auto simp: turn_def)
next
  case Blocked
  then show ?thesis using cstep.read_closed [of s] by (auto simp: turn_def reader_cut_def)
next
  case Stopped
  then show ?thesis using cstep.fail_one [of s _ n] by (auto simp: turn_def being_closed_def)
qed

lemma await_channel_run:
  assumes "phases s n = Waiting"
  shows "cstep\<^sup>*\<^sup>* s (await_channel n k s)"
  using assms
proof (induction k arbitrary: s)
  case 0
  have c: "cstep s (call_cancel n s)" by (rule cstep.cancel [OF 0])
  have "cstep (call_cancel n s) (call_drop n CallContext (call_cancel n s))" by (rule cstep.dropping) (simp add: call_cancel_def)
  then show ?case using c cstep.receive [OF 0] by (auto intro: rtranclp.rtrancl_into_rtrancl)
next
  case (Suc k)
  show ?case
  proof (cases "chans s n = ChEmpty")
    case False
    then show ?thesis using cstep.receive [OF Suc.prems] by (auto simp: await_channel.simps)
  next
    case True
    then show ?thesis
      using turn_run [of s n] Suc.IH [of "turn n s"] Suc.prems unfolding await_channel_turn [OF True]
      by (metis rtranclp_trans turn_phases)
  qed
qed

text \<open>
  The steps that \<open>Call\<close> takes are steps of the client.
\<close>

lemma Call_run:
  assumes "started s + 1 < 2 ^ 64"
  shows "cstep\<^sup>*\<^sup>* s (Call k mth params s)"
proof -
  let ?n = "started s" let ?s0 = "call_begin mth params s" let ?s1 = "call_register ?n ?s0" let ?s2 = "call_write ?n ?s1"
  have c0: "cstep s ?s0" by (rule cstep.start [OF assms])
  have "phases ?s0 ?n = Prepared" by (simp add: call_begin_def Let_def)
  then have "cstep ?s0 ?s1" by (rule cstep.register)
  then have c1: "cstep\<^sup>*\<^sup>* s ?s1" using c0 by (meson converse_rtranclp_into_rtranclp r_into_rtranclp)
  show ?thesis
  proof (cases "phases ?s1 ?n = Registered")
    case False
    then show ?thesis using c1 by (simp add: Call_def Let_def)
  next
    case True
    then have c2: "cstep\<^sup>*\<^sup>* s ?s2" using c1 cstep.writing [OF True] by (meson rtranclp.rtrancl_into_rtrancl)
    have "phases ?s2 ?n = Waiting \<or> (\<exists>e. phases ?s2 ?n = Dropping e)"
      by (auto simp: call_write_def split: prod.splits option.splits)
    then show ?thesis
    proof (elim disjE exE)
      assume w: "phases ?s2 ?n = Waiting"
      then show ?thesis
        using rtranclp_trans [OF c2 await_channel_run [OF w]] True by (simp add: Call_def Let_def)
    next
      fix e assume d: "phases ?s2 ?n = Dropping e"
      then show ?thesis
        using c2 cstep.dropping [OF d] True by (simp add: Call_def Let_def)
    qed
  qed
qed

subsection \<open>A call returns\<close>

lemma await_channel_returns: "\<exists>r. phases (await_channel n k s) n = Finished r"
proof (induction k arbitrary: s)
  case (Suc k)
  then show ?case by (cases "chans s n") (auto simp: await_channel.simps call_receive_def split: reader_state.splits)
qed (auto simp: call_receive_def call_drop_def split: chan.split)

text \<open>
  A call returns in any case, at the latest when its context ends; and when the daemon ends the
  connection in the end and the context lasts longer than what the daemon sends, it is not the
  context that ends the call.
\<close>

lemma Call_returns: "\<exists>r. phases (Call k mth params s) (started s) = Finished r"
proof -
  let ?n = "started s" let ?s1 = "call_register ?n (call_begin mth params s)" let ?s2 = "call_write ?n ?s1"
  have "phases ?s2 ?n = Waiting \<or> (\<exists>e. phases ?s2 ?n = Dropping e)"
    by (auto simp: call_write_def split: prod.splits option.splits)
  moreover have "phases ?s1 ?n = Registered \<or> (\<exists>r. phases ?s1 ?n = Finished r)" by (simp add: call_register_def)
  ultimately show ?thesis using await_channel_returns [of ?n k ?s2] by (auto simp: Call_def Let_def call_drop_def)
qed

lemma await_channel_patient:
  assumes "phases s n = Waiting" "live_inv s" "stream_rank s + 2 \<le> k" "ws_end (cws s) \<noteq> Silent"
  shows "phases (await_channel n k s) n \<noteq> Finished (Inl CallContext)"
  using assms
proof (induction k arbitrary: s)
  case (Suc k)
  note i = Suc.prems(2)
  have ci: "cinv s" using i by (simp add: live_inv_def)
  have c: "cell_ok (phases s m) (chans s m) (tabled s m) (being_sent s m) (being_closed s m)" for m
    using cell_at [OF cinvD(2) [OF ci]] .
  have take_it: "phases (await_channel n j t) n \<noteq> Finished (Inl CallContext)" if "chans t n \<noteq> ChEmpty" for j t
    using that by (cases j; cases "chans t n") (simp_all add: await_channel.simps call_receive_def)
  show ?case
  proof (cases "chans s n = ChEmpty")
    case True
    have i': "live_inv (turn n s)" using codex_work.inv_steps [OF turn_run i] .
    have e': "ws_end (cws (turn n s)) \<noteq> Silent" using run_end [OF turn_run] Suc.prems(4) by simp
    show ?thesis
    proof (cases "reader s")
      case Reading
      then have "stream_rank (turn n s) < stream_rank s" using stream_rank_readLoop by (simp add: turn_def)
      then show ?thesis using Suc.IH [of "turn n s"] i' e' Suc.prems unfolding await_channel_turn [OF True] by simp
    next
      case (Sending j m)
      have e: "chans s j = ChEmpty" using c [of j] Sending by (auto simp: cell_ok_def being_sent_def)
      then have "stream_rank (turn n s) < stream_rank s" using Sending by (simp add: turn_def reader_send_def stream_rank_def)
      then show ?thesis using Suc.IH [of "turn n s"] i' e' Suc.prems unfolding await_channel_turn [OF True] by simp
    next
      case Blocked
      then show ?thesis using i Suc.prems(4) by (simp add: live_inv_def ends_ok_def)
    next
      case Stopped
      then have "cclosed s" using i by (simp add: live_inv_def ends_ok_def)
      then have "pending s = Map.empty" using cinvD(5) [OF ci] by (simp add: flags_ok_def)
      then have b: "being_closed s n"
        using c [of n] True Suc.prems(1) Stopped by (simp add: cell_ok_def tabled_def being_sent_def)
      have "chans (turn n s) n \<noteq> ChEmpty" using True Stopped b by (simp add: turn_def fail_close_def)
      then show ?thesis unfolding await_channel_turn [OF True] by (rule take_it)
    qed
  qed (rule take_it)
qed simp

subsection \<open>An answered call\<close>

definition idle :: "CodexClient \<Rightarrow> bool" where
  "idle s \<longleftrightarrow> live_inv s \<and> \<not> cclosed s \<and> reader s = Reading \<and> pending s = Map.empty"

text \<open>Texts of the daemon that are not the answer to the request with the number \<open>i\<close>.\<close>

definition foreign :: "int \<Rightarrow> bytes \<Rightarrow> bool" where
  "foreign i t \<longleftrightarrow> length t \<le> maxFrame
     \<and> (case unmarshalMessage (string_of t) of
          None \<Rightarrow> True
        | Some m \<Rightarrow> IsResponse m \<longrightarrow> key (the (MID m)) \<noteq> key (IntID i))"

definition server_texts :: "bytes list \<Rightarrow> bytes" where
  "server_texts ts = concat (map (ws_frame True None opText) ts)"

lemma await_foreign:
  assumes "chans s n = ChEmpty" "reader s = Reading" "dom (pending s) \<subseteq> {key (IntID i)}"
    and "ws_in (cws s) = server_texts ts @ rest" "list_all (foreign i) ts"
  shows "await_channel n (length ts + k) s = await_channel n k (s\<lparr>cws := (cws s)\<lparr>ws_in := rest\<rparr>\<rparr>)"
  using assms
proof (induction ts arbitrary: s)
  case Nil
  then have "s = s\<lparr>cws := (cws s)\<lparr>ws_in := rest\<rparr>\<rparr>" by (simp add: server_texts_def)
  then show ?case by simp
next
  case (Cons t ts)
  let ?s = "s\<lparr>cws := (cws s)\<lparr>ws_in := server_texts ts @ rest\<rparr>\<rparr>"
  have "ReadMessage (cws s) = (Inr t, (cws s)\<lparr>ws_in := server_texts ts @ rest\<rparr>)"
    using Cons.prems(4,5) by (intro ReadMessage_text) (simp_all add: server_texts_def foreign_def)
  moreover have "read_data ?s t = ?s"
    using Cons.prems(3,5) by (auto simp: read_data_def foreign_def Let_def split: option.splits)
  ultimately have "readLoop s = ?s" by (simp add: readLoop_def)
  moreover have "await_channel n (length (t # ts) + k) s = await_channel n (length ts + k) (readLoop s)"
    using Cons.prems(1,2) by (simp add: await_channel.simps)
  ultimately show ?case using Cons.IH [of ?s] Cons.prems by simp
qed

lemma Call_answered:
  fixes mth :: gostring and params :: "json option" and s :: CodexClient
  assumes "idle s" "started s + 1 < 2 ^ 64" "\<And>k. \<not> ws_wfail (cws s) k" "ws_open (cws s)" "i = sint (nextID s + 1)"
    and "ws_in (cws s) = server_texts ts @ ws_frame True None opText (bytes_of (response_text i v)) @ rest"
    and "list_all (foreign i) ts" "printable v" "jdepth v < maxNestingDepth" "length (response_text i v) \<le> maxFrame"
    and "length ts + 2 \<le> k"
  defines "s' \<equiv> Call k mth params s"
  shows "returned (started s) s' = Inr (zero_Message\<lparr>MID := Some (IntID i), MResult := json_print v\<rparr>)"
    "idle s'" "started s' = started s + 1" "nextID s' = nextID s + 1"
    "ws_in (cws s') = rest" "ws_open (cws s')" "ws_wfail (cws s') = ws_wfail (cws s)" "ws_masks (cws s') = ws_masks (cws s)"
    "ws_nmask (cws s') = ws_nmask (cws s) + 1"
    "ws_out (cws s') = ws_out (cws s) @ ws_frame True (Some (ws_masks (cws s) (ws_nmask (cws s)))) opText
       (request_line \<lparr>ReqID = IntID i, Method = mth, Params = params\<rparr>)"
proof -
  let ?n = "started s" and ?m = "zero_Message\<lparr>MID := Some (IntID i), MResult := json_print v\<rparr>"
  let ?r = "\<lparr>ReqID = IntID i, Method = mth, Params = params\<rparr>"
  obtain wr where k: "write_line (cws s) (request_line ?r) =
      (None, (cws s)\<lparr>ws_out := ws_out (cws s) @ ws_frame True (Some (ws_masks (cws s) (ws_nmask (cws s)))) opText (request_line ?r),
         ws_nmask := ws_nmask (cws s) + 1, ws_writes := wr\<rparr>)"
    using writeFrame_ok [OF assms(3), of opText "request_line ?r"] assms(4) by (auto simp: write_line_def WriteText_def)
  let ?w = "(cws s)\<lparr>ws_out := ws_out (cws s) @ ws_frame True (Some (ws_masks (cws s) (ws_nmask (cws s)))) opText (request_line ?r),
         ws_nmask := ws_nmask (cws s) + 1, ws_writes := wr\<rparr>"
  let ?s1 = "call_register ?n (call_begin mth params s)"
  have o: "\<not> cclosed s" "reader s = Reading" "pending s = Map.empty" using assms(1) by (simp_all add: idle_def)
  have s1: "reqs ?s1 ?n = ?r" "phases ?s1 ?n = Registered" "cws ?s1 = cws s"
    using o(1) assms(5) by (simp_all add: call_register_def call_begin_def Let_def)
  define s2 where "s2 = call_write ?n ?s1"
  have s2: "phases s2 ?n = Waiting" "chans s2 ?n = ChEmpty" "reader s2 = Reading" "pending s2 = [key (IntID i) \<mapsto> ?n]"
    "cws s2 = ?w" "\<not> cclosed s2" "started s2 = ?n + 1" "nextID s2 = nextID s + 1"
    using o s1 k assms(5) by (simp_all add: s2_def call_write_def) (simp_all add: call_register_def call_begin_def Let_def)
  let ?s3 = "s2\<lparr>cws := ?w\<lparr>ws_in := ws_frame True None opText (bytes_of (response_text i v)) @ rest\<rparr>\<rparr>"
  obtain j where j: "k = length ts + Suc (Suc j)" using assms(11) by (metis add_2_eq_Suc' le_Suc_ex add.assoc add.commute)
  have "s' = await_channel ?n k s2" using s1(2) s2(1) by (simp add: s'_def Call_def Let_def s2_def)
  also have "\<dots> = await_channel ?n (Suc (Suc j)) ?s3"
    unfolding j by (subst await_foreign [OF s2(2,3)]) (use s2(4,5) assms(6,7) in auto)
  also have "\<dots> = await_channel ?n (Suc j) (readLoop ?s3)"
    using s2(2,3) by (simp add: await_channel.simps)
  also have "readLoop ?s3 = s2\<lparr>cws := ?w\<lparr>ws_in := rest\<rparr>, pending := Map.empty, reader := Sending ?n ?m\<rparr>" (is "_ = ?s4")
  proof -
    have "int64 i" using sint_range_size [of "nextID s + 1"] by (simp add: assms(5) int64_def word_size)
    then have "unmarshalMessage (response_text i v) = Some ?m" using unmarshal_response assms(8,9) by blast
    moreover have "ReadMessage (cws ?s3) = (Inr (bytes_of (response_text i v)), ?w\<lparr>ws_in := rest\<rparr>)"
      using ReadMessage_text [of "cws ?s3"] assms(10) by simp
    ultimately show ?thesis
      using s2(4) by (simp add: readLoop_def read_data_def Let_def IsResponse_def zero_Message_def)
  qed
  also have "await_channel ?n (Suc j) ?s4 = await_channel ?n j (reader_send ?n ?m ?s4)"
    using s2(2) by (simp add: await_channel.simps)
  also have "\<dots> = call_receive ?n (reader_send ?n ?m ?s4)"
    using s2(2) by (cases j) (simp_all add: await_channel.simps reader_send_def)
  finally have s': "s' = ?s4\<lparr>reader := Reading, chans := (chans s2)(?n := ChEmpty), phases := (phases s2)(?n := Finished (Inr ?m))\<rparr>"
    using s2(2) by (simp add: reader_send_def call_receive_def)
  have "live_inv s'"
    using codex_work.inv_steps [OF Call_run [OF assms(2)]] assms(1) by (simp add: s'_def idle_def)
  then show "idle s'" using s2(6) by (simp add: idle_def s')
  show "returned ?n s' = Inr ?m" by (simp add: returned_def s')
  show "started s' = ?n + 1" "nextID s' = nextID s + 1" "ws_in (cws s') = rest" "ws_open (cws s')"
    "ws_wfail (cws s') = ws_wfail (cws s)" "ws_masks (cws s') = ws_masks (cws s)"
    "ws_nmask (cws s') = ws_nmask (cws s) + 1"
    "ws_out (cws s') = ws_out (cws s) @ ws_frame True (Some (ws_masks (cws s) (ws_nmask (cws s)))) opText (request_line ?r)"
    by (simp_all add: s' s2 assms(4))
qed

end
