(* ===== verification/Codex_Session.thy ===== *)
theory Codex_Session
  imports Methods Codex_Call
begin

text \<open>
  A connection used by one goroutine: \<open>Initialize\<close>, \<open>QueueMessage\<close> and \<open>Close\<close> one after the other
  on the client of \<open>Codex_Client\<close>, so that the methods of \<open>codexmsg\<close> act on the bytes of a
  WebSocket. Both ends of the connection can then be compared: what the caller gets with what
  the daemon wrote, and what the daemon reads with what the caller asked for.
\<close>

subsection \<open>The methods on a connection\<close>

text \<open>A call on the client \<open>s\<close> whose context lasts for \<open>k\<close> turns.\<close>

definition caller_on :: "nat \<Rightarrow> CodexClient \<Rightarrow> caller" where
  "caller_on k s = (\<lambda>mth params. returned (started s) (Call k mth params s))"

definition versioned :: "InitializeParams \<Rightarrow> InitializeParams" where
  "versioned p =
     (if CIVersion (IPClientInfo p) = [] then p\<lparr>IPClientInfo := (IPClientInfo p)\<lparr>CIVersion := ''0.0.0''\<rparr>\<rparr> else p)"

definition InitializeOn :: "nat \<Rightarrow> lib_text \<Rightarrow> InitializeParams \<Rightarrow> CodexClient \<Rightarrow> (go_error + gostring) \<times> CodexClient" where
  "InitializeOn k lib p s =
     (Initialize lib (caller_on k s) p,
      if CIName (IPClientInfo p) = [] then s
      else Call k MethodInitialize (Some (json_of_InitializeParams (versioned p))) s)"

definition queue_params :: "gostring \<Rightarrow> gostring \<Rightarrow> gostring \<Rightarrow> json" where
  "queue_params threadID text cid =
     json_of_ThreadQueueAddParams \<lparr>QThreadID = threadID, QInput = [TextInput text], QClientUserMessageID = cid\<rparr>"

definition QueueMessageOn ::
    "nat \<Rightarrow> lib_text \<Rightarrow> gostring \<Rightarrow> gostring \<Rightarrow> gostring \<Rightarrow> gostring \<Rightarrow> CodexClient
     \<Rightarrow> (go_error + ThreadQueueAddResult) \<times> CodexClient" where
  "QueueMessageOn k lib fresh threadID text cid s =
     (QueueMessage lib (caller_on k s) fresh threadID text cid,
      Call k MethodThreadQueueAdd (Some (queue_params threadID text (if cid = [] then fresh else cid))) s)"

text \<open>\<open>Close\<close> from its first line to its last, with the loop of \<open>fail\<close> when no call is waiting.\<close>

definition CloseOn :: "CodexClient \<Rightarrow> CodexClient" where
  "CloseOn s =
     (if cclosed s then close_late (close_begin s)
      else let s1 = close_fail (close_first (close_begin s)) in
           if closing s1 = Some {} then fail_done s1 else s1)"

subsection \<open>They are runs of the client\<close>

lemma CloseOn_run: "cstep\<^sup>*\<^sup>* s (CloseOn s)"
proof (cases "cclosed s")
  case True
  have "cstep (close_begin s) (close_late (close_begin s))" by (rule cstep.close_again) (simp add: close_begin_def True)
  then have "cstep\<^sup>*\<^sup>* s (close_late (close_begin s))" using cstep.close [of s] by (meson converse_rtranclp_into_rtranclp r_into_rtranclp)
  then show ?thesis using True by (simp add: CloseOn_def)
next
  case False
  let ?s1 = "close_first (close_begin s)"
  have "cstep (close_begin s) ?s1" by (rule cstep.close_socket) (simp add: close_begin_def False)
  moreover have "cstep ?s1 (close_fail ?s1)" by (rule cstep.closed) (simp add: close_first_def)
  ultimately have r: "cstep\<^sup>*\<^sup>* s (close_fail ?s1)"
    using cstep.close [of s] by (meson converse_rtranclp_into_rtranclp r_into_rtranclp)
  then have "cstep\<^sup>*\<^sup>* s (fail_done (close_fail ?s1))" if "closing (close_fail ?s1) = Some {}"
    using cstep.fail_end [OF that] by (rule rtranclp.rtrancl_into_rtrancl)
  then show ?thesis using r False by (simp add: CloseOn_def Let_def)
qed

lemma InitializeOn_run: "started s + 1 < 2 ^ 64 \<Longrightarrow> cstep\<^sup>*\<^sup>* s (snd (InitializeOn k lib p s))"
  using Call_run [of s k] by (simp add: InitializeOn_def)

lemma QueueMessageOn_run: "started s + 1 < 2 ^ 64 \<Longrightarrow> cstep\<^sup>*\<^sup>* s (snd (QueueMessageOn k lib fresh threadID text cid s))"
  using Call_run [of s k] by (simp add: QueueMessageOn_def)

subsection \<open>A session\<close>

lemma idle_new_client: "idle (new_client w)"
  using live_inv_new_client [of w] by (simp add: idle_def) (simp add: new_client_def)

text \<open>The bytes a daemon writes that answers the two requests, among other texts.\<close>

definition daemon_stream :: "bytes list \<Rightarrow> json \<Rightarrow> bytes list \<Rightarrow> json \<Rightarrow> bytes" where
  "daemon_stream ts1 v1 ts2 v2 =
     server_texts ts1 @ ws_frame True None opText (bytes_of (response_text 1 v1))
     @ server_texts ts2 @ ws_frame True None opText (bytes_of (response_text 2 v2))"

definition answerable :: "json \<Rightarrow> int \<Rightarrow> bool" where
  "answerable v i \<longleftrightarrow> printable v \<and> jdepth v < maxNestingDepth \<and> length (response_text i v) \<le> maxFrame"

text \<open>A connection on which every write succeeds.\<close>

definition healthy :: "wsConn \<Rightarrow> bool" where
  "healthy w \<longleftrightarrow> ws_open w \<and> ws_wfail w = (\<lambda>_. False) \<and> (\<forall>n. length (ws_masks w n) = 4)"

definition masked :: "wsConn \<Rightarrow> nat \<Rightarrow> nat \<Rightarrow> bytes \<Rightarrow> bytes" where
  "masked w n op p = ws_frame True (Some (ws_masks w (ws_nmask w + n))) op p"

definition request_text :: "int \<Rightarrow> gostring \<Rightarrow> json \<Rightarrow> bytes" where
  "request_text i mth params = request_line \<lparr>ReqID = IntID i, Method = mth, Params = Some params\<rparr>"

lemma request_answered:
  fixes params :: json and mth :: gostring and s :: CodexClient and k :: nat
  assumes "idle s" "healthy (cws s)" "started s = n" "n + 1 < 2 ^ 64" "sint (nextID s + 1) = i"
    and "ws_in (cws s) = server_texts ts @ ws_frame True None opText (bytes_of (response_text i v)) @ rest"
    and "list_all (foreign i) ts" "answerable v i" "length ts + 2 \<le> k"
  defines "s' \<equiv> Call k mth (Some params) s"
  shows "returned n s' = Inr (zero_Message\<lparr>MID := Some (IntID i), MResult := json_print v\<rparr>)"
    "idle s'" "healthy (cws s')" "started s' = n + 1" "nextID s' = nextID s + 1" "ws_in (cws s') = rest"
    "ws_masks (cws s') = ws_masks (cws s)" "ws_nmask (cws s') = ws_nmask (cws s) + 1"
    "ws_out (cws s') = ws_out (cws s) @ masked (cws s) 0 opText (request_text i mth params)"
  using Call_answered [OF assms(1) _ _ _ assms(5) [symmetric] assms(6,7) _ _ _ assms(9), where mth = mth and params = "Some params"]
    assms(2-4,8)
  by (simp_all add: s'_def healthy_def answerable_def masked_def request_text_def)

lemma codex_session:
  fixes p :: InitializeParams and q :: QueuedSubmission and w :: wsConn
  assumes "healthy w" "ws_in w = daemon_stream ts1 v ts2 (json_of_ThreadQueueAddResult q) @ rest"
    and "list_all (foreign 1) ts1" "list_all (foreign 2) ts2" "answerable v 1" "json_print v \<noteq> []"
    and "answerable (json_of_ThreadQueueAddResult q) 2" "plain_inputs (QSInput q)"
    and "CIName (IPClientInfo p) \<noteq> []" "length ts1 + 2 \<le> k1" "length ts2 + 2 \<le> k2"
    and "InitializeOn k1 lib p (new_client w) = (r1, s1)" "QueueMessageOn k2 lib fresh thr text cid s1 = (r2, s2)"
  shows "r1 = Inr (json_print v)" "r2 = Inr (norm_QueuedSubmission q)" "idle s2"
    "ws_out (cws s2) = ws_out w
      @ masked w 0 opText (request_text 1 MethodInitialize (json_of_InitializeParams (versioned p)))
      @ masked w 1 opText (request_text 2 MethodThreadQueueAdd (queue_params thr text (if cid = [] then fresh else cid)))"
    "ws_nmask (cws s2) = ws_nmask w + 2" "ws_masks (cws s2) = ws_masks w" "healthy (cws s2)" "ws_in (cws s2) = rest"
proof -
  let ?s0 = "new_client w" let ?q = "json_of_ThreadQueueAddResult q"
  let ?p = "json_of_InitializeParams (versioned p)" and ?r = "queue_params thr text (if cid = [] then fresh else cid)"
  have n0: "started ?s0 = 0" "nextID ?s0 = 0" "cws ?s0 = w" by (simp_all add: new_client_def)
  have s1: "s1 = Call k1 MethodInitialize (Some ?p) ?s0" and r1: "r1 = Initialize lib (caller_on k1 ?s0) p"
    using assms(9,12) by (simp_all add: InitializeOn_def)
  have s2: "s2 = Call k2 MethodThreadQueueAdd (Some ?r) s1" and r2: "r2 = QueueMessage lib (caller_on k2 s1) fresh thr text cid"
    using assms(13) by (simp_all add: QueueMessageOn_def)
  have h0: "healthy (cws ?s0)" "sint (nextID ?s0 + 1) = 1" "ws_in (cws ?s0) = server_texts ts1
      @ ws_frame True None opText (bytes_of (response_text 1 v))
      @ server_texts ts2 @ ws_frame True None opText (bytes_of (response_text 2 ?q)) @ rest"
    using assms(1,2) by (simp_all add: n0 daemon_stream_def)
  note c1 = request_answered [OF idle_new_client h0(1) n0(1) _ h0(2,3) assms(3,5,10),
      where mth = MethodInitialize and params = ?p, simplified, folded s1]
  have i2: "sint (nextID s1 + 1) = 2" using c1(5) by (simp add: n0)
  note c2 = request_answered [OF c1(2,3,4) _ i2 c1(6) assms(4,7,11), where mth = MethodThreadQueueAdd and params = ?r, simplified, folded s2]
  show "idle s2" "ws_in (cws s2) = rest" "healthy (cws s2)" by (fact c2)+
  show "ws_nmask (cws s2) = ws_nmask w + 2" "ws_masks (cws s2) = ws_masks w" using c1 c2 by (simp_all add: n0)
  show "ws_out (cws s2) = ws_out w @ masked w 0 opText (request_text 1 MethodInitialize ?p)
      @ masked w 1 opText (request_text 2 MethodThreadQueueAdd ?r)"
    using c1(7-9) c2(9) by (simp add: masked_def n0)
  have "caller_on k1 ?s0 MethodInitialize (Some ?p) = Inr (zero_Message\<lparr>MID := Some (IntID 1), MResult := json_print v\<rparr>)"
    using c1(1) by (simp add: caller_on_def s1 n0)
  then show "r1 = Inr (json_print v)"
    using assms(6,9) by (simp add: r1 Initialize_def versioned_def call_result_def zero_Message_def)
  have "caller_on k2 s1 MethodThreadQueueAdd (Some ?r) = Inr (zero_Message\<lparr>MID := Some (IntID 2), MResult := json_print ?q\<rparr>)"
    using c2(1) by (simp add: caller_on_def s2 c1(4))
  then show "r2 = Inr (norm_QueuedSubmission q)"
    unfolding r2 queue_params_def
    by (rule queued_submission_round_trip [OF assms(8)]) (simp_all add: zero_Message_def)
qed

subsection \<open>How long a text can be\<close>

text \<open>A bound on the length of a printed value: six bytes for each byte of its strings.\<close>

fun json_size :: "json \<Rightarrow> nat" where
  "json_size JNull = 4"
| "json_size (JBool b) = 5"
| "json_size (JNum l) = length l"
| "json_size (JStr s) = 6 * length s + 2"
| "json_size (JArr vs) = sum_list (map (\<lambda>v. json_size v + 1) vs) + 2"
| "json_size (JObj ms) = sum_list (map (\<lambda>(k, _, v). 6 * length k + json_size v + 4) ms) + 2"

lemma length_join_with: "length (join_with '','' ss) \<le> sum_list (map (\<lambda>s. length s + 1) ss)"
  by (induction "'',''" ss rule: join_with.induct) simp_all

lemma length_json_print: "length (json_print v) \<le> json_size v"
proof (induction v rule: json_print.induct)
  case (4 s)
  then show ?case using length_json_quote [of s] by simp
next
  case (5 vs)
  have "sum_list (map (\<lambda>v. length (json_print v) + 1) vs) \<le> sum_list (map (\<lambda>v. json_size v + 1) vs)"
    using 5 by (intro sum_list_mono) simp
  then show ?case using length_join_with [of "map json_print vs"] by (simp add: comp_def)
next
  case (6 ms)
  let ?f = "\<lambda>(k, _, v). json_quote k @ CHR '':'' # json_print v"
  have "sum_list (map (\<lambda>m. length (?f m) + 1) ms) \<le> sum_list (map (\<lambda>(k, _, v). 6 * length k + json_size v + 4) ms)"
  proof (rule sum_list_mono)
    fix m assume m: "m \<in> set ms"
    obtain k t v where kv: "m = (k, t, v)" by (cases m)
    show "length (?f m) + 1 \<le> (case m of (k, _, v) \<Rightarrow> 6 * length k + json_size v + 4)"
      using 6 [OF m kv [symmetric] refl] length_json_quote [of k] by (simp add: kv)
  qed
  then show ?case using length_join_with [of "map ?f ms"] by (simp add: comp_def)
qed simp_all

lemmas size_simps = jmember_def json_of_ThreadQueueAddResult_def json_of_QueuedSubmission_def json_of_UserInput_def omit_str_def
  TextInput_def json_of_InitializeParams_def json_of_ClientInfo_def json_of_Capabilities_def queue_params_def
  json_of_ThreadQueueAddParams_def json_of_Request_def IntID_def json_of_RequestID_def

lemma itoa_one_two: "length (itoa 1) = 1" "length (itoa 2) = 1"
  by (simp_all add: itoa_def nat_dec.simps)

subsection \<open>The wire of a session\<close>

lemma CloseOn_out:
  assumes "healthy (cws s)" "\<not> cclosed s"
  shows "ws_out (cws (CloseOn s)) = ws_out (cws s) @ masked (cws s) 0 opClose (put_be 2 1000)"
proof -
  have "\<And>n. \<not> ws_wfail (cws s) n" using assms(1) by (simp add: healthy_def)
  from writeFrame_ok [OF this, of opClose "put_be 2 1000"] obtain j where
    "writeFrame (cws s) opClose (put_be 2 1000) = (None, (cws s)\<lparr>ws_out := ws_out (cws s) @ masked (cws s) 0 opClose (put_be 2 1000),
       ws_nmask := ws_nmask (cws s) + 1, ws_writes := j\<rparr>)" by (auto simp: masked_def)
  then show ?thesis
    using assms(2) by (simp add: CloseOn_def close_begin_def close_first_def close_fail_def failClient_def fail_done_def WsClose_def Let_def)
qed

text \<open>A daemon that reads the masked frames of a client gets their payloads.\<close>

lemma read_masked:
  assumes "healthy w" "list_all (\<lambda>(op, p). op < 16 \<and> length p \<le> maxFrame) (map snd fs)"
  shows "read_frames read_ws (length fs) (concat (map (\<lambda>(n, op, p). masked w n op p) fs) @ rest)
    = Some (map (\<lambda>(n, op, p). (op, p, True)) fs, rest)"
proof -
  let ?g = "\<lambda>(n, op, p). (ws_masks w (ws_nmask w + n), op, p)"
  have "list_all (\<lambda>(mk, op, p). ws_ok (Some mk) op p) (map ?g fs)"
    using assms by (induction fs) (auto simp: ws_ok_def healthy_def)
  from ws_frames.read_stream [OF this, of rest] show ?thesis
    by (simp add: comp_def case_prod_beta' masked_def)
qed

lemma session_wire:
  assumes "healthy w" "length a \<le> maxFrame" "length b \<le> maxFrame"
    and "ws_out v = ws_out w @ masked w 0 opText a @ masked w 1 opText b @ masked w 2 opClose (put_be 2 1000)"
  shows "read_frames read_ws 3 (drop (length (ws_out w)) (ws_out v))
    = Some ([(opText, a, True), (opText, b, True), (opClose, put_be 2 1000, True)], [])"
proof -
  let ?fs = "[(0, opText, a), (1, opText, b), (2, opClose, put_be 2 1000)]"
  have "length (put_be 2 1000) \<le> maxFrame" by (simp add: maxFrame_def)
  then have "list_all (\<lambda>(op, p). op < 16 \<and> length p \<le> maxFrame) (map snd ?fs)"
    using assms(2,3) by (simp add: opText_def opClose_def)
  from read_masked [OF assms(1) this, of "[]"] show ?thesis using assms(4) by (simp add: numeral_3_eq_3)
qed

end
