(* ===== verification/Codex_Send.thy ===== *)
theory Codex_Send
  imports Codex_Session Go_Flag Uuid7
begin

text \<open>
  \<open>cmd/codex-send/main.go\<close>: the command that queues one message, from its argument list to its
  exit code, on a connection of its own. What it prints is a list: lines on the standard output,
  complaints and the usage on the standard error stream.
\<close>

definition exitOK :: int where "exitOK = 0"
definition exitError :: int where "exitError = 1"
definition exitNoTarget :: int where "exitNoTarget = 6"

record codex_options =
  co_to :: gostring
  co_socket :: gostring
  co_name :: gostring
  co_timeout :: int                        \<comment> \<open>nanoseconds\<close>
  co_json :: bool

definition codex_defaults :: codex_options where
  "codex_defaults = \<lparr>co_to = [], co_socket = [], co_name = ''codex-send'', co_timeout = 30000000000, co_json = False\<rparr>"

definition codex_flags :: "(gostring \<times> codex_options flag_var) list" where
  "codex_flags =
     [(''to'', StringVar (\<lambda>v. co_to_update (\<lambda>_. v))),
      (''socket'', StringVar (\<lambda>v. co_socket_update (\<lambda>_. v))),
      (''name'', StringVar (\<lambda>v. co_name_update (\<lambda>_. v))),
      (''timeout'', DurationVar (\<lambda>v. co_timeout_update (\<lambda>_. v))),
      (''json'', BoolVar (\<lambda>v. co_json_update (\<lambda>_. v)))]"

datatype codex_complaint =
    CodexBadFlags flag_error
  | CodexNoDaemon codex_dial_error
  | CodexNoHandshake go_error
  | CodexRefused go_error

datatype codex_printed = CodexLine gostring | CodexComplain codex_complaint | CodexUsage

text \<open>What the run is given: the connection, random bytes and the clock, and how long the context lasts.\<close>

record codex_env =
  ce_nonce :: bytes
  ce_conn :: wsConn
  ce_answer :: "gostring \<Rightarrow> http_response option"
  ce_clock :: "64 word"
  ce_rnd :: bytes
  ce_init :: nat                           \<comment> \<open>turns of the reader until the context ends\<close>
  ce_queue :: nat

record codex_result =
  r_exit :: int
  r_out :: "codex_printed list"
  r_client :: "CodexClient option"

definition send_init_params :: "gostring \<Rightarrow> InitializeParams" where
  "send_init_params name = \<lparr>IPClientInfo = \<lparr>CIName = name, CITitle = None, CIVersion = ''0.1.0''\<rparr>,
     IPCapabilities = Some \<lparr>ExperimentalAPI = True\<rparr>\<rparr>"

definition queued_line :: "codex_options \<Rightarrow> ThreadQueueAddResult \<Rightarrow> gostring" where
  "queued_line opt res =
     (if co_json opt then json_print (json_of_ThreadQueueAddResult res)
      else ''Queued message '' @ QSID res @ '' for thread '' @ co_to opt @ ''.'')"

text \<open>On a connection: the handshake, the message, and the deferred \<open>Close\<close>.\<close>

definition codex_queue :: "lib_text \<Rightarrow> codex_env \<Rightarrow> codex_options \<Rightarrow> gostring \<Rightarrow> CodexClient \<Rightarrow> codex_result" where
  "codex_queue lib env opt text c =
     (let mid = NewUUIDv7 (ce_clock env) (ce_rnd env) in
      case InitializeOn (ce_init env) lib (send_init_params (co_name opt)) c of
        (Inl e, c1) \<Rightarrow> \<lparr>r_exit = exitError, r_out = [CodexComplain (CodexNoHandshake e)], r_client = Some (CloseOn c1)\<rparr>
      | (Inr _, c1) \<Rightarrow>
          (case QueueMessageOn (ce_queue env) lib mid (co_to opt) text mid c1 of
             (Inl e, c2) \<Rightarrow> \<lparr>r_exit = exitError, r_out = [CodexComplain (CodexRefused e)], r_client = Some (CloseOn c2)\<rparr>
           | (Inr res, c2) \<Rightarrow> \<lparr>r_exit = exitOK, r_out = [CodexLine (queued_line opt res)], r_client = Some (CloseOn c2)\<rparr>))"

definition codex_run :: "lib_text \<Rightarrow> codex_env \<Rightarrow> gostring list \<Rightarrow> host \<Rightarrow> codex_result" where
  "codex_run lib env argv h =
     (case parse_flags codex_flags codex_defaults argv of
        Inl e \<Rightarrow>
          \<lparr>r_exit = flag_exit e, r_out = (if e = Help then [] else [CodexComplain (CodexBadFlags e)]) @ [CodexUsage], r_client = None\<rparr>
      | Inr (opt, args) \<Rightarrow>
          let text = join_with '' '' args in
          if co_to opt = [] \<or> text = [] then \<lparr>r_exit = exitError, r_out = [CodexUsage], r_client = None\<rparr>
          else case DialCodex h \<lparr>OSocketPath = co_socket opt, OPath = []\<rparr> (ce_nonce env) (ce_conn env) (ce_answer env) of
                 Inl e \<Rightarrow> \<lparr>r_exit = exitNoTarget, r_out = [CodexComplain (CodexNoDaemon e)], r_client = None\<rparr>
               | Inr c \<Rightarrow> codex_queue lib env opt text c)"

subsection \<open>The command line\<close>

definition codex_args :: "codex_options \<Rightarrow> gostring \<Rightarrow> gostring list" where
  "codex_args opt text =
     [flag_arg ''to'' (co_to opt), flag_arg ''socket'' (co_socket opt), flag_arg ''name'' (co_name opt),
      flag_arg ''timeout'' (durationString (co_timeout opt)), flag_arg ''json'' (bool_text (co_json opt)), ''--'', text]"

lemma codex_args_parse:
  assumes "int64 (co_timeout opt)"
  shows "parse_flags codex_flags codex_defaults (codex_args opt text) = Inr (opt, [text])"
  unfolding codex_args_def by (simp add: parse_flag_texts codex_flags_def flag_name_def assms codex_defaults_def)

subsection \<open>From the command line to the daemon\<close>

text \<open>The two requests a run makes.\<close>

definition handshake_request :: "codex_options \<Rightarrow> bytes" where
  "handshake_request opt = request_text 1 MethodInitialize (json_of_InitializeParams (send_init_params (co_name opt)))"

definition message_request :: "codex_env \<Rightarrow> codex_options \<Rightarrow> gostring \<Rightarrow> bytes" where
  "message_request env opt text = request_text 2 MethodThreadQueueAdd
     (queue_params (co_to opt) text (NewUUIDv7 (ce_clock env) (ce_rnd env)))"

lemma NewUUIDv7_nonempty: "NewUUIDv7 ms rnd \<noteq> []"
  by (simp add: NewUUIDv7_def v7_format_def Let_def)

lemma codex_queue_answered:
  assumes "healthy w" "ws_in w = daemon_stream ts1 v ts2 (json_of_ThreadQueueAddResult q) @ rest"
    and "list_all (foreign 1) ts1" "list_all (foreign 2) ts2" "answerable v 1" "json_print v \<noteq> []"
    and "answerable (json_of_ThreadQueueAddResult q) 2" "plain_inputs (QSInput q)"
    and "co_name opt \<noteq> []" "length ts1 + 2 \<le> ce_init env" "length ts2 + 2 \<le> ce_queue env"
  obtains c where "codex_queue lib env opt msg (new_client w)
      = \<lparr>r_exit = exitOK, r_out = [CodexLine (queued_line opt (norm_QueuedSubmission q))], r_client = Some c\<rparr>"
    "ws_out (cws c) = ws_out w @ masked w 0 opText (handshake_request opt) @ masked w 1 opText (message_request env opt msg)
       @ masked w 2 opClose (put_be 2 1000)"
proof -
  let ?p = "send_init_params (co_name opt)" and ?m = "NewUUIDv7 (ce_clock env) (ce_rnd env)"
  obtain r1 s1 r2 s2 where r: "InitializeOn (ce_init env) lib ?p (new_client w) = (r1, s1)"
    "QueueMessageOn (ce_queue env) lib ?m (co_to opt) msg ?m s1 = (r2, s2)" by force
  have p: "CIName (IPClientInfo ?p) \<noteq> []" "versioned ?p = ?p" using assms(9) by (simp_all add: send_init_params_def versioned_def)
  note s = codex_session [OF assms(1-8) p(1) assms(10,11) r]
  have o: "ws_out (cws s2) = ws_out w @ masked w 0 opText (handshake_request opt) @ masked w 1 opText (message_request env opt msg)"
    using s(4) NewUUIDv7_nonempty by (simp add: p(2) handshake_request_def message_request_def)
  have "\<not> cclosed s2" using s(3) by (simp add: idle_def)
  from CloseOn_out [OF s(7) this] have "ws_out (cws (CloseOn s2)) = ws_out w @ masked w 0 opText (handshake_request opt)
      @ masked w 1 opText (message_request env opt msg) @ masked w 2 opClose (put_be 2 1000)"
    using s(5,6) o by (simp add: masked_def)
  then show thesis by (rule that [rotated]) (simp add: codex_queue_def r s(1,2) Let_def)
qed

text \<open>
  (C15) A message given on the command line is queued in the thread it names. For any options and
  any text there is a command line; when the daemon accepts the connection and answers both
  requests, whatever else it says in between, the command exits 0 and prints the id the daemon
  gave the message; and what the daemon reads on the connection is the handshake with the name
  given, the one message with that thread, that text and a fresh id, and the close, in this
  order and nothing else.
\<close>

theorem codex_send_reaches_daemon:
  assumes "DialCodex h \<lparr>OSocketPath = co_socket opt, OPath = []\<rparr> (ce_nonce env) (ce_conn env) (ce_answer env) = Inr (new_client w)"
    and "healthy w" "ws_in w = daemon_stream ts1 v ts2 (json_of_ThreadQueueAddResult q) @ rest"
    and "list_all (foreign 1) ts1" "list_all (foreign 2) ts2" "answerable v 1" "json_print v \<noteq> []"
    and "answerable (json_of_ThreadQueueAddResult q) 2" "plain_inputs (QSInput q)"
    and "int64 (co_timeout opt)" "co_to opt \<noteq> []" "msg \<noteq> []" "co_name opt \<noteq> []"
    and "length ts1 + 2 \<le> ce_init env" "length ts2 + 2 \<le> ce_queue env"
    and "length (handshake_request opt) \<le> maxFrame" "length (message_request env opt msg) \<le> maxFrame"
  shows "\<exists>c. codex_run lib env (codex_args opt msg) h
      = \<lparr>r_exit = exitOK, r_out = [CodexLine (queued_line opt (norm_QueuedSubmission q))], r_client = Some c\<rparr>
    \<and> read_frames read_ws 3 (drop (length (ws_out w)) (ws_out (cws c)))
      = Some ([(opText, handshake_request opt, True), (opText, message_request env opt msg, True),
               (opClose, put_be 2 1000, True)], [])"
proof -
  obtain c where c: "codex_queue lib env opt msg (new_client w)
      = \<lparr>r_exit = exitOK, r_out = [CodexLine (queued_line opt (norm_QueuedSubmission q))], r_client = Some c\<rparr>"
    "ws_out (cws c) = ws_out w @ masked w 0 opText (handshake_request opt) @ masked w 1 opText (message_request env opt msg)
       @ masked w 2 opClose (put_be 2 1000)"
    using codex_queue_answered [OF assms(2-9,13-15)] by blast
  have "codex_run lib env (codex_args opt msg) h = codex_queue lib env opt msg (new_client w)"
    using assms(1,11,12) codex_args_parse [OF assms(10)] by (simp add: codex_run_def)
  then show ?thesis using c(1) session_wire [OF assms(2,16,17) c(2)] by auto
qed

subsection \<open>A run\<close>

definition sample_submission :: QueuedSubmission where
  "sample_submission = \<lparr>QSID = ''q1'', QSInput = [TextInput ''hi''], QSClientUserMessageID = []\<rparr>"

definition accepting :: "bytes \<Rightarrow> http_response" where
  "accepting tail = \<lparr>StatusCode = 101,
     Headers = [(''Upgrade'', ''websocket''), (''Sec-WebSocket-Accept'', wsAccept (base64 []))], After = tail\<rparr>"

definition sample_stream :: bytes where
  "sample_stream = daemon_stream [] (JObj []) [] (json_of_ThreadQueueAddResult sample_submission)"

definition codex_sample :: codex_env where
  "codex_sample = \<lparr>ce_nonce = [], ce_conn = sample_ws, ce_answer = (\<lambda>_. Some (accepting sample_stream)),
     ce_clock = 0, ce_rnd = replicate 16 0, ce_init = 2, ce_queue = 2\<rparr>"

definition codex_sample_options :: codex_options where
  "codex_sample_options = codex_defaults\<lparr>co_to := ''t''\<rparr>"

lemma sample_dials:
  obtains w where "DialCodex daemon_host \<lparr>OSocketPath = [], OPath = []\<rparr> [] sample_ws (\<lambda>_. Some (accepting tail)) = Inr (new_client w)"
    "healthy w" "ws_in w = tail"
proof -
  have "foldName ''Sec-WebSocket-Accept'' \<noteq> foldName ''Upgrade''" by code_simp
  then have h: "header_get (accepting tail) ''Upgrade'' = ''websocket''"
    "header_get (accepting tail) ''Sec-WebSocket-Accept'' = wsAccept (base64 [])"
    by (simp_all add: header_get_def accepting_def)
  have t: "StatusCode (accepting tail) = 101" "After (accepting tail) = tail" by (simp_all add: accepting_def)
  have f: "\<not> h_fault daemon_host c q" for c q by (simp add: daemon_host_def idle_host_def)
  let ?w = "sample_ws\<lparr>ws_out := bytes_of (upgrade_request ''localhost'' ''/'' (base64 [])), ws_writes := 1, ws_in := tail\<rparr>"
  have "DialCodex daemon_host \<lparr>OSocketPath = [], OPath = []\<rparr> [] sample_ws (\<lambda>_. Some (accepting tail)) = Inr (new_client ?w)"
    by (simp add: DialCodex_def dial_path_def DefaultSocket_daemon_host f wsHandshake_def Let_def ws_write_def h t)
      (simp add: sample_ws_def)
  then show thesis by (rule that) (simp_all add: healthy_def sample_ws_def)
qed

lemma NewUUIDv7_length: "length (NewUUIDv7 0 (replicate 16 0)) \<le> 100"
  by (simp add: NewUUIDv7_def v7_format_def Let_def)

lemma sample_answerable: "answerable (JObj []) 1" "answerable (json_of_ThreadQueueAddResult sample_submission) 2"
  using length_json_print [of "JObj [jmember ''id'' (JNum (itoa 1)), jmember ''result'' (JObj [])]"]
    length_json_print [of "JObj [jmember ''id'' (JNum (itoa 2)), jmember ''result'' (json_of_ThreadQueueAddResult sample_submission)]"]
  by (simp_all add: answerable_def response_text_def sample_submission_def size_simps itoa_one_two maxFrame_def maxNestingDepth_def)

lemma sample_requests:
  "length (handshake_request codex_sample_options) \<le> maxFrame"
  "length (message_request codex_sample codex_sample_options ''hi'') \<le> maxFrame"
  using length_json_print [of "json_of_Request \<lparr>ReqID = IntID 1, Method = MethodInitialize,
      Params = Some (json_of_InitializeParams (send_init_params (co_name codex_sample_options)))\<rparr>"]
    length_json_print [of "json_of_Request \<lparr>ReqID = IntID 2, Method = MethodThreadQueueAdd,
      Params = Some (queue_params (co_to codex_sample_options) ''hi'' (NewUUIDv7 0 (replicate 16 0)))\<rparr>"] NewUUIDv7_length
  by (simp_all add: handshake_request_def message_request_def request_text_def request_line_def size_simps itoa_one_two
      codex_sample_options_def codex_defaults_def codex_sample_def send_init_params_def MethodInitialize_def
      MethodThreadQueueAdd_def maxFrame_def)

theorem codex_send_reaches_daemon_witness:
  "\<exists>(w :: wsConn) c. codex_run sample_lib codex_sample (codex_args codex_sample_options ''hi'') daemon_host
      = \<lparr>r_exit = exitOK, r_out = [CodexLine (queued_line codex_sample_options (norm_QueuedSubmission sample_submission))],
         r_client = Some c\<rparr>
    \<and> read_frames read_ws 3 (drop (length (ws_out w)) (ws_out (cws c)))
      = Some ([(opText, handshake_request codex_sample_options, True),
               (opText, message_request codex_sample codex_sample_options ''hi'', True), (opClose, put_be 2 1000, True)], [])"
proof -
  obtain w where w: "DialCodex daemon_host \<lparr>OSocketPath = [], OPath = []\<rparr> [] sample_ws (\<lambda>_. Some (accepting sample_stream)) = Inr (new_client w)"
    "healthy w" "ws_in w = sample_stream" using sample_dials by blast
  have d: "DialCodex daemon_host \<lparr>OSocketPath = co_socket codex_sample_options, OPath = []\<rparr> (ce_nonce codex_sample)
      (ce_conn codex_sample) (ce_answer codex_sample) = Inr (new_client w)"
    using w(1) by (simp add: codex_sample_options_def codex_defaults_def codex_sample_def)
  have i: "ws_in w = daemon_stream [] (JObj []) [] (json_of_ThreadQueueAddResult sample_submission) @ []"
    using w(3) by (simp add: sample_stream_def)
  have n: "json_print (JObj []) \<noteq> []" "plain_inputs (QSInput sample_submission)"
    by (simp_all add: sample_submission_def plain_inputs_def TextInput_def)
  have o: "int64 (co_timeout codex_sample_options)" "co_to codex_sample_options \<noteq> []" "co_name codex_sample_options \<noteq> []"
    by (simp_all add: codex_sample_options_def codex_defaults_def int64_def)
  have k: "length ([] :: bytes list) + 2 \<le> ce_init codex_sample" "length ([] :: bytes list) + 2 \<le> ce_queue codex_sample"
    by (simp_all add: codex_sample_def)
  have l: "list_all (foreign j) []" "''hi'' \<noteq> []" for j by simp_all
  from codex_send_reaches_daemon [OF d w(2) i l(1) l(1) sample_answerable(1) n(1) sample_answerable(2) n(2) o(1,2) l(2) o(3) k
      sample_requests, of sample_lib]
  show ?thesis by (rule exI [of _ w])
qed

end
