(* ===== verification/Codex_Delivery.thy ===== *)
theory Codex_Delivery
  imports Codex_Session Deliver_Codex
begin

text \<open>
  \<open>Deliver\<close> of \<open>deliver/codex.go\<close> on the network: the same function as \<open>DeliverCodex\<close>, with the
  clients of \<open>Codex_Client\<close> in the place of a daemon that is a table of answers. Every dial goes
  through the handshake, every request of the delivery is a call on the client that dial made,
  and what the calls write is on that client's connection afterwards.
\<close>

text \<open>
  The network: what the n-th dial draws, finds and is answered, and the clients that were made.
\<close>

record network =
  nw_nonce :: "nat \<Rightarrow> bytes"
  nw_conn :: "nat \<Rightarrow> wsConn"
  nw_answer :: "nat \<Rightarrow> gostring \<Rightarrow> http_response option"
  nw_live :: "nat \<Rightarrow> CodexClient"

definition dialOn :: "host \<Rightarrow> network \<Rightarrow> nat \<Rightarrow> codex_dial_error + CodexClient" where
  "dialOn h nw n = DialCodex h \<lparr>OSocketPath = [], OPath = []\<rparr> (nw_nonce nw n) (nw_conn nw n) (nw_answer nw n)"

definition set_live :: "nat \<Rightarrow> CodexClient \<Rightarrow> network \<Rightarrow> network" where
  "set_live n s nw = nw\<lparr>nw_live := (nw_live nw)(n := s)\<rparr>"

text \<open>\<open>Close\<close> of the backend.\<close>

definition closeBackendOn :: "codexBackend \<Rightarrow> network \<Rightarrow> codexBackend \<times> network" where
  "closeBackendOn c nw =
     (CloseCodex c, case bclient c of None \<Rightarrow> nw | Some n \<Rightarrow> set_live n (CloseOn (nw_live nw n)) nw)"

text \<open>\<open>connect\<close>, with \<open>k\<close> turns for the handshake of the app server.\<close>

definition connectOn ::
    "nat \<Rightarrow> lib_text \<Rightarrow> host \<Rightarrow> codexBackend \<Rightarrow> network \<Rightarrow> (connect_error + nat) \<times> codexBackend \<times> network" where
  "connectOn k lib h c nw =
     (case bclient c of
        Some n \<Rightarrow> (Inr n, c, nw)
      | None \<Rightarrow>
          let n = dials c; c1 = c\<lparr>dials := n + 1\<rparr>; lost = c1\<lparr>bclosed := insert n (bclosed c1)\<rparr> in
          case dialOn h nw n of
            Inl e \<Rightarrow> (Inl (ConnDial e), lost, nw)
          | Inr client \<Rightarrow>
              (case InitializeOn k lib (init_params (codex_senderName h c1)) client of
                 (Inl e, s) \<Rightarrow> (Inl (ConnInit (Wrapped ''initialize'' e)), lost, set_live n (CloseOn s) nw)
               | (Inr _, s) \<Rightarrow>
                   (case connect_store n c1 of
                      (i, c2) \<Rightarrow> (Inr i, c2, set_live n (if i = n then s else CloseOn s) nw))))"

definition DeliverOn ::
    "nat \<Rightarrow> nat \<Rightarrow> lib_text \<Rightarrow> host \<Rightarrow> gostring \<Rightarrow> codexBackend \<Rightarrow> network \<Rightarrow> Delivery
     \<Rightarrow> (codex_error + Receipt) \<times> codexBackend \<times> network" where
  "DeliverOn k1 k2 lib h fresh c nw d =
     (case AvailableCodex h c of
        Some reason \<Rightarrow> (Inl (CodexUnavailable reason), c, nw)
      | None \<Rightarrow>
          let thr = thread c; text = compose d in
          if \<not> fst (FitsCodex d) then (Inl (CodexTooLong (runeCount text) codexMaxChars), c, nw)
          else (case connectOn k1 lib h c nw of
                  (Inl e, c1, nw1) \<Rightarrow> (Inl (CodexConnect e), c1, nw1)
                | (Inr n, c1, nw1) \<Rightarrow>
                    (case QueueMessageOn k2 lib fresh thr text [] (nw_live nw1 n) of
                       (Inl e, s) \<Rightarrow> (Inl (CodexNotQueued e), closeBackendOn c1 (set_live n s nw1))
                     | (Inr res, s) \<Rightarrow> (Inr (codex_receipt text res), c1, set_live n s nw1))))"

subsection \<open>The two models of \<open>Deliver\<close> agree\<close>

text \<open>The network as a table of answers, for a delivery that starts on it.\<close>

definition daemon_of :: "nat \<Rightarrow> nat \<Rightarrow> lib_text \<Rightarrow> host \<Rightarrow> codexBackend \<Rightarrow> network \<Rightarrow> daemon" where
  "daemon_of k1 k2 lib h c nw =
     \<lparr>dm_dial = (\<lambda>n. case dialOn h nw n of Inl e \<Rightarrow> Some e | Inr _ \<Rightarrow> None),
      dm_call = (\<lambda>n method params.
        if bclient c \<noteq> None then caller_on k2 (nw_live nw n) method params
        else case dialOn h nw n of
               Inl _ \<Rightarrow> Inl CallContext
             | Inr client \<Rightarrow>
                 if method = MethodInitialize then caller_on k1 client method params
                 else caller_on k2 (snd (InitializeOn k1 lib (init_params (codex_senderName h c)) client)) method params)\<rparr>"

lemma QueueMessage_cong:
  assumes "\<And>p. call MethodThreadQueueAdd p = call' MethodThreadQueueAdd p"
  shows "QueueMessage lib call fresh thr text cid = QueueMessage lib call' fresh thr text cid"
  by (simp add: QueueMessage_def Let_def assms)

lemma Initialize_cong:
  assumes "\<And>p. call MethodInitialize p = call' MethodInitialize p"
  shows "Initialize lib call p = Initialize lib call' p"
  by (simp add: Initialize_def Let_def assms)

lemma senderName_dials [simp]: "codex_senderName h (c\<lparr>dials := m\<rparr>) = codex_senderName h c"
  by (simp add: codex_senderName_def)

lemma DeliverOn_refines:
  assumes "DeliverOn k1 k2 lib h fresh c nw d = (r, c', nw')"
  shows "DeliverCodex lib h (daemon_of k1 k2 lib h c nw) fresh c d = (r, c')"
proof -
  let ?dm = "daemon_of k1 k2 lib h c nw" and ?p = "init_params (codex_senderName h c)"
  have q: "QueueMessage lib (dm_call ?dm n) fresh (thread c) (compose d) []
      = fst (QueueMessageOn k2 lib fresh (thread c) (compose d) [] (nw_live nw1 n))"
    if "connectOn k1 lib h c nw = (Inr n, c1, nw1)" for n c1 nw1
    using that
    by (auto simp: connectOn_def daemon_of_def QueueMessageOn_def Let_def connect_store_def set_live_def MethodInitialize_def
        MethodThreadQueueAdd_def split: option.splits sum.splits prod.splits intro!: QueueMessage_cong)
  have i: "Initialize lib (dm_call ?dm n) ?p = fst (InitializeOn k1 lib ?p client)"
    if "bclient c = None" "dialOn h nw n = Inr client" for n client
    using that by (auto simp: daemon_of_def InitializeOn_def intro!: Initialize_cong)
  have c: "connect lib h ?dm c = (x, c1)" if "connectOn k1 lib h c nw = (x, c1, nw1)" for x c1 nw1
  proof (cases "bclient c")
    case None
    show ?thesis
    proof (cases "dialOn h nw (dials c)")
      case (Inl e)
      then show ?thesis
        using that None by (auto simp: connect_def connectOn_def connect_dial_def Let_def daemon_of_def)
    next
      case (Inr client)
      obtain y s where y: "InitializeOn k1 lib ?p client = (y, s)" by force
      have "connect_dial ?dm c = (Inr (dials c), c\<lparr>dials := dials c + 1\<rparr>)"
        using Inr by (simp add: connect_dial_def Let_def daemon_of_def)
      then show ?thesis
        using that None i [OF None Inr] Inr y
        by (cases y) (auto simp: connect_def connectOn_def connect_init_def Let_def split: prod.splits)
    qed
  qed (use that in \<open>simp add: connect_def connectOn_def\<close>)
  show ?thesis
    using assms c q
    by (auto simp: DeliverOn_def DeliverCodex_def closeBackendOn_def Let_def split: option.splits if_splits prod.splits sum.splits)
qed

lemma echoed_receipt:
  assumes "validString text" "text \<noteq> []"
  shows "codex_receipt text (norm_QueuedSubmission \<lparr>QSID = sid, QSInput = [TextInput text], QSClientUserMessageID = cid\<rparr>)
    = \<lparr>Observed = ObservedStored, Detail = EchoMatched\<rparr>"
  using assms by (simp add: codex_receipt_def norm_QueuedSubmission_def norm_UserInput_def TextInput_def validString_def Let_def)

text \<open>
  (C16) A delivery to a Codex session is one message in its thread. The backend has a target and no
  connection yet; the dial succeeds, and the daemon answers the handshake and stores and echoes the
  message, whatever else it says in between. Then the delivery reports \<open>stored\<close>, the backend keeps
  the connection, which is ready for the next delivery, and what the daemon read on it, after the
  upgrade, is what this delivery's own calls wrote: the handshake under the backend's name and one
  request that queues the composed text in the target thread.
\<close>

theorem codex_delivery_reaches_daemon:
  assumes "AvailableCodex h b = None" "bclient b = None" "fst (FitsCodex d)" "codex_senderName h b \<noteq> []" "fresh \<noteq> []"
    and "validString (compose d)" "p = init_params (codex_senderName h b)"
    and "q = \<lparr>QSID = sid, QSInput = [TextInput (compose d)], QSClientUserMessageID = cid\<rparr>"
    and "dialOn h nw (dials b) = Inr client" "w = cws client"
    and "healthy w" "ws_in w = daemon_stream ts1 v ts2 (json_of_ThreadQueueAddResult q) @ rest"
    and "list_all (foreign 1) ts1" "list_all (foreign 2) ts2" "answerable v 1" "json_print v \<noteq> []"
    and "answerable (json_of_ThreadQueueAddResult q) 2" "length ts1 + 2 \<le> k1" "length ts2 + 2 \<le> k2"
    and "length (request_text 1 MethodInitialize (json_of_InitializeParams p)) \<le> maxFrame"
    and "length (request_text 2 MethodThreadQueueAdd (queue_params (thread b) (compose d) fresh)) \<le> maxFrame"
  shows "\<exists>nw'. DeliverOn k1 k2 lib h fresh b nw d
      = (Inr \<lparr>Observed = ObservedStored, Detail = EchoMatched\<rparr>, b\<lparr>dials := dials b + 1, bclient := Some (dials b)\<rparr>, nw')
    \<and> idle (nw_live nw' (dials b)) \<and> ws_in (cws (nw_live nw' (dials b))) = rest
    \<and> read_frames read_ws 2 (drop (length (ws_out w)) (ws_out (cws (nw_live nw' (dials b)))))
      = Some ([(opText, request_text 1 MethodInitialize (json_of_InitializeParams p), True),
               (opText, request_text 2 MethodThreadQueueAdd (queue_params (thread b) (compose d) fresh), True)], [])"
proof -
  have c: "compose d \<noteq> []" by (simp add: compose_def Let_def)
  have new: "client = new_client w"
    using codex_dial_checked [OF assms(9) [unfolded dialOn_def]] assms(10) by blast
  obtain r1 s1 where r1: "InitializeOn k1 lib p (new_client w) = (r1, s1)" by force
  obtain r2 s2 where r2: "QueueMessageOn k2 lib fresh (thread b) (compose d) [] s1 = (r2, s2)" by force
  have p: "CIName (IPClientInfo p) \<noteq> []" "versioned p = p" using assms(4) by (simp_all add: assms(7) init_params_def versioned_def)
  have q: "plain_inputs (QSInput q)" by (simp add: assms(8) plain_inputs_def TextInput_def)
  note s = codex_session [OF assms(11-17) q p(1) assms(18,19) r1 r2]
  have "init_params (codex_senderName h (b\<lparr>dials := dials b + 1\<rparr>)) = p"
    by (simp add: assms(7) codex_senderName_def)
  then have "connectOn k1 lib h b nw
      = (Inr (dials b), b\<lparr>dials := dials b + 1, bclient := Some (dials b)\<rparr>, set_live (dials b) s1 nw)"
    using assms(2,9) new r1 s(1) by (simp add: connectOn_def Let_def connect_store_def)
  then have d: "DeliverOn k1 k2 lib h fresh b nw d
      = (Inr \<lparr>Observed = ObservedStored, Detail = EchoMatched\<rparr>, b\<lparr>dials := dials b + 1, bclient := Some (dials b)\<rparr>,
         set_live (dials b) s2 (set_live (dials b) s1 nw))"
    using assms(1,3,6) c echoed_receipt r2 s(2) by (simp add: DeliverOn_def Let_def assms(8) set_live_def)
  have "read_frames read_ws 2 (drop (length (ws_out w)) (ws_out (cws s2)))
      = Some ([(opText, request_text 1 MethodInitialize (json_of_InitializeParams p), True),
               (opText, request_text 2 MethodThreadQueueAdd (queue_params (thread b) (compose d) fresh), True)], [])"
    using read_masked [OF assms(11), of "[(0, opText, request_text 1 MethodInitialize (json_of_InitializeParams p)),
        (1, opText, request_text 2 MethodThreadQueueAdd (queue_params (thread b) (compose d) fresh))]" "[]"] assms(5,20,21)
    by (simp add: s(4) p(2) opText_def numeral_2_eq_2)
  then show ?thesis using d s(3,8) by (intro exI [of _ "set_live (dials b) s2 (set_live (dials b) s1 nw)"]) (simp add: set_live_def)
qed

subsection \<open>A delivery\<close>

definition hello_submission :: QueuedSubmission where
  "hello_submission = \<lparr>QSID = ''q1'', QSInput = [TextInput (compose hello)], QSClientUserMessageID = []\<rparr>"

text \<open>A daemon that accepts the upgrade and has its two answers ready.\<close>

definition hello_network :: network where
  "hello_network = \<lparr>nw_nonce = (\<lambda>_. [1, 2, 3]), nw_conn = (\<lambda>_. sample_ws),
     nw_answer = (\<lambda>_ _. Some \<lparr>StatusCode = 101,
       Headers = [(''Upgrade'', ''WebSocket''), (''Sec-WebSocket-Accept'', wsAccept (base64 [1, 2, 3]))],
       After = daemon_stream [] (JObj []) [] (json_of_ThreadQueueAddResult hello_submission)\<rparr>),
     nw_live = (\<lambda>_. new_client sample_ws)\<rparr>"

lemma hello_dial:
  obtains client where "dialOn daemon_host hello_network 0 = Inr client" "healthy (cws client)"
    "ws_in (cws client) = daemon_stream [] (JObj []) [] (json_of_ThreadQueueAddResult hello_submission) @ []"
proof -
  let ?w = "sample_ws\<lparr>ws_in := daemon_stream [] (JObj []) [] (json_of_ThreadQueueAddResult hello_submission),
      ws_out := bytes_of (upgrade_request ''localhost'' ''/'' (base64 [1, 2, 3])), ws_writes := 1\<rparr>"
  have "\<not> h_fault daemon_host f p" for f p by (simp add: daemon_host_def idle_host_def)
  then have "dialOn daemon_host hello_network 0 = Inr (new_client ?w)"
    by (simp add: dialOn_def hello_network_def DialCodex_def dial_path_def DefaultSocket_daemon_host wsHandshake_def
        header_get_def upgrade_names Let_def ws_write_def sample_ws_def)
  then show thesis by (rule that) (simp_all add: new_client_def healthy_def sample_ws_def)
qed

lemma compose_nonempty [simp]: "compose d \<noteq> []"
  by (simp add: compose_def Let_def)

lemma length_hello: "length (compose hello) \<le> 200"
  by (simp add: compose_def hello_def Let_def)

lemma hello_answerable: "answerable (JObj []) 1" "answerable (json_of_ThreadQueueAddResult hello_submission) 2"
  using length_json_print [of "JObj [jmember ''id'' (JNum (itoa 1)), jmember ''result'' (JObj [])]"]
    length_json_print [of "JObj [jmember ''id'' (JNum (itoa 2)), jmember ''result'' (json_of_ThreadQueueAddResult hello_submission)]"]
    length_hello
  by (simp_all add: answerable_def response_text_def hello_submission_def size_simps itoa_one_two maxFrame_def maxNestingDepth_def)

lemma hello_requests:
  "length (request_text 1 MethodInitialize (json_of_InitializeParams (init_params ''me''))) \<le> maxFrame"
  "length (request_text 2 MethodThreadQueueAdd (queue_params ''t1'' (compose hello) ''f'')) \<le> maxFrame"
  using length_json_print [of "json_of_Request \<lparr>ReqID = IntID 1, Method = MethodInitialize,
      Params = Some (json_of_InitializeParams (init_params ''me''))\<rparr>"]
    length_json_print [of "json_of_Request \<lparr>ReqID = IntID 2, Method = MethodThreadQueueAdd,
      Params = Some (queue_params ''t1'' (compose hello) ''f'')\<rparr>"] length_hello
  by (simp_all add: request_text_def request_line_def size_simps itoa_one_two init_params_def MethodInitialize_def
      MethodThreadQueueAdd_def maxFrame_def)

theorem codex_delivery_reaches_daemon_witness:
  "\<exists>b' nw' client. dialOn daemon_host hello_network 0 = Inr client
    \<and> DeliverOn 2 2 sample_lib daemon_host ''f'' latched_backend hello_network hello
      = (Inr \<lparr>Observed = ObservedStored, Detail = EchoMatched\<rparr>, b', nw')
    \<and> read_frames read_ws 2 (drop (length (ws_out (cws client))) (ws_out (cws (nw_live nw' 0))))
      = Some ([(opText, request_text 1 MethodInitialize (json_of_InitializeParams (init_params ''me'')), True),
               (opText, request_text 2 MethodThreadQueueAdd (queue_params ''t1'' (compose hello) ''f''), True)], [])"
proof -
  have b: "codex_senderName daemon_host latched_backend = ''me''" "thread latched_backend = ''t1''" "dials latched_backend = 0"
    by (simp_all add: codex_senderName_def latched_backend_def newCodex_def)
  obtain client where w: "dialOn daemon_host hello_network (dials latched_backend) = Inr client" "healthy (cws client)"
    "ws_in (cws client) = daemon_stream [] (JObj []) [] (json_of_ThreadQueueAddResult hello_submission) @ []"
    using hello_dial unfolding b(3) by metis
  have n: "codex_senderName daemon_host latched_backend \<noteq> []" "''f'' \<noteq> []" "json_print (JObj []) \<noteq> []"
    "length ([] :: bytes list) + 2 \<le> 2" "init_params ''me'' = init_params (codex_senderName daemon_host latched_backend)"
    by (simp_all add: b)
  have l: "list_all (foreign j) []" for j by simp
  note t = codex_delivery_reaches_daemon [OF latched_facts(1,2,4) n(1,2) latched_facts(5) n(5) hello_submission_def w(1) refl w(2,3)
      l l hello_answerable(1) n(3) hello_answerable(2) n(4) n(4) hello_requests(1) hello_requests(2) [folded b(2)], of sample_lib]
  from t w(1) show ?thesis unfolding b(2,3) by blast
qed

end
