(* ===== verification/Spec2Isabelle.thy ===== *)
theory Spec2Isabelle
  imports Wire_Types Harness Claude_Send Codex_Send Codex_Delivery
begin

text \<open>
  \<^bold>\<open>A verification of harness-transport.\<close>

  The program puts messages into running coding sessions from outside. It has three packages and
  two commands, all under \<open>src/\<close>.

  \<^item> \<open>udsmsg\<close> talks to Claude Code sessions. Each session has an inbox, a Unix socket named after
    its pid in a private directory. A sender finds the socket, reads the token of the inbox from
    a key file, connects, sends an \<open>auth\<close> line and then one JSON line for each message; the text
    of a message may be wrapped in an element that says who sent it. The package has the sending
    side, the inbox itself, and the registry in which a session announces its name.
  \<^item> \<open>codexmsg\<close> talks to the Codex app server: JSON-RPC requests over a WebSocket over a Unix
    socket, one connection shared by any number of callers and read by one goroutine.
  \<^item> \<open>deliver\<close> puts a message into whichever harness launched the process. It decides on one of
    the two packages once, from the environment, and adopts the identity of the session from the
    requests it serves, after which nothing may point it elsewhere.
  \<^item> \<open>cmd/claude-send\<close> and \<open>cmd/codex-send\<close> are the commands: the first sends one message with
    \<open>udsmsg\<close> and may open an inbox to wait for the answer, the second queues one message with
    \<open>codexmsg\<close>.

  \<^bold>\<open>Theories.\<close> \<open>Prelude\<close> has bytes, Go strings and the generic list facts; \<open>Interfaces\<close> the
  contracts that several components meet: \<open>framing\<close> (a decoder that undoes an encoder on a
  stream), \<open>transition_system\<close> (steps with an invariant), \<open>latching_system\<close> (one with a flag
  that is never cleared) and \<open>ranked_system\<close> (one whose work comes to rest because it lowers a rank).
  \<open>Wire_Types\<close> adds \<open>typed_decoder\<close>, a decoder of fields that keeps a type, and \<open>Deliver\<close> adds
  \<open>deliverer\<close>, the promise of \<open>deliver.Deliverer\<close> that an adopted target is never replaced.

  The Go library the code calls is modelled, not assumed: \<open>Utf8\<close> (runes, invalid bytes),
  \<open>Go_Text\<close> (\<open>strconv\<close>, \<open>strings\<close>, \<open>path/filepath\<close>), \<open>Json\<close> (\<open>encoding/json\<close>, both ways, with
  its escaping, case folding, repeated members and the repair of invalid text), \<open>Go_Flag\<close> (\<open>flag\<close>
  and \<open>strconv.ParseInt\<close>), \<open>Go_Time\<close> (\<open>time.Duration\<close>, with the floating point of its fractions),
  \<open>Sha\<close> (SHA-256 and SHA-1) and \<open>Base64\<close>. \<open>Host\<close> is the operating system as the program sees it: files with mode
  and owner, the environment, the process table, and a fault function that says which system
  calls fail. It is an argument of every operation that makes a system call.

  \<^item> \<open>Frame\<close>: \<open>frame.go\<close>, the lines of the inbox protocol, and message ids; \<open>Addr\<close>: \<open>addr.go\<close>,
    addresses, socket names and the privacy check of a directory; \<open>Attrib\<close>: \<open>attrib.go\<close>, the
    element round a text; \<open>Proc\<close>: \<open>proc.go\<close> and \<open>peer*.go\<close>; \<open>Keyfile\<close>, \<open>Discover\<close>, \<open>Session\<close>: the
    files of those names.
  \<^item> \<open>Line_Reader\<close>, \<open>Server\<close>, \<open>Inbox\<close>: \<open>server.go\<close>. A connection is the chunks that arrive, each
    with its time, and how it ends; \<open>readLine\<close> works through them with Go's buffered reader.
    \<open>dispatch\<close> and \<open>handleConn\<close> return the calls of handlers and the drops in order. \<open>Listen\<close>
    and \<open>Close\<close> are in \<open>Inbox\<close>. \<open>Serve_Steps\<close> is \<open>server.go\<close> from \<open>Serve\<close> to \<open>Close\<close> once more, as a
    step relation \<open>sv_step\<close> over the accept loop, the goroutine that waits for the end of the
    context, the connections and any number of calls of \<open>Close\<close>, whose critical section and three
    removals are steps of their own; \<open>sv_work\<close> are the steps the code takes of itself. \<open>Wire_Types\<close>
    has what a handler may rely on, as types of JSON values and of frames.
  \<^item> \<open>Client\<close>: \<open>client.go\<close>, a client carrying the bytes it has written.
  \<^item> \<open>Ws\<close>, \<open>Jsonrpc\<close>, \<open>Uuid7\<close>, \<open>Codex_Discover\<close>, \<open>Methods\<close>: the files of those names in
    \<open>codexmsg\<close>. A WebSocket connection is the bytes still to come with what follows them (the end of
    the connection, or silence on an open one), the bytes written so far, and whether writes fail.
  \<^item> \<open>Codex_Client\<close>: \<open>client.go\<close> of \<open>codexmsg\<close> as a step relation \<open>cstep\<close>. A step is what one
    goroutine does between two points where another can interfere: one critical section of \<open>mu\<close>
    or of \<open>writeMu\<close>, one channel operation, one read. The state has the table of waiting calls,
    every channel made, the phase of every call and what remains to be closed by \<open>fail\<close>, so that
    a send on a closed channel or a second close would be visible as a panic. \<open>Close\<close> is three
    steps: its test of \<open>closed\<close>, \<open>ws.Close\<close>, and \<open>fail\<close>. \<open>Codex_Progress\<close> adds the steps that happen by
    themselves (\<open>settle\<close>) with their rank; \<open>Codex_Call\<close> has \<open>Call\<close> from beginning to end for a caller
    that is alone on its connection, as one run of these steps, and \<open>Codex_Session\<close> puts the methods
    and \<open>Close\<close> on top of it.
  \<^item> \<open>Deliver\<close>, \<open>Deliver_Claude\<close>, \<open>Deliver_Codex\<close>, \<open>Harness\<close>: \<open>deliver.go\<close>, \<open>claude.go\<close>, \<open>codex.go\<close>
    and \<open>Open\<close>. \<open>Deliver_Codex\<close> has each delivery run alone; \<open>Deliver_Steps\<close> has the same
    operations as a step relation in which deliveries, requests and closes interleave at the
    critical sections of \<open>codexBackend.mu\<close>. \<open>Codex_Delivery\<close> has a delivery once more on the
    clients of \<open>Codex_Client\<close>: the dial is the handshake, each request is a call whose bytes are on
    the connection afterwards (\<open>DeliverOn\<close>), and the two models agree (\<open>DeliverOn_refines\<close>).
  \<^item> \<open>Claude_Send\<close>, \<open>Codex_Send\<close>: the commands, from the argument list to the exit code, what is
    printed, and the host or the connection they leave.

  \<^bold>\<open>What is shown.\<close>

  \<^item> The inbox: with \<open>RequireAuth\<close> nothing reaches a handler unauthenticated
    (\<open>require_auth_gate\<close>); how the bytes of a connection are cut into chunks does not matter
    (\<open>readLine_refines\<close>, \<open>handleConn_refines\<close>); a line stream has one reading; handlers get typed
    frames only (\<open>handlers_get_typed_frames\<close>); binding gives a private inbox with exactly the published
    token; closing removes the socket, and the key file unless a symbolic link leads to the socket, when
    the published key stays (\<open>close_removes_inbox\<close>); over a whole life with any number of connections the handlers are
    called with the events of the connections, in order, each once (\<open>inbox_calls_handlers\<close>);
    concurrent calls of \<open>Close\<close> amount to one (\<open>closes_refine_close\<close>), and serving ends, but for
    connections whose peers keep them open (\<open>serve_shuts_down\<close>).
  \<^item> Encodings undo each other: frames, the element round a text, WebSocket frames and
    fragmented messages, key files, queued submissions, composed deliveries.
  \<^item> End to end: what a client sends is what a handler gets (\<open>client_to_inbox\<close>), also through
    \<open>deliver\<close> (\<open>claude_delivery_arrives\<close>) and from the command line
    (\<open>claude_send_reaches_inbox\<close> below); an answer comes back to the command that waits for it
    (\<open>claude_reply_printed\<close>); a Codex message is the one request the daemon reads after the handshake
    (\<open>codex_send_reaches_daemon\<close>, \<open>codex_delivery_reaches_daemon\<close>).
  \<^item> The Codex connection under every interleaving: it never panics, an answer reaches the call
    that asked, and its goroutines come to rest within a number of steps their state bounds, with
    every call returned when the daemon ends the connection or \<open>Close\<close> was called, and with the
    unanswered ones waiting when it falls silent (\<open>codex_calls_return\<close>). A pong may corrupt a request
    (\<open>unlocked_pong_corrupts_request\<close>), and a message that is broken off is refused but in one case
    (\<open>broken_messages_end\<close>).
  \<^item> Delivery: the target is the first thread that identified itself, alone and under every
    interleaving; each connection dialled has one owner until it is closed; a receipt that says
    stored is earned; the size floor holds.
  \<^item> The commands: that every set of options can be asked for, whom a reply is accepted from, when
    waiting ends, what each exit code says, and that nothing is left behind on the host, but for a
    race at a timeout (\<open>timeout_can_leave_inbox\<close>).

  \<^bold>\<open>Bounds.\<close> No recursion is cut off by fuel: the readers recurse on the bytes or chunks that
  are left, the JSON reader on the text and Go's nesting limit, and \<open>await\<close> on the events that
  happen. The number that \<open>Call\<close> of \<open>Codex_Call\<close> takes is not fuel but the life of its context, in
  turns of the reader: a call always returns, and when the daemon ends the connection in the end,
  with the context's error only if that life is shorter than what the daemon sends
  (\<open>await_channel_patient\<close>). Request ids are 64-bit words, as in the code, and a connection makes fewer than
  \<open>2^64\<close> calls, which is the guard of the step that begins one: after that many the ids would
  repeat. Where else the width matters (WebSocket lengths, masks, version 7 time stamps, kernel pids, \<open>Atoi\<close>) numbers
  are words or wrap as the code does.

  \<^bold>\<open>Parameters.\<close> The kernel and the file system (\<open>host\<close>), random bytes, the clock, the bytes a peer
  sends with their times, write failures, the answers of a daemon, and the texts of errors the
  library makes. No law is assumed of them except where a theorem states it as a hypothesis.

  \<^bold>\<open>Not modelled.\<close> The wording of complaints, of the usage and of log lines (a drop is its reason, a
  failure its error); signals, and deadlines beyond what each operation observes of them; the
  HTTP reader of the WebSocket handshake, whose parsed response is a parameter; and the shell
  script that lists Codex instances. Panics of user handlers are an outcome of the call, not a
  body of code. What the handlers of \<open>claude-send\<close> print is kept apart from what the command
  prints, since the order between them is the scheduler's.
\<close>

subsection \<open>From the command to another session's inbox\<close>

text \<open>A run of \<open>send\<close> that got past the write.\<close>

lemma send_written:
  assumes "sr_client (send env opt msg h) = Some cl" "sr_code (send env opt msg h) \<noteq> exit_error" "resolve h opt = Inr t"
  obtains c0 c1 h1 i frm where "Dial h1 (se_fails env) (final_target opt t) = Inr c0"
    "SendUser (se_msg env) c0 (send_user opt h1 (send_mode h) frm msg) = (Inr i, c1)" "cl = CloseClient c1"
proof -
  let ?t = "final_target opt t"
  obtain outs r srv entry h1 where o: "open_inbox env opt h = (outs, r, srv, entry, h1)" by (metis prod.exhaust)
  have alive: "TPID ?t = 0 \<or> TProcStart ?t = [] \<or> Alive h (TPID ?t) (TProcStart ?t)"
    using assms(1,3) by (auto simp: send_def Let_def split: if_splits)
  obtain a ns where "if so_wait opt = ''none'' then (a, ns) = (AnySender, []) else (a, ns) = accepter ?t (so_anySender opt)"
    and se: "send env opt msg h = (case r of
         Some e \<Rightarrow> \<lparr>sr_code = exit_error, sr_out = progress opt ns @ outs @ [Complain e], sr_heard = inbox_output env opt a srv, sr_client = None,
                     sr_host = cleanup (se_closer env) srv entry h1\<rparr>
       | None \<Rightarrow> send_from env opt msg ?t a (progress opt ns @ outs) srv entry (send_mode h) h1)"
    by (rule send_opened [OF assms(3) refl alive o])
  then have f: "send env opt msg h = send_from env opt msg ?t a (progress opt ns @ outs) srv entry (send_mode h) h1"
    using assms(1) by (cases r) simp_all
  let ?u = "send_user opt h1 (send_mode h) (case srv of None \<Rightarrow> [] | Some s \<Rightarrow> ServerAddr s) msg"
  obtain c0 where d: "Dial h1 (se_fails env) ?t = Inr c0"
    using assms(1) f by (cases "Dial h1 (se_fails env) ?t") (simp_all add: send_from_def Let_def)
  obtain x c1 where u: "SendUser (se_msg env) c0 ?u = (x, c1)" by force
  have "\<exists>i. x = Inr i" "cl = CloseClient c1"
    using assms(1,2) f d u by (cases x; auto simp: send_from_def Let_def split: if_splits prod.splits)+
  then show thesis using that [OF d] u by blast
qed

text \<open>
  (C13) A message sent from the command line arrives in the other session: when \<open>claude-send\<close> got
  past its write, whatever it then waited for, and its bytes reach an inbox whose token is the
  one it resolved, that inbox's handler is called exactly once, for an authenticated peer, and
  the message opens to the text given on the command line followed by the note that says what
  the sender waits for.
\<close>

theorem claude_send_reaches_inbox:
  assumes "sr_client (send env opt msg h) = Some cl" "sr_code (send env opt msg h) \<noteq> exit_error" "resolve h opt = Inr t"
    and "\<not> so_noAuth opt" "\<not> so_noHint opt" "TToken t \<noteq> []" "toValid (TToken t) = token s"
    and "validString (msg @ waiting_note opt)"
    and "map snd (c_in conn) = out cl" "snd (c_end conn) = EOF" "prompt s now conn"
    and "peerCred hs cred = Inr p" "has_OnUser (CHandler (cfg s))"
  shows "\<exists>f cs. handleConn s hs cred now conn = [OnUser (p\<lparr>Addr := path s, Authed := True\<rparr>) f]
    \<and> Unwrap (Text f) = (attributed cs, msg @ waiting_note opt, True)"
proof -
  obtain c0 c1 h1 i frm where w: "Dial h1 (se_fails env) (final_target opt t) = Inr c0"
    "SendUser (se_msg env) c0 (send_user opt h1 (send_mode h) frm msg) = (Inr i, c1)" "cl = CloseClient c1"
    using send_written [OF assms(1-3)] by metis
  let ?u = "send_user opt h1 (send_mode h) frm msg"
  have t: "final_target opt t = t" using assms(4) by (simp add: final_target_def)
  have o: "map snd (c_in conn) = out c1" using assms(9) w(3) by (simp add: CloseClient_def)
  obtain cs where cs: "UAttribution ?u = Some cs" "UText ?u = msg @ waiting_note opt"
    using assms(5) by (simp add: send_user_def Let_def)
  have v: "validString (UText ?u)" using cs(2) assms(8) by simp
  obtain f where "handleConn s hs cred now conn = [OnUser (p\<lparr>Addr := path s, Authed := True\<rparr>) f]"
    "Type f = TypeUser" "Unwrap (Text f) = (attributed cs, UText ?u, True)"
    using one_message_arrives [OF w(1) _ _ w(2) cs(1) v o assms(10-13)] assms(6,7) unfolding t by blast
  then show ?thesis using cs(2) by auto
qed

text \<open>A host on which the session with pid 7 has published its key.\<close>

definition told_options :: send_options where
  "told_options = default_options\<lparr>so_toSocket := ''/tmp/7.sock'', so_wait := ''none'', so_name := ''me''\<rparr>"

lemma published_host:
  obtains h where "ReadKey h 7 ''/tmp/7.sock'' = Inr (Some \<lparr>PeerToken = ''k'', KeyProcStart = [], PIDDomain = []\<rparr>)"
    "\<And>c q. \<not> h_fault h c q"
proof -
  let ?k = "\<lparr>PeerToken = ''k'', KeyProcStart = [], PIDDomain = []\<rparr>"
  have f: "\<not> h_fault idle_host c q" "h_fs idle_host = Map.empty" for c q by (simp_all add: idle_host_def)
  obtain name where n: "keyFileName idle_host 7 ''/tmp/7.sock'' = Inr name"
    using keyFileName_total [of idle_host "''/''"] by (auto simp: idle_host_def)
  have "length (marshalKey ?k) \<le> maxKeyFileBytes"
    using length_marshalKey [of ?k] by (simp add: maxKeyFileBytes_def)
  then obtain hs where w: "writeKey [1] idle_host 7 ''/tmp/7.sock'' ?k = (None, hs)"
    using writeKey_succeeds [OF f(1) n] f(2) by (metis prod.collapse)
  have "norm_Key ?k = ?k" by (simp add: norm_Key_def toValid_ascii)
  have "path_base ''/tmp/7.sock'' = ''7.sock''" using path_base_join [of "''7.sock''" "''/tmp''"] by simp
  then have p: "''/tmp/7.sock'' \<noteq> path_join [sessionsDir idle_host, name] \<and> ''/tmp/7.sock'' \<noteq> sessionsDir idle_host"
    using path_base_path_join [OF keyFileName_plain(1) [OF n], of "sessionsDir idle_host"]
      sessionsDir_base [of idle_host] key_name_shape [OF n] by auto
  have free: "h_fs idle_host (key_tmp idle_host name [1]) = None" using f(2) by simp
  have r: "ReadKey (last hs) 7 ''/tmp/7.sock'' = Inr (Some ?k)"
    using writeKey_reads_back [OF n w free f(1) f(1) p] \<open>norm_Key ?k = ?k\<close> by simp
  note e = writeKey_effect [OF n w free]
  have "same_host idle_host (last hs)" using e(1,2) by simp
  then have "\<not> h_fault (last hs) c q" for c q using f(1) same_hostD(10) by metis
  then show thesis using that r by blast
qed

theorem claude_send_reaches_inbox_witness:
  "\<exists>h cl f cs. sr_client (send quick_env told_options ''hi'' h) = Some cl
     \<and> handleConn sample_server idle_host (LinuxCred 5 1000 1000) 0 (sent_conn (out cl))
       = [OnUser (peerCred_linux idle_host 5 1000 1000\<lparr>Addr := path sample_server, Authed := True\<rparr>) f]
     \<and> Unwrap (Text f) = (attributed cs, ''hi'' @ waiting_note told_options, True)"
proof -
  let ?o = told_options and ?rnd = "replicate 16 0 :: bytes"
  obtain h where h: "ReadKey h 7 ''/tmp/7.sock'' = Inr (Some \<lparr>PeerToken = ''k'', KeyProcStart = [], PIDDomain = []\<rparr>)"
    "\<And>c q. \<not> h_fault h c q" using published_host by blast
  let ?t = "\<lparr>TPID = 7, SocketPath = ''/tmp/7.sock'', TToken = ''k'', TProcStart = [], Unauthenticated = False\<rparr>"
  have o: "so_toSocket ?o = ''/tmp/7.sock''" "so_wait ?o = ''none''" "\<not> so_noAuth ?o" "\<not> so_noHint ?o" "so_name ?o = ''me''"
    by (simp_all add: told_options_def default_options_def)
  have r: "resolve h ?o = Inr ?t" using h(1) by (simp add: resolve_def o pid_of_seven)
  have "auth_frame ''k'' = sample_auth" by (simp add: auth_frame_def sample_auth_def)
  then obtain c where d: "Dial h (\<lambda>_. False) ?t = Inr c" "\<And>n. \<not> wfail c n"
    using samples_sendable(1) h(2) by (auto simp: Dial_def Let_def small_send sendable_def)
  let ?u = "send_user ?o h (send_mode h) [] ''hi''"
  have "length (send_mode h) \<le> 1000"
    by (auto simp: send_mode_def DetectParentMode_def Let_def ModePrompting_def split: sum.splits option.splits if_splits)
  then obtain i c' where s: "SendUser ?rnd c ?u = (Inr i, c')"
    using small_user_sent [OF d(2), of ?rnd ?u "\<lparr>cs_From = [], cs_Name = ''me'', cs_Mode = send_mode h\<rparr>"]
    by (auto simp: send_user_def waiting_note_def o Let_def)
  have oi: "open_inbox quick_env ?o h = ([], None, None, None, h)" by (simp add: open_inbox_def o)
  have e: "se_fails quick_env = (\<lambda>_. False)" "se_msg quick_env = ?rnd" by (simp_all add: quick_env_def)
  have sd: "sr_code (send quick_env ?o ''hi'' h) = exit_ok" "sr_client (send quick_env ?o ''hi'' h) = Some (CloseClient c')"
    using r d(1) s by (simp_all add: send_def send_from_def final_target_def o oi e Let_def)
  have ok: "sr_code (send quick_env ?o ''hi'' h) \<noteq> exit_error" using sd(1) by (simp add: exit_ok_def exit_error_def)
  have v: "TToken ?t \<noteq> []" "toValid (TToken ?t) = token sample_server" "validString (''hi'' @ waiting_note ?o)"
    by (simp_all add: sample_server_def toValid_ascii waiting_note_def o validString_ascii)
  have w: "map snd (c_in (sent_conn (out (CloseClient c')))) = out (CloseClient c')" "snd (c_end (sent_conn (out (CloseClient c')))) = EOF"
    by (simp_all add: sent_conn_def comp_def)
  have pc: "peerCred idle_host (LinuxCred 5 1000 1000) = Inr (peerCred_linux idle_host 5 1000 1000)"
    by (simp add: peerCred_def)
  have "has_OnUser (CHandler (cfg sample_server))" by (simp add: sample_server_def)
  from claude_send_reaches_inbox [OF sd(2) ok r o(3,4) v w sent_conn_prompt pc this] sd(2) show ?thesis by blast
qed

end
